(* ===== verification/Os_Prelude.thy ===== *)
theory Os_Prelude
  imports Main "HOL-Library.Word"
begin

text \<open>
  Shared vocabulary of the development: the machine integers of the 32-bit big-endian MIPS
  target, the result type of functions that can hit \<open>os_assert\<close>, the error numbers of
  \<open>utils/errno.h\<close> with the libc numbers the code returns, and generic lemmas on lists and words
  that the component theories share.
\<close>

unbundle bit_operations_syntax

named_theorems errno_simps \<open>values of the error numbers\<close>
named_theorems um_inv_intros \<open>operations of the user manager keep its invariant\<close>
named_theorems clock_inv_intros \<open>operations of the timer wheel keep its invariant\<close>

subsection \<open>Machine types and aborting functions\<close>

type_synonym u8 = "8 word"
type_synonym u16 = "16 word"
type_synonym u32 = "32 word"
type_synonym u64 = "64 word"
type_synonym addr = nat

text \<open>
  In an application build \<open>os_assert(x)\<close> is libc's \<open>assert\<close>, and \<open>os_assert_value(x)\<close> is
  \<open>(os_assert(0), x)\<close>: the process aborts and \<open>x\<close> is never seen. Functions with such branches
  return an \<open>outcome\<close>. \<open>Hang\<close> stands for a recursion of the code that never returns.
\<close>

datatype 'a outcome = Ret 'a | Abort | Hang

definition os_assert_value :: "'a \<Rightarrow> 'a outcome" where
  "os_assert_value x = Abort"

fun obind :: "'a outcome \<Rightarrow> ('a \<Rightarrow> 'b outcome) \<Rightarrow> 'b outcome" where
  "obind (Ret x) f = f x"
| "obind Abort f = Abort"
| "obind Hang f = Hang"

lemma obind_eq_Ret: "obind x f = Ret y \<longleftrightarrow> (\<exists>z. x = Ret z \<and> f z = Ret y)"
  by (cases x) auto

subsection \<open>Error numbers\<close>

text \<open>
  The enumeration of \<open>utils/errno.h\<close> starts at \<open>ERRNO_COMMON = 1000\<close>; the last constructors are
  the libc numbers used beside it. A failing function returns \<open>err e\<close>, the negated number.
\<close>

datatype errno =
    EINVAL0 | EINVAL1 | EINVAL2 | EINVAL3 | EINVAL4 | EINVAL5 | EINVAL6 | EINVAL7 | EINVAL8
  | EINVAL9 | ENOEXIST | EKEYNULL | EKEYBAD | ENOSPACE | ESYSTEM | EFORMAT | ETOOBIG | ELIMIT
  | EINLIST | EBADCRC | ETIMEOUT | ENOSUPPORT | EEMPTY | ENOEMPTY
  | EIO | ENOMEM | EBUSY | EEXIST | ENODEV | EINVAL | ENOTTY | ESPIPE

fun errno_code :: "errno \<Rightarrow> int" where
  "errno_code EINVAL0 = 1000"
| "errno_code EINVAL1 = 1001"
| "errno_code EINVAL2 = 1002"
| "errno_code EINVAL3 = 1003"
| "errno_code EINVAL4 = 1004"
| "errno_code EINVAL5 = 1005"
| "errno_code EINVAL6 = 1006"
| "errno_code EINVAL7 = 1007"
| "errno_code EINVAL8 = 1008"
| "errno_code EINVAL9 = 1009"
| "errno_code ENOEXIST = 1010"
| "errno_code EKEYNULL = 1011"
| "errno_code EKEYBAD = 1012"
| "errno_code ENOSPACE = 1013"
| "errno_code ESYSTEM = 1014"
| "errno_code EFORMAT = 1015"
| "errno_code ETOOBIG = 1016"
| "errno_code ELIMIT = 1017"
| "errno_code EINLIST = 1018"
| "errno_code EBADCRC = 1019"
| "errno_code ETIMEOUT = 1020"
| "errno_code ENOSUPPORT = 1021"
| "errno_code EEMPTY = 1022"
| "errno_code ENOEMPTY = 1023"
| "errno_code EIO = 5"
| "errno_code ENOMEM = 12"
| "errno_code EBUSY = 16"
| "errno_code EEXIST = 17"
| "errno_code ENODEV = 19"
| "errno_code EINVAL = 22"
| "errno_code ENOTTY = 25"
| "errno_code ESPIPE = 29"

definition err :: "errno \<Rightarrow> int" where
  "err e = - errno_code e"

lemma err_neg [simp]: "err e < 0"
  by (cases e) (simp_all add: err_def)

lemma err_not_nonneg [simp]: "\<not> 0 \<le> err e" "err e \<noteq> 0" "0 \<noteq> err e"
  by (cases e; simp add: err_def)+

lemma err_inject [simp]: "err e = err e' \<longleftrightarrow> e = e'"
  by (cases e; cases e') (simp_all add: err_def)

lemma err_bound: "-1024 < err e"
  by (cases e) (simp_all add: err_def)

subsection \<open>Lists\<close>

lemma remove1_filter_distinct: "distinct xs \<Longrightarrow> remove1 x xs = filter (\<lambda>y. y \<noteq> x) xs"
  by (rule distinct_remove1_removeAll [THEN trans]) (simp_all add: removeAll_filter_not_eq eq_commute)

lemma length_remove1_in: "x \<in> set xs \<Longrightarrow> length (remove1 x xs) = length xs - 1"
  by (simp add: length_remove1)

lemma filter_eq_distinct: "distinct xs \<Longrightarrow> filter (\<lambda>y. y = x) xs = (if x \<in> set xs then [x] else [])"
  by (induction xs) auto

lemma map_of_nth_upt: "map (\<lambda>i. xs ! i) [0..<length xs] = xs"
  by (rule map_nth)

lemma map_of_snoc: "map_of cs k = None \<Longrightarrow> map_of (cs @ [(k, v)]) = (map_of cs)(k \<mapsto> v)"
  by (auto simp: map_add_def fun_eq_iff split: option.splits)

subsection \<open>Words as numbers\<close>

lemma unat_bound: "unat (w :: 'a::len word) < 2 ^ LENGTH('a)"
  by (fact unsigned_less)

lemma unat_word_of_int_small:
  "0 \<le> k \<Longrightarrow> k < 2 ^ LENGTH('a) \<Longrightarrow> unat (word_of_int k :: 'a::len word) = nat k"
  unfolding nat_uint_eq [symmetric] uint_word_of_int_eq by (simp add: take_bit_int_eq_self)

lemma unat_and_255: "unat ((w :: 'a::len word) AND 255) = unat w mod 256"
proof -
  have "w AND 255 = take_bit 8 w"
    by (simp add: take_bit_eq_mask mask_eq_exp_minus_1)
  also have "unat (take_bit 8 w) = take_bit 8 (unat w)"
    by (rule unsigned_take_bit_eq)
  finally show ?thesis
    by (simp add: take_bit_eq_mod)
qed

lemma unat_drop_bit: "unat (drop_bit n (w :: 'a::len word)) = unat w div 2 ^ n"
  unfolding unat_drop_bit_eq by (rule drop_bit_eq_div)

lemma unat_push_bit: "unat (push_bit n (w :: 'a::len word)) = (unat w * 2 ^ n) mod 2 ^ LENGTH('a)"
proof -
  have "unat (push_bit n w) = take_bit LENGTH('a) (push_bit n (unat w))"
    by (rule unsigned_push_bit_eq)
  then show ?thesis
    by (simp add: push_bit_eq_mult take_bit_eq_mod)
qed

end
