(* ===== verification/Os_Base.thy ===== *)
theory Os_Base
  imports Os_Prelude
begin

text \<open>
  The header-only helpers of \<open>autelan-lib/src/utils\<close>: multi-values (\<open>type.h\<close>), comparisons and
  ranges (\<open>base.h\<close>), alignment and flags (\<open>bits.h\<close>), digit strings (\<open>number.h\<close>), MAC addresses
  (\<open>mac.h\<close>) and IP masks (\<open>ip.h\<close>). A C string is the list of its bytes before the terminating
  NUL; a MAC address is a list of six bytes.
\<close>

subsection \<open>Multi-values (type.h)\<close>

text \<open>
  \<open>multi_value_u\<close> overlays a 24-bit result and an 8-bit control on one 32-bit value. The target
  is big-endian, where the first bit-field takes the most significant bits; the little-endian
  layout of a PC build is defined beside it.
\<close>

definition OS_MV_GO :: int where "OS_MV_GO = 0"
definition OS_MV_BREAK :: int where "OS_MV_BREAK = 1"

definition mv2_return :: "int \<Rightarrow> int \<Rightarrow> u32" where
  "mv2_return control res =
     push_bit 8 (ucast (word_of_int res :: 24 word)) OR ucast (word_of_int control :: 8 word)"

definition mv2_result :: "u32 \<Rightarrow> int" where
  "mv2_result mv = sint (ucast (drop_bit 8 mv) :: 24 word)"

definition mv2_control :: "u32 \<Rightarrow> int" where
  "mv2_control mv = sint (ucast mv :: 8 word)"

definition mv2_return_le :: "int \<Rightarrow> int \<Rightarrow> u32" where
  "mv2_return_le control res =
     push_bit 24 (ucast (word_of_int control :: 8 word)) OR ucast (word_of_int res :: 24 word)"

definition mv2_result_le :: "u32 \<Rightarrow> int" where
  "mv2_result_le mv = sint (ucast mv :: 24 word)"

definition mv2_control_le :: "u32 \<Rightarrow> int" where
  "mv2_control_le mv = sint (ucast (drop_bit 24 mv) :: 8 word)"

definition mv2_BREAK :: "int \<Rightarrow> u32" where
  "mv2_BREAK res = mv2_return OS_MV_BREAK res"

definition mv2_GO :: "int \<Rightarrow> u32" where
  "mv2_GO res = mv2_return OS_MV_GO res"

definition mv2_OK :: u32 where
  "mv2_OK = 0"

definition mv2_is_break :: "u32 \<Rightarrow> bool" where
  "mv2_is_break mv \<longleftrightarrow> OS_MV_BREAK = mv2_control mv"

definition mv2_is_go :: "u32 \<Rightarrow> bool" where
  "mv2_is_go mv \<longleftrightarrow> OS_MV_GO = mv2_control mv"

subsection \<open>Comparisons and ranges (base.h)\<close>

definition os_common_cmp :: "int \<Rightarrow> int \<Rightarrow> int" where
  "os_common_cmp a b = (if a > b then 1 else if a = b then 0 else -1)"

definition is_good_common_id :: "int \<Rightarrow> bool" where
  "is_good_common_id i \<longleftrightarrow> i \<ge> 0"

definition is_good_value :: "int \<Rightarrow> int \<Rightarrow> int \<Rightarrow> bool" where
  "is_good_value v b e \<longleftrightarrow> v \<ge> b \<and> v < e"

definition is_good_enum :: "int \<Rightarrow> int \<Rightarrow> bool" where
  "is_good_enum i e \<longleftrightarrow> is_good_value i 0 e"

definition os_safe_value :: "int \<Rightarrow> int \<Rightarrow> int \<Rightarrow> int" where
  "os_safe_value value mn mx = (if value < mn then mn else if value > mx then mx else value)"

definition os_min :: "int \<Rightarrow> int \<Rightarrow> int" where
  "os_min x y = (if x < y then x else y)"

definition os_max :: "int \<Rightarrow> int \<Rightarrow> int" where
  "os_max x y = (if x > y then x else y)"

definition os_seq_before :: "u32 \<Rightarrow> u32 \<Rightarrow> bool" where
  "os_seq_before seq1 seq2 \<longleftrightarrow> sint (seq1 - seq2) < 0"

definition os_seq_after :: "u32 \<Rightarrow> u32 \<Rightarrow> bool" where
  "os_seq_after seq1 seq2 = os_seq_before seq2 seq1"

subsection \<open>Alignment, flags and masks (bits.h)\<close>

definition os_align_div :: "u32 \<Rightarrow> u32 \<Rightarrow> u32" where
  "os_align_div x align = ((x + align - 1) div align) * align"

definition os_align :: "u32 \<Rightarrow> u32 \<Rightarrow> u32" where
  "os_align x align = (x + align - 1) AND NOT (align - 1)"

definition os_align_down :: "u32 \<Rightarrow> u32 \<Rightarrow> u32" where
  "os_align_down x align = x AND NOT (align - 1)"

definition os_setflag :: "'a::len word \<Rightarrow> 'a word \<Rightarrow> 'a word" where
  "os_setflag value flag = value OR flag"

definition os_clrflag :: "'a::len word \<Rightarrow> 'a word \<Rightarrow> 'a word" where
  "os_clrflag value flag = value AND NOT flag"

definition os_hasflag :: "'a::len word \<Rightarrow> 'a word \<Rightarrow> bool" where
  "os_hasflag value flag \<longleftrightarrow> flag = (value AND flag)"

definition os_bit :: "nat \<Rightarrow> u32" where
  "os_bit b = push_bit b 1"

definition os_mask :: "nat \<Rightarrow> u32" where
  "os_mask b = os_bit b - 1"

definition os_hasbit :: "u32 \<Rightarrow> nat \<Rightarrow> bool" where
  "os_hasbit value b = os_hasflag value (os_bit b)"

definition os_maskmatch :: "u8 \<Rightarrow> u8 \<Rightarrow> u8 \<Rightarrow> bool" where
  "os_maskmatch a b msk \<longleftrightarrow> (a AND msk) \<noteq> (b AND msk)"

text \<open>The loop over the \<open>len\<close> bytes; an exhausted list ends it as \<open>len\<close> does.\<close>

fun os_bufmaskmatch :: "u8 list \<Rightarrow> u8 list \<Rightarrow> u8 list \<Rightarrow> nat \<Rightarrow> bool" where
  "os_bufmaskmatch (a # as) (b # bs) (m # ms) (Suc len) =
     (if os_maskmatch a b m = False then False else os_bufmaskmatch as bs ms len)"
| "os_bufmaskmatch _ _ _ _ = True"

subsection \<open>Digit strings (number.h)\<close>

definition os_digitchar2int :: "int \<Rightarrow> int outcome" where
  "os_digitchar2int ch =
     (if ch \<ge> 48 \<and> ch \<le> 57 then Ret (ch - 48)
      else if ch \<ge> 97 \<and> ch \<le> 102 then Ret (ch - 97 + 10)
      else if ch \<ge> 65 \<and> ch \<le> 70 then Ret (ch - 65 + 10)
      else os_assert_value (ch - 48))"

fun os_digits_loop :: "u8 list \<Rightarrow> int \<Rightarrow> int \<Rightarrow> int outcome" where
  "os_digits_loop [] base n = Ret n"
| "os_digits_loop (c # cs) base n =
     obind (os_digitchar2int (sint c)) (\<lambda>d. os_digits_loop cs base (n * base + d))"

definition os_digitstring2number :: "u8 list \<Rightarrow> nat \<Rightarrow> int \<Rightarrow> int outcome" where
  "os_digitstring2number str len base = os_digits_loop (take len str) base 0"

subsection \<open>Memory comparison (memory.h) and MAC addresses (mac.h)\<close>

fun os_memcmp :: "u8 list \<Rightarrow> u8 list \<Rightarrow> nat \<Rightarrow> int" where
  "os_memcmp (x # xs) (y # ys) (Suc n) =
     (if x = y then os_memcmp xs ys n else if x < y then -1 else 1)"
| "os_memcmp _ _ _ = 0"

definition os_memeq :: "u8 list \<Rightarrow> u8 list \<Rightarrow> nat \<Rightarrow> bool" where
  "os_memeq a b n \<longleftrightarrow> 0 = os_memcmp a b n"

definition OS_MACSIZE :: nat where "OS_MACSIZE = 6"
definition MACSTRINGLEN_L :: nat where "MACSTRINGLEN_L = 3 * OS_MACSIZE - 1"
definition MACSTRINGLEN_S :: nat where "MACSTRINGLEN_S = 2 * OS_MACSIZE"
definition OS_ZEROMAC :: "u8 list" where "OS_ZEROMAC = replicate 6 0"
definition OS_FULLMAC :: "u8 list" where "OS_FULLMAC = replicate 6 0xff"

definition os_maccpy :: "u8 list \<Rightarrow> u8 list \<Rightarrow> u8 list" where
  "os_maccpy mac_dst mac_src = take OS_MACSIZE mac_src @ drop OS_MACSIZE mac_dst"

definition os_maccmp :: "u8 list \<Rightarrow> u8 list \<Rightarrow> int" where
  "os_maccmp mac_a mac_b = os_memcmp mac_a mac_b OS_MACSIZE"

definition os_maceq :: "u8 list \<Rightarrow> u8 list \<Rightarrow> bool" where
  "os_maceq mac_a mac_b \<longleftrightarrow> 0 = os_maccmp mac_a mac_b"

definition os_macmaskmach :: "u8 list \<Rightarrow> u8 list \<Rightarrow> u8 list \<Rightarrow> bool" where
  "os_macmaskmach mac_a mac_b mac_mask = os_bufmaskmatch mac_a mac_b mac_mask OS_MACSIZE"

definition is_zero_mac :: "u8 list \<Rightarrow> bool" where
  "is_zero_mac mac = os_maceq mac OS_ZEROMAC"

definition is_full_mac :: "u8 list \<Rightarrow> bool" where
  "is_full_mac mac = os_maceq mac OS_FULLMAC"

definition is_good_mac :: "u8 list \<Rightarrow> bool" where
  "is_good_mac mac \<longleftrightarrow> False = is_zero_mac mac \<and> False = is_full_mac mac"

fun getmac_loop :: "u8 list \<Rightarrow> nat \<Rightarrow> nat \<Rightarrow> u8 list outcome" where
  "getmac_loop macstring width 0 = Ret []"
| "getmac_loop macstring width (Suc n) =
     obind (os_digitstring2number macstring 2 16)
       (\<lambda>d. obind (getmac_loop (drop width macstring) width n)
         (\<lambda>ds. Ret (word_of_int d # ds)))"

definition os_getmac_bystring :: "u8 list \<Rightarrow> u8 list outcome" where
  "os_getmac_bystring macstring =
     (let len = length macstring in
      if MACSTRINGLEN_L = len then getmac_loop macstring 3 OS_MACSIZE
      else if MACSTRINGLEN_S = len then getmac_loop macstring 2 OS_MACSIZE
      else Abort)"

text \<open>\<open>"%.2x"\<close> prints two lower-case hexadecimal digits of a byte.\<close>

definition hex_digit :: "nat \<Rightarrow> u8" where
  "hex_digit d = (if d < 10 then word_of_nat (48 + d) else word_of_nat (87 + d))"

definition print_2x :: "u8 \<Rightarrow> u8 list" where
  "print_2x b = [hex_digit (unat b div 16), hex_digit (unat b mod 16)]"

fun macstring_body :: "u8 list \<Rightarrow> u8 \<Rightarrow> u8 list" where
  "macstring_body [] sep = []"
| "macstring_body [b] sep = print_2x b"
| "macstring_body (b # bs) sep = print_2x b @ (if sep = 0 then [] else [sep]) @ macstring_body bs sep"

text \<open>\<open>snprintf\<close>: the full length is returned, at most \<open>len - 1\<close> characters are stored.\<close>

definition os_macsnprintf :: "u8 list \<Rightarrow> nat \<Rightarrow> u8 \<Rightarrow> int \<times> u8 list" where
  "os_macsnprintf mac len sep =
     (let s = macstring_body (take OS_MACSIZE mac) sep in (int (length s), take (len - 1) s))"

subsection \<open>IP masks (ip.h)\<close>

definition os_ipmatch :: "u32 \<Rightarrow> u32 \<Rightarrow> u32 \<Rightarrow> bool" where
  "os_ipmatch ipa ipb msk \<longleftrightarrow> (ipa AND msk) = (ipb AND msk)"

subsection \<open>The multi-value interface\<close>

text \<open>
  A layout of \<open>multi_value_u\<close> is usable when result and control survive packing in their bit-field
  ranges; the error numbers then survive both kinds of return. Both layouts are instances.
\<close>

locale mv2_layout =
  fixes pack :: "int \<Rightarrow> int \<Rightarrow> u32"
    and res :: "u32 \<Rightarrow> int"
    and control :: "u32 \<Rightarrow> int"
  assumes res_pack: "- (2 ^ 23) \<le> r \<Longrightarrow> r < 2 ^ 23 \<Longrightarrow> res (pack c r) = r"
    and control_pack: "- 128 \<le> c \<Longrightarrow> c < 128 \<Longrightarrow> control (pack c r) = c"
    and pack_ok: "pack OS_MV_GO 0 = mv2_OK"
begin

lemma res_pack_err: "res (pack c (err e)) = err e"
  by (rule res_pack) (use err_bound [of e] in simp, rule less_trans [OF err_neg], simp)

lemma break_carries_error: "control (pack OS_MV_BREAK (err e)) = OS_MV_BREAK \<and> res (pack OS_MV_BREAK (err e)) = err e"
  by (simp add: control_pack res_pack_err OS_MV_BREAK_def)

lemma go_carries_error: "control (pack OS_MV_GO (err e)) = OS_MV_GO \<and> res (pack OS_MV_GO (err e)) = err e"
  by (simp add: control_pack res_pack_err OS_MV_GO_def)

lemma ok_goes_on: "control mv2_OK = OS_MV_GO \<and> res mv2_OK = 0"
proof -
  have "control (pack OS_MV_GO 0) = OS_MV_GO \<and> res (pack OS_MV_GO 0) = 0"
    by (simp add: control_pack res_pack OS_MV_GO_def)
  then show ?thesis by (simp only: pack_ok)
qed

end

lemma sint_word_of_int_24: "- (2 ^ 23) \<le> r \<Longrightarrow> r < 2 ^ 23 \<Longrightarrow> sint (word_of_int r :: 24 word) = r"
  by (simp add: signed_of_int signed_take_bit_int_eq_self)
lemma sint_word_of_int_8: "- 128 \<le> r \<Longrightarrow> r < 128 \<Longrightarrow> sint (word_of_int r :: 8 word) = r"
  by (simp add: signed_of_int signed_take_bit_int_eq_self)

lemma hi24: "(ucast (drop_bit 8 (push_bit 8 (ucast (x :: 24 word)) OR ucast (y :: 8 word) :: u32)) :: 24 word) = x"
  by (rule bit_word_eqI) (auto simp: bit_simps dest: bit_imp_le_length)
lemma lo8: "(ucast (push_bit 8 (ucast (x :: 24 word)) OR ucast (y :: 8 word) :: u32) :: 8 word) = y"
  by (rule bit_word_eqI) (auto simp: bit_simps)
lemma lo24: "(ucast (push_bit 24 (ucast (y :: 8 word)) OR ucast (x :: 24 word) :: u32) :: 24 word) = x"
  by (rule bit_word_eqI) (auto simp: bit_simps)
lemma hi8: "(ucast (drop_bit 24 (push_bit 24 (ucast (y :: 8 word)) OR ucast (x :: 24 word) :: u32)) :: 8 word) = y"
  by (rule bit_word_eqI) (auto simp: bit_simps dest: bit_imp_le_length)

interpretation mv2_be: mv2_layout mv2_return mv2_result mv2_control
  by unfold_locales
    (simp_all only: mv2_return_def mv2_result_def mv2_control_def hi24 lo8 sint_word_of_int_24
      sint_word_of_int_8, simp add: mv2_OK_def OS_MV_GO_def)

interpretation mv2_le: mv2_layout mv2_return_le mv2_result_le mv2_control_le
  by unfold_locales
    (simp_all only: mv2_return_le_def mv2_result_le_def mv2_control_le_def lo24 hi8 sint_word_of_int_24
      sint_word_of_int_8, simp add: mv2_OK_def OS_MV_GO_def)

subsection \<open>Alignment\<close>

lemma os_align_down_pow2: "unat (os_align_down x (2 ^ n)) = (unat x div 2 ^ n) * 2 ^ n"
proof -
  have "os_align_down x (2 ^ n) = push_bit n (drop_bit n x)"
    by (rule bit_word_eqI) (auto simp: os_align_down_def bit_simps mask_eq_exp_minus_1 [symmetric] less_diff_conv2)
  then show ?thesis
    by (simp only: unat_push_bit unat_drop_bit)
      (metis div_times_less_eq_dividend le_less_trans mod_less unsigned_less)
qed

lemma os_align_eq_down: "os_align x a = os_align_down (x + a - 1) a"
  by (simp add: os_align_def os_align_down_def)

lemma unat_exp: "n < LENGTH('a) \<Longrightarrow> unat (2 ^ n :: 'a::len word) = 2 ^ n"
  using unat_push_bit [of n "1 :: 'a word"] by (simp add: push_bit_eq_mult power_strict_increasing)

lemma unat_align_top:
  assumes "n < 32" and "unat x + 2 ^ n \<le> 2 ^ 32"
  shows "unat (x + 2 ^ n - 1 :: u32) = unat x + 2 ^ n - 1"
proof -
  have m: "unat (mask n :: u32) = 2 ^ n - 1"
    using assms(1) by (simp add: mask_eq_exp_minus_1 unat_sub unat_exp word_le_nat_alt)
  have e: "x + 2 ^ n - 1 = x + mask n" by (simp add: mask_eq_exp_minus_1)
  have "unat x + (2 ^ n - 1) < 2 ^ 32"
    using assms(2) by (simp add: less_le_trans)
  then show ?thesis unfolding e by (simp only: unat_word_ariths(1) m) simp
qed

subsection \<open>MAC addresses and their strings\<close>

lemma os_memcmp_zero: "length xs = n \<Longrightarrow> length ys = n \<Longrightarrow> os_memcmp xs ys n = 0 \<longleftrightarrow> xs = ys"
  by (induction xs ys n rule: os_memcmp.induct) auto

lemma os_maceq_iff [simp]: "length a = 6 \<Longrightarrow> length b = 6 \<Longrightarrow> os_maceq a b \<longleftrightarrow> a = b"
  using os_memcmp_zero [of a 6 b] by (auto simp: os_maceq_def os_maccmp_def OS_MACSIZE_def)

lemma is_good_mac_iff:
  "length mac = 6 \<Longrightarrow> is_good_mac mac \<longleftrightarrow> mac \<noteq> OS_ZEROMAC \<and> mac \<noteq> OS_FULLMAC"
  by (simp add: is_good_mac_def is_zero_mac_def is_full_mac_def OS_ZEROMAC_def OS_FULLMAC_def)

lemma os_bufmaskmatch_iff:
  "os_bufmaskmatch as bs ms len \<longleftrightarrow>
     (\<forall>i < min len (min (length as) (min (length bs) (length ms))). as ! i AND ms ! i \<noteq> bs ! i AND ms ! i)"
proof (induction as bs ms len rule: os_bufmaskmatch.induct)
  case (1 a as b bs m ms len)
  then show ?case
    by (auto simp: os_maskmatch_def less_Suc_eq_0_disj nth_Cons split: nat.splits)
qed auto

lemma digit_hex: "d < 16 \<Longrightarrow> os_digitchar2int (sint (hex_digit d)) = Ret (int d)"
proof -
  assume "d < 16"
  moreover have "\<forall>d \<in> set [0..<16]. os_digitchar2int (sint (hex_digit d)) = Ret (int d)"
    by code_simp
  ultimately show ?thesis by simp
qed

lemma os_digitstring2number_print_2x:
  "os_digitstring2number (print_2x b @ rest) 2 16 = Ret (uint b)"
proof -
  have "unat b < 256" using unsigned_less [of b, where 'a = nat] by simp
  then have "unat b div 16 < 16" by simp
  moreover have "int (unat b div 16) * 16 + int (unat b mod 16) = uint b"
    by (metis div_mult_mod_eq of_nat_add of_nat_mult of_nat_numeral uint_nat)
  ultimately show ?thesis
    by (simp add: os_digitstring2number_def print_2x_def digit_hex)
qed

lemma length_print_2x [simp]: "length (print_2x b) = 2"
  by (simp add: print_2x_def)

lemma getmac_loop_body:
  "getmac_loop (macstring_body bs sep) (if sep = 0 then 2 else 3) (length bs) = Ret bs"
proof (induction bs sep rule: macstring_body.induct)
  case (2 b sep)
  then show ?case
    using os_digitstring2number_print_2x [of b "[]"] by simp
next
  case (3 b b' bs sep)
  then show ?case
    by (simp add: os_digitstring2number_print_2x)
qed simp

lemma length_macstring_body:
  "length (macstring_body bs sep) = (if sep = 0 then 2 * length bs else 3 * length bs - 1)"
  by (induction bs sep rule: macstring_body.induct) auto

subsection \<open>Properties\<close>

lemma mv2_GO_0 [simp]: "mv2_GO 0 = mv2_OK"
  by (simp add: mv2_GO_def mv2_return_def OS_MV_GO_def mv2_OK_def)

lemma mv2_OK_go [simp]: "\<not> mv2_is_break mv2_OK" "mv2_result mv2_OK = 0"
  by (simp_all add: mv2_OK_def mv2_is_break_def mv2_control_def OS_MV_BREAK_def mv2_result_def)

text \<open>Every error number travels unchanged through \<open>mv2_BREAK\<close> and \<open>mv2_GO\<close>, the first stops a
  callback loop and the second does not, and \<open>mv2_OK\<close> is a continue with result 0.\<close>

theorem mv2_carries_errno:
  "mv2_is_break (mv2_BREAK (err e)) \<and> mv2_result (mv2_BREAK (err e)) = err e
   \<and> mv2_is_go (mv2_GO (err e)) \<and> \<not> mv2_is_break (mv2_GO (err e)) \<and> mv2_result (mv2_GO (err e)) = err e
   \<and> mv2_is_go mv2_OK \<and> mv2_result mv2_OK = 0"
  using mv2_be.break_carries_error [of e] mv2_be.go_carries_error [of e] mv2_be.ok_goes_on
  by (simp add: mv2_is_break_def mv2_is_go_def mv2_BREAK_def mv2_GO_def OS_MV_GO_def OS_MV_BREAK_def)

text \<open>Printing a MAC address with \<open>os_macsnprintf\<close> into a buffer of at least 18 bytes, with a
  separator or without one, and reading it back with \<open>os_getmac_bystring\<close> gives the address.\<close>

theorem macstring_roundtrip:
  assumes "length mac = 6" and "18 \<le> len"
  shows "os_getmac_bystring (snd (os_macsnprintf mac len sep)) = Ret mac"
  using assms getmac_loop_body [of mac sep]
  by (simp add: os_macsnprintf_def os_getmac_bystring_def OS_MACSIZE_def MACSTRINGLEN_L_def
      MACSTRINGLEN_S_def length_macstring_body Let_def split: if_splits)

theorem macstring_roundtrip_witness:
  "os_getmac_bystring (snd (os_macsnprintf [0, 0x1f, 0x64, 0xab, 0xcd, 0xef] 18 58))
     = Ret [0, 0x1f, 0x64, 0xab, 0xcd, 0xef]"
  by (rule macstring_roundtrip) simp_all

text \<open>\<open>os_macmaskmach\<close> holds exactly when all six masked bytes differ, because \<open>os_maskmatch\<close>
  compares with \<open>!=\<close>; in particular no address matches itself, whatever the mask.\<close>

theorem os_macmaskmach_inverted:
  assumes "length a = 6" and "length b = 6" and "length m = 6"
  shows "(os_macmaskmach a b m \<longleftrightarrow> (\<forall>i < 6. a ! i AND m ! i \<noteq> b ! i AND m ! i)) \<and> \<not> os_macmaskmach a a m"
  using assms by (auto simp: os_macmaskmach_def os_bufmaskmatch_iff OS_MACSIZE_def intro: exI [of _ 0])

theorem os_macmaskmach_inverted_witness:
  "\<not> os_macmaskmach [1, 2, 3, 4, 5, 6] [1, 2, 3, 4, 5, 6] [0xff, 0xff, 0xff, 0, 0, 0]"
  by (rule os_macmaskmach_inverted [where b = "[1, 2, 3, 4, 5, 6]", THEN conjunct2]) simp_all

text \<open>For a power-of-two alignment, and as long as the sum does not wrap, \<open>os_align\<close> gives the
  least multiple that is not below \<open>x\<close> and agrees with the division-based \<open>__os_align\<close>.\<close>

theorem os_align_rounds_up:
  assumes "n < 32" and "unat x + 2 ^ n \<le> 2 ^ 32"
  shows "unat (os_align x (2 ^ n)) = ((unat x + 2 ^ n - 1) div 2 ^ n) * 2 ^ n
       \<and> os_align x (2 ^ n) = os_align_div x (2 ^ n)"
proof
  let ?r = "((unat x + 2 ^ n - 1) div 2 ^ n) * 2 ^ n"
  show 1: "unat (os_align x (2 ^ n)) = ?r"
    by (simp only: os_align_eq_down os_align_down_pow2 unat_align_top [OF assms])
  have "unat (2 ^ n :: u32) = 2 ^ n" using assms(1) by (intro unat_exp) simp
  then have "unat (os_align_div x (2 ^ n)) = ?r mod 2 ^ 32"
    by (simp only: os_align_div_def unat_word_ariths(2) unat_div unat_align_top [OF assms] len_of_numeral_defs) simp
  also have "\<dots> = unat (os_align x (2 ^ n))"
    unfolding 1 [symmetric] using unsigned_less [of "os_align x (2 ^ n)", where 'a = nat] by simp
  finally show "os_align x (2 ^ n) = os_align_div x (2 ^ n)"
    by (simp add: word_unat_eq_iff)
qed

theorem os_align_rounds_up_witness:
  "unat (os_align 4097 (2 ^ 12)) = ((unat (4097 :: u32) + 2 ^ 12 - 1) div 2 ^ 12) * 2 ^ 12
     \<and> os_align 4097 (2 ^ 12) = os_align_div 4097 (2 ^ 12)"
  by (rule os_align_rounds_up) simp_all

text \<open>Sequence numbers less than \<open>2\<^sup>3\<^sup>1\<close> apart are ordered by \<open>os_seq_before\<close> in the direction of
  the increment, across the wrap-around of the counter too.\<close>

theorem os_seq_before_window: 
  assumes "0 < d" and "d < 2 ^ 31"
  shows "os_seq_before a (a + word_of_nat d) \<and> \<not> os_seq_before (a + word_of_nat d) a"
proof -
  have "sint (word_of_int (int d) :: u32) = int d"
    using assms by (simp only: signed_of_int) (simp add: signed_take_bit_int_eq_self)
  moreover have "sint (word_of_int (- int d) :: u32) = - int d"
    using assms by (simp only: signed_of_int) (simp add: signed_take_bit_int_eq_self)
  ultimately show ?thesis
    using assms by (simp add: os_seq_before_def)
qed

theorem os_seq_before_window_witness:
  "os_seq_before 0xfffffff0 (0xfffffff0 + word_of_nat 32) \<and> \<not> os_seq_before (0xfffffff0 + word_of_nat 32) 0xfffffff0"
  by (rule os_seq_before_window) simp_all

end
