(* ===== verification/Os_String.thy ===== *)
theory Os_String
  imports Os_Base
begin

text \<open>
  The in-place string helpers of \<open>utils/string.h\<close>. The argument of each function is the content of
  a NUL-terminated buffer (the bytes before the NUL) and the result is the content afterwards.
  The character class is the callback \<open>IS\<close>; a NULL callback means the default class of
  \<open>__blanks\<close> (or of \<open>'#'\<close> for \<open>__string_r_drop\<close>).
\<close>

subsection \<open>The code\<close>

definition blanks :: "u8 list" where
  "blanks = [9, 32, 13, 10]"

definition char_is :: "(u8 \<Rightarrow> bool) option \<Rightarrow> u8 \<Rightarrow> bool" where
  "char_is IS ch = (case IS of Some f \<Rightarrow> f ch | None \<Rightarrow> ch \<in> set (blanks @ [0]))"

definition char_is_drop :: "(u8 \<Rightarrow> bool) option \<Rightarrow> u8 \<Rightarrow> bool" where
  "char_is_drop IS ch = (case IS of Some f \<Rightarrow> f ch | None \<Rightarrow> ch = 35)"

text \<open>
  \<open>os_strlcpy\<close> returns the copied length and the destination buffer. The terminator is stored even
  when \<open>size\<close> is 0.
\<close>

fun strlcpy_loop :: "u8 list \<Rightarrow> nat \<Rightarrow> u8 list" where
  "strlcpy_loop (s # ss) (Suc n) = s # strlcpy_loop ss n"
| "strlcpy_loop _ _ = []"

definition os_strlcpy :: "u8 list \<Rightarrow> u8 list \<Rightarrow> nat \<Rightarrow> nat \<times> u8 list" where
  "os_strlcpy dst src sz =
     (let copied = (if sz \<noteq> 0 then strlcpy_loop src (sz - 1) else []); len = length copied
      in (len, copied @ 0 # drop (Suc len) dst))"

fun string_replace :: "(u8 \<Rightarrow> bool) option \<Rightarrow> u8 \<Rightarrow> u8 list \<Rightarrow> u8 list" where
  "string_replace IS_OLD new [] = []"
| "string_replace IS_OLD new (s # ss) =
     (if char_is IS_OLD s then new else s) # string_replace IS_OLD new ss"

text \<open>
  \<open>__string_reduce\<close>: in reduce mode the record pointer stays on the last separator seen, which is
  the second argument; the final \<open>*p = 0\<close> overwrites a separator still recorded there.
\<close>

fun reduce_loop :: "(u8 \<Rightarrow> bool) option \<Rightarrow> u8 option \<Rightarrow> u8 list \<Rightarrow> u8 list" where
  "reduce_loop IS rec [] = []"
| "reduce_loop IS rec (s # ss) =
     (if char_is IS s then reduce_loop IS (Some s) ss
      else (case rec of Some r \<Rightarrow> r # s # reduce_loop IS None ss
                      | None \<Rightarrow> s # reduce_loop IS None ss))"

definition string_reduce :: "(u8 \<Rightarrow> bool) option \<Rightarrow> u8 list \<Rightarrow> u8 list" where
  "string_reduce IS s = reduce_loop IS None s"

text \<open>\<open>__string_strim\<close> compacts the kept bytes to the front and stores no terminator.\<close>

fun strim_loop :: "(u8 \<Rightarrow> bool) option \<Rightarrow> u8 list \<Rightarrow> u8 list" where
  "strim_loop IS [] = []"
| "strim_loop IS (s # ss) = (if char_is IS s then strim_loop IS ss else s # strim_loop IS ss)"

definition string_strim :: "(u8 \<Rightarrow> bool) option \<Rightarrow> u8 list \<Rightarrow> u8 list" where
  "string_strim IS s = (let kept = strim_loop IS s in kept @ drop (length kept) s)"

fun string_strim_left :: "(u8 \<Rightarrow> bool) option \<Rightarrow> u8 list \<Rightarrow> u8 list" where
  "string_strim_left IS [] = []"
| "string_strim_left IS (s # ss) = (if char_is IS s then string_strim_left IS ss else s # ss)"

text \<open>The scan of \<open>__string_strim_right\<close> starts at the last byte: the loop runs on the reversed content.\<close>

definition string_strim_right :: "(u8 \<Rightarrow> bool) option \<Rightarrow> u8 list \<Rightarrow> u8 list" where
  "string_strim_right IS s = rev (string_strim_left IS (rev s))"

definition string_strim_both_ends :: "(u8 \<Rightarrow> bool) option \<Rightarrow> u8 list \<Rightarrow> u8 list" where
  "string_strim_both_ends IS s = string_strim_left IS (string_strim_right IS s)"

fun string_r_drop :: "(u8 \<Rightarrow> bool) option \<Rightarrow> u8 list \<Rightarrow> u8 list" where
  "string_r_drop IS [] = []"
| "string_r_drop IS (p # ps) = (if char_is_drop IS p = False then p # string_r_drop IS ps else [])"

definition is_blank_line :: "u8 list \<Rightarrow> bool" where
  "is_blank_line line \<longleftrightarrow> line = [] \<or> hd line = 10 \<or> (hd line = 13 \<and> take 1 (tl line) = [10])"

definition is_notes_line :: "u8 list \<Rightarrow> u8 list \<Rightarrow> bool" where
  "is_notes_line line notes = os_memeq (line @ [0]) notes (length notes)"

definition is_notes_line_deft :: "u8 list \<Rightarrow> bool" where
  "is_notes_line_deft line = is_notes_line line [35]"

subsection \<open>What the loops compute\<close>

lemma strlcpy_loop_take: "strlcpy_loop s n = take n s"
  by (induction s n rule: strlcpy_loop.induct) auto

lemma string_replace_map: "string_replace IS new s = map (\<lambda>c. if char_is IS c then new else c) s"
  by (induction s) auto

lemma strim_loop_filter: "strim_loop IS s = filter (\<lambda>c. \<not> char_is IS c) s"
  by (induction s) auto

lemma string_strim_left_dropWhile: "string_strim_left IS s = dropWhile (char_is IS) s"
  by (induction s) auto

lemma string_r_drop_takeWhile: "string_r_drop IS s = takeWhile (\<lambda>c. \<not> char_is_drop IS c) s"
  by (induction s) auto

lemma string_strim_both_ends_id:
  "s \<noteq> [] \<Longrightarrow> \<not> char_is IS (hd s) \<Longrightarrow> \<not> char_is IS (last s) \<Longrightarrow> string_strim_both_ends IS s = s"
proof -
  assume s: "s \<noteq> []" "\<not> char_is IS (hd s)" "\<not> char_is IS (last s)"
  then have "dropWhile (char_is IS) (rev s) = rev s"
    by (cases s rule: rev_cases) simp_all
  moreover have "dropWhile (char_is IS) s = s"
    using s by (cases s) simp_all
  ultimately show ?thesis
    by (simp add: string_strim_both_ends_def string_strim_right_def string_strim_left_dropWhile)
qed

text \<open>A string is reduced when no two neighbours are separators and the last byte is none.\<close>

fun reduced :: "(u8 \<Rightarrow> bool) option \<Rightarrow> u8 list \<Rightarrow> bool" where
  "reduced IS [] = True"
| "reduced IS [s] = (\<not> char_is IS s)"
| "reduced IS (s # t # ss) = ((char_is IS s \<longrightarrow> \<not> char_is IS t) \<and> reduced IS (t # ss))"

lemma reduced_Cons: "\<not> char_is IS s \<Longrightarrow> reduced IS (s # ss) = reduced IS ss"
  by (cases ss) auto

lemma reduced_reduce_loop:
  "(case rec of Some r \<Rightarrow> char_is IS r | None \<Rightarrow> True) \<Longrightarrow> reduced IS (reduce_loop IS rec s)"
  by (induction IS rec s rule: reduce_loop.induct) (auto simp: reduced_Cons split: option.splits)

lemma reduce_loop_id:
  "reduced IS ((case rec of Some r \<Rightarrow> [r] | None \<Rightarrow> []) @ s) \<Longrightarrow>
   (case rec of Some r \<Rightarrow> char_is IS r | None \<Rightarrow> True) \<Longrightarrow>
   reduce_loop IS rec s = (case rec of Some r \<Rightarrow> [r] | None \<Rightarrow> []) @ s"
  by (induction IS rec s rule: reduce_loop.induct) (auto simp: reduced_Cons split: option.splits)

lemma string_reduce_id: "reduced IS s \<Longrightarrow> string_reduce IS s = s"
  using reduce_loop_id [of IS None s] by (simp add: string_reduce_def)

lemma filter_reduce_loop:
  "(case rec of Some r \<Rightarrow> char_is IS r | None \<Rightarrow> True) \<Longrightarrow>
   filter (\<lambda>c. \<not> char_is IS c) (reduce_loop IS rec s) = filter (\<lambda>c. \<not> char_is IS c) s"
  by (induction IS rec s rule: reduce_loop.induct) (auto split: option.splits)

subsection \<open>Properties\<close>

text \<open>\<open>__string_reduce\<close> keeps every non-separator in order, leaves no two adjacent separators and
  none at the end, and does nothing on its own output.\<close>

theorem string_reduce_correct:
  "filter (\<lambda>c. \<not> char_is IS c) (string_reduce IS s) = filter (\<lambda>c. \<not> char_is IS c) s
   \<and> reduced IS (string_reduce IS s) \<and> string_reduce IS (string_reduce IS s) = string_reduce IS s"
  using reduced_reduce_loop [where rec = None] filter_reduce_loop [where rec = None]
  by (simp add: string_reduce_id string_reduce_def [symmetric])

text \<open>\<open>os_strlcpy\<close> with a size that fits the destination stores the longest prefix of the source
  that leaves room for the terminator, never writes outside the destination and leaves the
  bytes after the terminator alone.\<close>

theorem os_strlcpy_bounded:
  assumes "0 < sz" and "sz \<le> length dst"
  shows "os_strlcpy dst src sz = (min (length src) (sz - 1),
           take (sz - 1) src @ 0 # drop (Suc (min (length src) (sz - 1))) dst)
         \<and> length (snd (os_strlcpy dst src sz)) = length dst"
  using assms by (auto simp: os_strlcpy_def strlcpy_loop_take min_def Let_def)

theorem os_strlcpy_bounded_witness:
  "length (snd (os_strlcpy [9, 9, 9, 9] [1, 2, 3, 4, 5] 3)) = length [9, 9, 9, 9 :: u8]"
  by (rule os_strlcpy_bounded [THEN conjunct2]) simp_all

text \<open>\<open>__string_strim\<close> moves the kept bytes to the front but stores no terminator, so whenever it
  drops a byte the content is longer than the kept part: the old tail stays visible.\<close>

theorem string_strim_keeps_tail:
  assumes "\<exists>c \<in> set s. char_is IS c"
  shows "string_strim IS s \<noteq> filter (\<lambda>c. \<not> char_is IS c) s \<and> length (string_strim IS s) = length s"
proof -
  have "length (filter (\<lambda>c. \<not> char_is IS c) s) < length s"
    using assms by (auto intro: length_filter_less)
  moreover have "length (string_strim IS s) = length s"
    by (simp add: string_strim_def strim_loop_filter Let_def)
  ultimately show ?thesis by auto
qed

theorem string_strim_keeps_tail_witness:
  "string_strim None [97, 32, 98] \<noteq> filter (\<lambda>c. \<not> char_is None c) [97, 32, 98]
     \<and> length (string_strim None [97, 32, 98]) = length [97, 32, 98 :: u8]"
  by (rule string_strim_keeps_tail) (simp add: char_is_def blanks_def)

end
