(* ===== verification/Os_Crc32.thy ===== *)
theory Os_Crc32
  imports Os_Base
begin

text \<open>
  The table-driven CRC-32 of \<open>utils/crc32.h\<close>, which guards the flash partitions of \<open>partool\<close>: the
  table and the loop as written, a bit-serial reference definition, the proof that the table
  is the reference's table and the loop its byte-wise evaluation, and the detection of errors
  inside any window of four bytes.
\<close>

subsection \<open>The code\<close>

definition crc_table :: "u32 list" where
  "crc_table =
    [0x00000000, 0x77073096, 0xEE0E612C, 0x990951BA, 0x076DC419, 0x706AF48F, 0xE963A535, 0x9E6495A3,
     0x0EDB8832, 0x79DCB8A4, 0xE0D5E91E, 0x97D2D988, 0x09B64C2B, 0x7EB17CBD, 0xE7B82D07, 0x90BF1D91,
     0x1DB71064, 0x6AB020F2, 0xF3B97148, 0x84BE41DE, 0x1ADAD47D, 0x6DDDE4EB, 0xF4D4B551, 0x83D385C7,
     0x136C9856, 0x646BA8C0, 0xFD62F97A, 0x8A65C9EC, 0x14015C4F, 0x63066CD9, 0xFA0F3D63, 0x8D080DF5,
     0x3B6E20C8, 0x4C69105E, 0xD56041E4, 0xA2677172, 0x3C03E4D1, 0x4B04D447, 0xD20D85FD, 0xA50AB56B,
     0x35B5A8FA, 0x42B2986C, 0xDBBBC9D6, 0xACBCF940, 0x32D86CE3, 0x45DF5C75, 0xDCD60DCF, 0xABD13D59,
     0x26D930AC, 0x51DE003A, 0xC8D75180, 0xBFD06116, 0x21B4F4B5, 0x56B3C423, 0xCFBA9599, 0xB8BDA50F,
     0x2802B89E, 0x5F058808, 0xC60CD9B2, 0xB10BE924, 0x2F6F7C87, 0x58684C11, 0xC1611DAB, 0xB6662D3D,
     0x76DC4190, 0x01DB7106, 0x98D220BC, 0xEFD5102A, 0x71B18589, 0x06B6B51F, 0x9FBFE4A5, 0xE8B8D433,
     0x7807C9A2, 0x0F00F934, 0x9609A88E, 0xE10E9818, 0x7F6A0DBB, 0x086D3D2D, 0x91646C97, 0xE6635C01,
     0x6B6B51F4, 0x1C6C6162, 0x856530D8, 0xF262004E, 0x6C0695ED, 0x1B01A57B, 0x8208F4C1, 0xF50FC457,
     0x65B0D9C6, 0x12B7E950, 0x8BBEB8EA, 0xFCB9887C, 0x62DD1DDF, 0x15DA2D49, 0x8CD37CF3, 0xFBD44C65,
     0x4DB26158, 0x3AB551CE, 0xA3BC0074, 0xD4BB30E2, 0x4ADFA541, 0x3DD895D7, 0xA4D1C46D, 0xD3D6F4FB,
     0x4369E96A, 0x346ED9FC, 0xAD678846, 0xDA60B8D0, 0x44042D73, 0x33031DE5, 0xAA0A4C5F, 0xDD0D7CC9,
     0x5005713C, 0x270241AA, 0xBE0B1010, 0xC90C2086, 0x5768B525, 0x206F85B3, 0xB966D409, 0xCE61E49F,
     0x5EDEF90E, 0x29D9C998, 0xB0D09822, 0xC7D7A8B4, 0x59B33D17, 0x2EB40D81, 0xB7BD5C3B, 0xC0BA6CAD,
     0xEDB88320, 0x9ABFB3B6, 0x03B6E20C, 0x74B1D29A, 0xEAD54739, 0x9DD277AF, 0x04DB2615, 0x73DC1683,
     0xE3630B12, 0x94643B84, 0x0D6D6A3E, 0x7A6A5AA8, 0xE40ECF0B, 0x9309FF9D, 0x0A00AE27, 0x7D079EB1,
     0xF00F9344, 0x8708A3D2, 0x1E01F268, 0x6906C2FE, 0xF762575D, 0x806567CB, 0x196C3671, 0x6E6B06E7,
     0xFED41B76, 0x89D32BE0, 0x10DA7A5A, 0x67DD4ACC, 0xF9B9DF6F, 0x8EBEEFF9, 0x17B7BE43, 0x60B08ED5,
     0xD6D6A3E8, 0xA1D1937E, 0x38D8C2C4, 0x4FDFF252, 0xD1BB67F1, 0xA6BC5767, 0x3FB506DD, 0x48B2364B,
     0xD80D2BDA, 0xAF0A1B4C, 0x36034AF6, 0x41047A60, 0xDF60EFC3, 0xA867DF55, 0x316E8EEF, 0x4669BE79,
     0xCB61B38C, 0xBC66831A, 0x256FD2A0, 0x5268E236, 0xCC0C7795, 0xBB0B4703, 0x220216B9, 0x5505262F,
     0xC5BA3BBE, 0xB2BD0B28, 0x2BB45A92, 0x5CB36A04, 0xC2D7FFA7, 0xB5D0CF31, 0x2CD99E8B, 0x5BDEAE1D,
     0x9B64C2B0, 0xEC63F226, 0x756AA39C, 0x026D930A, 0x9C0906A9, 0xEB0E363F, 0x72076785, 0x05005713,
     0x95BF4A82, 0xE2B87A14, 0x7BB12BAE, 0x0CB61B38, 0x92D28E9B, 0xE5D5BE0D, 0x7CDCEFB7, 0x0BDBDF21,
     0x86D3D2D4, 0xF1D4E242, 0x68DDB3F8, 0x1FDA836E, 0x81BE16CD, 0xF6B9265B, 0x6FB077E1, 0x18B74777,
     0x88085AE6, 0xFF0F6A70, 0x66063BCA, 0x11010B5C, 0x8F659EFF, 0xF862AE69, 0x616BFFD3, 0x166CCF45,
     0xA00AE278, 0xD70DD2EE, 0x4E048354, 0x3903B3C2, 0xA7672661, 0xD06016F7, 0x4969474D, 0x3E6E77DB,
     0xAED16A4A, 0xD9D65ADC, 0x40DF0B66, 0x37D83BF0, 0xA9BCAE53, 0xDEBB9EC5, 0x47B2CF7F, 0x30B5FFE9,
     0xBDBDF21C, 0xCABAC28A, 0x53B39330, 0x24B4A3A6, 0xBAD03605, 0xCDD70693, 0x54DE5729, 0x23D967BF,
     0xB3667A2E, 0xC4614AB8, 0x5D681B02, 0x2A6F2B94, 0xB40BBE37, 0xC30C8EA1, 0x5A05DF1B, 0x2D02EF8D]"

text \<open>One round of the loop: \<open>crc = (crc >> 8) ^ table[(crc ^ B[i]) & 0xFF]\<close>.\<close>

definition crc32_step :: "u32 \<Rightarrow> u8 \<Rightarrow> u32" where
  "crc32_step crc b = drop_bit 8 crc XOR crc_table ! unat ((crc XOR ucast b) AND 0xFF)"

definition crc32_from :: "u32 \<Rightarrow> u8 list \<Rightarrow> u32" where
  "crc32_from crc_in buf = fold (\<lambda>b crc. crc32_step crc b) buf (crc_in XOR 0xFFFFFFFF) XOR 0xFFFFFFFF"

definition os_crc32 :: "u8 list \<Rightarrow> u32" where
  "os_crc32 buf = crc32_from 0 buf"

definition CRC32_STRINGLEN :: nat where
  "CRC32_STRINGLEN = 8"

subsection \<open>The bit-serial reference\<close>

text \<open>Reflected polynomial \<open>0xEDB88320\<close>: shift right, and subtract the polynomial when a one falls out.\<close>

definition crc_bit :: "u32 \<Rightarrow> u32" where
  "crc_bit c = drop_bit 1 c XOR (if c AND 1 = 1 then 0xEDB88320 else 0)"

definition crc_ref_byte :: "u32 \<Rightarrow> u8 \<Rightarrow> u32" where
  "crc_ref_byte c b = (crc_bit ^^ 8) (c XOR ucast b)"

definition crc_ref :: "u8 list \<Rightarrow> u32" where
  "crc_ref buf = fold (\<lambda>b c. crc_ref_byte c b) buf 0xFFFFFFFF XOR 0xFFFFFFFF"

subsection \<open>Bit steps are linear and bijective\<close>

lemma crc_bit_odd: "crc_bit c = drop_bit 1 c XOR (if odd c then 0xEDB88320 else 0)"
  by (simp add: crc_bit_def and_one_eq odd_iff_mod_2_eq_one)

lemma crc_bit_xor: "crc_bit (a XOR b) = crc_bit a XOR crc_bit b"
  by (rule bit_word_eqI) (auto simp: crc_bit_odd bit_simps even_xor_iff)

lemma crc_bits_xor: "(crc_bit ^^ n) (a XOR b) = (crc_bit ^^ n) a XOR (crc_bit ^^ n) b"
  by (induction n) (simp_all add: crc_bit_xor)

lemma crc_bit_zero_iff: "crc_bit c = 0 \<longleftrightarrow> c = 0"
proof
  assume z: "crc_bit c = 0"
  have "bit (crc_bit c) 31 \<longleftrightarrow> odd c"
    by (auto simp: crc_bit_odd bit_simps dest: bit_imp_le_length)
  then have "even c" using z by simp
  then have "drop_bit 1 c = 0" using z by (simp add: crc_bit_odd)
  then have "bit c (Suc n) \<longleftrightarrow> False" for n
    using bit_drop_bit_eq [of 1 c] by (auto simp: fun_eq_iff)
  moreover have "bit c 0 \<longleftrightarrow> False" using \<open>even c\<close> by (simp add: bit_0)
  ultimately show "c = 0"
    by (metis bit_eqI bit_0_eq bot_apply bot_bool_def not0_implies_Suc)
qed (simp add: crc_bit_odd)

lemma crc_bits_zero_iff: "(crc_bit ^^ n) c = 0 \<longleftrightarrow> c = 0"
  by (induction n) (simp_all add: crc_bit_zero_iff)

lemma crc_bits_low_zero: "take_bit n c = 0 \<Longrightarrow> (crc_bit ^^ n) c = drop_bit n c"
proof (induction n arbitrary: c)
  case (Suc n)
  have "even c"
    using Suc.prems by (metis bit_0 bit_0_eq bit_take_bit_iff bot_apply bot_bool_def zero_less_Suc)
  then have "crc_bit c = drop_bit 1 c" by (simp add: crc_bit_odd)
  moreover have "take_bit n (drop_bit 1 c) = 0"
    using Suc.prems by (simp add: take_bit_drop_bit)
  ultimately show ?case
    using Suc.IH [of "drop_bit 1 c"] by (simp add: funpow_swap1 del: funpow.simps(2)) (simp add: funpow_swap1)
qed simp

lemma crc_bits_push: "8 * n + 8 \<le> 32 \<Longrightarrow> (crc_bit ^^ (8 * n)) (push_bit (8 * n) (ucast (b :: u8))) = ucast b"
proof -
  assume n: "8 * n + 8 \<le> 32"
  have "take_bit (8 * n) (push_bit (8 * n) (ucast b :: u32)) = 0"
    by (rule bit_word_eqI) (auto simp: bit_simps)
  then have "(crc_bit ^^ (8 * n)) (push_bit (8 * n) (ucast b)) = drop_bit (8 * n) (push_bit (8 * n) (ucast b :: u32))"
    by (rule crc_bits_low_zero)
  also have "\<dots> = ucast b"
    using n by (intro bit_word_eqI) (auto simp: bit_simps dest: bit_imp_le_length)
  finally show ?thesis .
qed

subsection \<open>The table and the loop compute the reference\<close>

text \<open>
  The table is built by doubling: entry \<open>2\<^sup>k + i\<close> is entry \<open>2\<^sup>k\<close> xor entry \<open>i\<close>, by linearity. The
  literal table is checked against eight doublings of \<open>[0]\<close>.
\<close>

definition crc_entry :: "nat \<Rightarrow> u32" where
  "crc_entry i = (crc_bit ^^ 8) (word_of_nat i)"

definition crc_double :: "u32 \<Rightarrow> u32 list \<Rightarrow> u32 list" where
  "crc_double e xs = xs @ map (\<lambda>x. e XOR x) xs"

lemma word_of_nat_add_xor: "i < 2 ^ k \<Longrightarrow> (word_of_nat (2 ^ k + i) :: u32) = word_of_nat (2 ^ k) XOR word_of_nat i"
proof -
  assume "i < 2 ^ k"
  then have "take_bit k i = i" by (simp add: take_bit_nat_eq_self)
  then have "\<not> bit i k" by (metis bit_take_bit_iff less_irrefl)
  then have "(2 ^ k :: nat) AND i = 0"
    by (intro bit_eqI) (auto simp: bit_and_iff bit_exp_iff)
  then have "2 ^ k + i = 2 ^ k XOR i" by (rule disjunctive_add_eq_xor)
  then show ?thesis by (simp only: of_nat_xor_eq)
qed

lemma crc_entry_double:
  "map crc_entry [0..<2 ^ Suc k] = crc_double (crc_entry (2 ^ k)) (map crc_entry [0..<2 ^ k])"
proof -
  have "[0..<2 ^ Suc k] = [0..<2 ^ k] @ map (\<lambda>i. 2 ^ k + i) [0..<2 ^ k]"
    using upt_add_eq_append [of 0 "2 ^ k" "2 ^ k"] map_add_upt [of "2 ^ k" "2 ^ k"] by (simp add: mult_2 add.commute)
  moreover have "crc_entry (2 ^ k + i) = crc_entry (2 ^ k) XOR crc_entry i" if "i < 2 ^ k" for i
    using that by (simp only: crc_entry_def word_of_nat_add_xor crc_bits_xor)
  ultimately show ?thesis by (simp add: crc_double_def)
qed

lemma funpow_8: "(f ^^ 8) x = f (f (f (f (f (f (f (f x)))))))"
  by (simp add: eval_nat_numeral)

lemma crc_entry_0: "crc_entry 0 = 0"
  by (simp add: crc_entry_def funpow_8 crc_bit_def)

lemma crc_entries:
  "crc_entry 1 = 0x77073096" "crc_entry 2 = 0xEE0E612C" "crc_entry 4 = 0x076DC419" "crc_entry 8 = 0x0EDB8832"
  "crc_entry 16 = 0x1DB71064" "crc_entry 32 = 0x3B6E20C8" "crc_entry 64 = 0x76DC4190" "crc_entry 128 = 0xEDB88320"
  by (simp_all add: crc_entry_def funpow_8 crc_bit_def)

lemma crc_table_doubled:
  "crc_table = crc_double 0xEDB88320 (crc_double 0x76DC4190 (crc_double 0x3B6E20C8 (crc_double 0x1DB71064
     (crc_double 0x0EDB8832 (crc_double 0x076DC419 (crc_double 0xEE0E612C (crc_double 0x77073096 [0])))))))"
  unfolding crc_table_def crc_double_def append.simps list.map by simp

lemma crc_pow_entries:
  "crc_entry (2 ^ 0) = 0x77073096" "crc_entry (2 ^ Suc 0) = 0xEE0E612C"
  "crc_entry (2 ^ Suc (Suc 0)) = 0x076DC419" "crc_entry (2 ^ Suc (Suc (Suc 0))) = 0x0EDB8832"
  "crc_entry (2 ^ Suc (Suc (Suc (Suc 0)))) = 0x1DB71064"
  "crc_entry (2 ^ Suc (Suc (Suc (Suc (Suc 0))))) = 0x3B6E20C8"
  "crc_entry (2 ^ Suc (Suc (Suc (Suc (Suc (Suc 0)))))) = 0x76DC4190"
  "crc_entry (2 ^ Suc (Suc (Suc (Suc (Suc (Suc (Suc 0))))))) = 0xEDB88320"
  using crc_entries by simp_all

lemma crc_table_entries: "crc_table = map crc_entry [0..<256]"
proof -
  have 0: "map crc_entry [0..<2 ^ 0] = [0]" by (simp add: crc_entry_0)
  have "crc_table = map crc_entry [0..<2 ^ Suc (Suc (Suc (Suc (Suc (Suc (Suc (Suc 0)))))))]"
    by (simp only: crc_entry_double crc_pow_entries 0 crc_table_doubled)
  moreover have "(2 :: nat) ^ Suc (Suc (Suc (Suc (Suc (Suc (Suc (Suc 0))))))) = 256" by simp
  ultimately show ?thesis by (simp only:)
qed

lemma crc_table_nth: "i < 256 \<Longrightarrow> crc_table ! i = crc_entry i"
  by (simp only: crc_table_entries nth_map length_upt nth_upt) simp

lemma crc32_step_ref: "crc32_step crc b = crc_ref_byte crc b"
proof -
  let ?x = "crc XOR ucast b" and ?h = "(crc XOR ucast b) AND NOT (mask 8)"
  have m: "(0xFF :: u32) = mask 8" by (simp add: mask_eq_exp_minus_1)
  have split: "?x = (?x AND 0xFF) XOR ?h"
    unfolding m by (rule bit_word_eqI) (auto simp: bit_simps)
  have "take_bit 8 ?h = 0"
    by (rule bit_word_eqI) (auto simp: bit_simps)
  then have hi: "(crc_bit ^^ 8) ?h = drop_bit 8 ?h"
    by (rule crc_bits_low_zero)
  have hi': "drop_bit 8 ?h = drop_bit 8 crc"
    by (rule bit_word_eqI) (auto simp: bit_drop_bit_eq bit_and_iff bit_not_iff bit_mask_iff bit_xor_iff
        bit_ucast_iff dest: bit_imp_le_length simp del: drop_bit_and drop_bit_xor)
  have "unat (?x AND 0xFF) < 256" unfolding unat_and_255 by simp
  then have lo: "crc_table ! unat (?x AND 0xFF) = (crc_bit ^^ 8) (?x AND 0xFF)"
    by (simp only: crc_table_nth crc_entry_def) simp
  have "(crc_bit ^^ 8) ?x = (crc_bit ^^ 8) (?x AND 0xFF) XOR (crc_bit ^^ 8) ?h"
    by (subst split) (rule crc_bits_xor)
  then show ?thesis
    by (simp only: crc32_step_def crc_ref_byte_def lo hi hi' xor.commute)
qed

subsection \<open>Errors in a window of four bytes\<close>

definition crc_run :: "u32 \<Rightarrow> u8 list \<Rightarrow> u32" where
  "crc_run c buf = fold (\<lambda>b c. crc_ref_byte c b) buf c"

fun le_word :: "u8 list \<Rightarrow> u32" where
  "le_word [] = 0"
| "le_word (b # bs) = ucast b XOR push_bit 8 (le_word bs)"

lemma crc_run_xor:
  "length ws = length vs \<Longrightarrow> crc_run (c XOR d) (map2 (XOR) ws vs) = crc_run c ws XOR crc_run d vs"
proof (induction ws vs arbitrary: c d rule: list_induct2)
  case (Cons w ws v vs)
  have "(c XOR d) XOR ucast (w XOR v) = (c XOR ucast w) XOR (d XOR ucast v)"
    by (rule bit_word_eqI) (auto simp: bit_simps)
  then have "crc_ref_byte (c XOR d) (w XOR v) = crc_ref_byte c w XOR crc_ref_byte d v"
    by (simp only: crc_ref_byte_def crc_bits_xor)
  then show ?case
    using Cons.IH [of "crc_ref_byte c w" "crc_ref_byte d v"] by (simp add: crc_run_def)
qed (simp add: crc_run_def)

lemma xor_right_cancel: "(a XOR w = b XOR w) \<longleftrightarrow> a = (b :: 'a::len word)"
proof
  assume "a XOR w = b XOR w"
  then have "(a XOR w) XOR w = (b XOR w) XOR w" by simp
  then show "a = b" by (simp only: xor.assoc xor_self_eq xor.right_neutral)
qed simp

lemma xor_zero_iff: "a XOR b = 0 \<longleftrightarrow> a = (b :: 'a::len word)"
  using xor_right_cancel [of a b b] by simp

lemma crc_run_inj: "crc_run c ws = crc_run d ws \<Longrightarrow> c = d"
proof (induction ws arbitrary: c d)
  case (Cons w ws)
  then have "crc_ref_byte c w = crc_ref_byte d w" by (simp add: crc_run_def)
  then have "(crc_bit ^^ 8) ((c XOR ucast w) XOR (d XOR ucast w)) = 0"
    by (simp only: crc_ref_byte_def crc_bits_xor xor_self_eq)
  then show ?case by (simp only: crc_bits_zero_iff xor_zero_iff xor_right_cancel)
qed (simp add: crc_run_def)

lemma bit_le_word: "bit (le_word ws) n \<Longrightarrow> n < 8 * length ws"
proof (induction ws arbitrary: n)
  case (Cons b bs)
  then show ?case
    by (cases "n < 8") (auto simp: bit_simps dest: bit_imp_le_length, fastforce)
qed simp

lemma crc_8_push: "take_bit 24 y = y \<Longrightarrow> (crc_bit ^^ 8) (push_bit 8 y) = y"
proof -
  assume y: "take_bit 24 y = y"
  have "take_bit 8 (push_bit 8 y) = 0" by (rule bit_word_eqI) (auto simp: bit_simps)
  then have "(crc_bit ^^ 8) (push_bit 8 y) = drop_bit 8 (push_bit 8 y)" by (rule crc_bits_low_zero)
  also have "\<dots> = take_bit 24 y" by (rule bit_word_eqI) (auto simp: bit_simps)
  finally show ?thesis by (simp only: y)
qed

lemma take_24_le_word: "length ws \<le> 3 \<Longrightarrow> take_bit 24 (le_word ws) = le_word ws"
  by (rule bit_word_eqI) (auto simp: bit_simps dest: bit_le_word)

lemma crc_run_le_word:
  "length ws \<le> 4 \<Longrightarrow> crc_run c ws = (crc_bit ^^ (8 * length ws)) (c XOR le_word ws)"
proof (induction ws arbitrary: c)
  case (Cons b bs)
  have "crc_run c (b # bs) = (crc_bit ^^ (8 * length bs)) ((crc_bit ^^ 8) (c XOR ucast b) XOR le_word bs)"
    using Cons.IH [of "crc_ref_byte c b"] Cons.prems by (simp add: crc_run_def crc_ref_byte_def)
  also have "le_word bs = (crc_bit ^^ 8) (push_bit 8 (le_word bs))"
    using Cons.prems by (simp only: crc_8_push take_24_le_word list.size)
  finally have "crc_run c (b # bs) = (crc_bit ^^ (8 * length bs)) ((crc_bit ^^ 8) ((c XOR ucast b) XOR push_bit 8 (le_word bs)))"
    by (simp only: crc_bits_xor)
  also have "\<dots> = (crc_bit ^^ (8 * length (b # bs))) (c XOR le_word (b # bs))"
    by (simp only: funpow_add [THEN fun_cong, unfolded comp_apply, symmetric] le_word.simps xor.assoc list.size mult_Suc_right add.commute)
      (simp add: add.commute)
  finally show ?case .
qed (simp add: crc_run_def)

lemma le_word_zero: "length ws \<le> 4 \<Longrightarrow> le_word ws = 0 \<Longrightarrow> set ws \<subseteq> {0}"
proof (induction ws)
  case (Cons b bs)
  have z: "bit (ucast b XOR push_bit 8 (le_word bs)) n = False" for n
    using Cons.prems(2) by simp
  have "\<not> bit b n" if "n < 8" for n
    using z [of n] that by (simp only: bit_xor_iff bit_push_bit_iff bit_ucast_iff) auto
  then have "b = 0" by (intro bit_word_eqI) simp
  then have "push_bit 8 (le_word bs) = 0" using Cons.prems(2) by simp
  then have "(crc_bit ^^ 8) (push_bit 8 (le_word bs)) = 0" by (simp add: crc_bits_zero_iff)
  then have "le_word bs = 0"
    using Cons.prems(1) by (simp only: crc_8_push take_24_le_word list.size)
  then show ?case using Cons \<open>b = 0\<close> by simp
qed simp

lemma crc_run_append: "crc_run c (xs @ ys) = crc_run (crc_run c xs) ys"
  by (simp add: crc_run_def)

lemma crc32_from_run: "crc32_from c buf = crc_run (c XOR 0xFFFFFFFF) buf XOR 0xFFFFFFFF"
  by (simp add: crc32_from_def crc_run_def crc32_step_ref)

lemma crc_run_window_inj:
  assumes "length ws = length vs" and "length ws \<le> 4" and "crc_run c ws = crc_run c vs"
  shows "ws = vs"
proof -
  have "crc_run 0 (map2 (XOR) ws vs) = 0"
    using crc_run_xor [OF assms(1), of c c] assms(3) by simp
  then have "le_word (map2 (XOR) ws vs) = 0"
    using assms by (simp add: crc_run_le_word crc_bits_zero_iff)
  then have "set (map2 (XOR) ws vs) \<subseteq> {0}"
    using assms by (intro le_word_zero) simp_all
  with assms(1) show ?thesis
  proof (induction ws vs rule: list_induct2)
    case (Cons w ws v vs)
    then have "w = v" by (simp add: xor_zero_iff)
    with Cons show ?case by simp
  qed simp
qed

lemma crc_burst:
  assumes "length ws = length vs" and "length ws \<le> 4" and "ws \<noteq> vs"
  shows "os_crc32 (pre @ ws @ post) \<noteq> os_crc32 (pre @ vs @ post)"
proof
  assume "os_crc32 (pre @ ws @ post) = os_crc32 (pre @ vs @ post)"
  then have "crc_run (crc_run 0xFFFFFFFF pre) ws = crc_run (crc_run 0xFFFFFFFF pre) vs"
    by (auto simp: os_crc32_def crc32_from_run xor_right_cancel crc_run_append dest: crc_run_inj)
  with assms show False by (blast dest: crc_run_window_inj)
qed

subsection \<open>Properties\<close>

text \<open>C29: the table-driven loop of \<open>os_crc32\<close> computes the bit-serial CRC-32 with the reflected
  polynomial \<open>0xEDB88320\<close>, for every buffer.\<close>

theorem os_crc32_is_crc32: "os_crc32 buf = crc_ref buf"
  by (simp add: os_crc32_def crc32_from_run crc_run_def crc_ref_def)

text \<open>Feeding a buffer in two parts, with the first result as \<open>crc_in\<close> of the second call, gives
  the checksum of the whole.\<close>

theorem crc32_from_append: "crc32_from (crc32_from c xs) ys = crc32_from c (xs @ ys)"
  by (simp add: crc32_from_run crc_run_append xor.assoc)

text \<open>Two buffers of the same length that differ only inside one window of at most four bytes
  have different checksums: every burst error of up to 32 bits is detected.\<close>

theorem os_crc32_detects_burst:
  assumes "length ws = length vs" and "length ws \<le> 4" and "ws \<noteq> vs"
  shows "os_crc32 (pre @ ws @ post) \<noteq> os_crc32 (pre @ vs @ post)"
  using assms by (rule crc_burst)

theorem os_crc32_detects_burst_witness:
  "os_crc32 ([0x31] @ [0x32, 0x33] @ [0x0a]) \<noteq> os_crc32 ([0x31] @ [0x32, 0x34] @ [0x0a])"
  by (rule os_crc32_detects_burst) simp_all

end
