(* ===== verification/Os_Channel.thy ===== *)
theory Os_Channel
  imports Os_Base
begin

text \<open>
  The bounded channel of \<open>utils/channel.h\<close>: a ring of \<open>limit\<close> message slots with a reader and a
  writer index and a count. The locale \<open>fifo_impl\<close> is the contract of a bounded first-in
  first-out queue with error results; the channel is an interpretation of it, and every run of
  reads and writes is shown to be the run of the plain list queue.

  A slot is the list of its \<open>size\<close> bytes. The caller's memory is a function from addresses to
  bytes, so that \<open>CHANNEL_POINTER\<close> channels store the address they are given and the other types
  store the bytes found there. The \<open>int\<close> fields never leave the range \<open>-1 .. limit\<close>, so they are
  plain integers. The size of the block is computed in 32 bits, as in the code: \<open>ch_msg\<close> has the slots that lie
  inside the block, and a read or write of a slot outside it is \<open>Abort\<close>, like a failed assertion.
\<close>

subsection \<open>The code\<close>

datatype channel_type = CHANNEL_BUFFER | CHANNEL_U8 | CHANNEL_U16 | CHANNEL_U32 | CHANNEL_U64
  | CHANNEL_POINTER | CHANNEL_END

record channel =
  ch_size :: int
  ch_count :: int
  ch_limit :: int
  ch_type :: channel_type
  ch_reader :: int
  ch_writer :: int
  ch_msg :: "u8 list list"

definition channel_empty :: "channel \<Rightarrow> bool" where
  "channel_empty ch \<longleftrightarrow> 0 = ch_count ch"

definition channel_full :: "channel \<Rightarrow> bool" where
  "channel_full ch \<longleftrightarrow> ch_limit ch = ch_count ch"

text \<open>The recursion ends only for a positive limit; \<open>None\<close> is a call that never returns.\<close>

partial_function (option) channel_align :: "channel \<Rightarrow> int \<Rightarrow> int option" where
  "channel_align ch number =
     (if number < 0 then channel_align ch (number + ch_limit ch)
      else if number < ch_limit ch then Some number
      else channel_align ch (number - ch_limit ch))"

declare channel_align.simps [code]

definition channel_aligned :: "channel \<Rightarrow> int \<Rightarrow> (int \<Rightarrow> 'a outcome) \<Rightarrow> 'a outcome" where
  "channel_aligned ch number k = (case channel_align ch number of None \<Rightarrow> Hang | Some i \<Rightarrow> k i)"

text \<open>\<open>alloc\<close> tells whether the allocation succeeds; the buffer comes zeroed. The header has seven words; a block that is
  smaller than it cannot hold the fields.\<close>

definition channel_type_ok :: "int \<Rightarrow> channel_type \<Rightarrow> bool" where
  "channel_type_ok sz type = (case type of
      CHANNEL_BUFFER \<Rightarrow> True | CHANNEL_POINTER \<Rightarrow> sz = 4 | CHANNEL_U8 \<Rightarrow> sz = 1 | CHANNEL_U16 \<Rightarrow> sz = 2
    | CHANNEL_U32 \<Rightarrow> sz = 4 | CHANNEL_U64 \<Rightarrow> sz = 8 | CHANNEL_END \<Rightarrow> False)"

definition ch_block_size :: "int \<Rightarrow> int \<Rightarrow> nat" where
  "ch_block_size sz limit = unat (28 + word_of_int limit * word_of_int sz :: u32)"

definition os_ch_new :: "bool \<Rightarrow> int \<Rightarrow> int \<Rightarrow> channel_type \<Rightarrow> channel option outcome" where
  "os_ch_new alloc sz limit type =
     (if sz \<le> 0 then os_assert_value None
      else if limit \<le> 0 then os_assert_value None
      else if \<not> channel_type_ok sz type then os_assert_value None
      else if \<not> alloc then Ret None
      else if ch_block_size sz limit < 28 then Abort
      else Ret (Some \<lparr>ch_size = sz, ch_count = 0, ch_limit = limit, ch_type = type, ch_reader = 0, ch_writer = 0,
             ch_msg = replicate ((ch_block_size sz limit - 28) div nat sz) (replicate (nat sz) 0)\<rparr>))"

definition be32 :: "u32 \<Rightarrow> u8 list" where
  "be32 p = [ucast (drop_bit 24 p), ucast (drop_bit 16 p), ucast (drop_bit 8 p), ucast p]"

text \<open>
  \<open>os_ch_read\<close>: \<open>msg_null\<close> is the test on the result pointer; the second component of the result is
  what was stored through it.
\<close>

definition os_ch_read :: "channel option \<Rightarrow> bool \<Rightarrow> (int \<times> u8 list option \<times> channel) outcome" where
  "os_ch_read cho msg_null = (case cho of
      None \<Rightarrow> Abort
    | Some ch \<Rightarrow>
       if msg_null then Abort
       else if channel_empty ch then Ret (err EKEYBAD, None, ch)
       else if length (ch_msg ch) \<le> nat (ch_reader ch) then Abort
       else
         let m = ch_msg ch ! nat (ch_reader ch);
             fin = (\<lambda>ch. channel_aligned ch (ch_reader ch + 1) (\<lambda>r.
               let ch = ch\<lparr>ch_reader := r\<rparr> in
               if channel_full ch
               then channel_aligned ch (ch_reader ch - 1) (\<lambda>w.
                      Ret (0, Some m, ch\<lparr>ch_writer := w, ch_count := ch_count ch - 1\<rparr>))
               else Ret (0, Some m, ch\<lparr>ch_count := ch_count ch - 1\<rparr>)))
         in (case ch_type ch of
              CHANNEL_POINTER \<Rightarrow>
                (let ch = ch\<lparr>ch_msg := (ch_msg ch)[nat (ch_reader ch) := be32 0]\<rparr>
                 in if m = be32 0 then Abort else fin ch)
            | CHANNEL_END \<Rightarrow> Ret (err EINVAL9, None, ch)
            | _ \<Rightarrow> fin ch))"

definition mem_bytes :: "(u32 \<Rightarrow> u8) \<Rightarrow> u32 \<Rightarrow> nat \<Rightarrow> u8 list" where
  "mem_bytes mem p n = map (\<lambda>i. mem (p + of_nat i)) [0..<n]"

definition ch_payload :: "channel \<Rightarrow> (u32 \<Rightarrow> u8) \<times> u32 \<Rightarrow> u8 list" where
  "ch_payload ch i = (case ch_type ch of
      CHANNEL_POINTER \<Rightarrow> be32 (snd i)
    | _ \<Rightarrow> mem_bytes (fst i) (snd i) (nat (ch_size ch)))"

definition os_ch_write :: "channel option \<Rightarrow> (u32 \<Rightarrow> u8) \<times> u32 \<Rightarrow> (int \<times> channel) outcome" where
  "os_ch_write cho i = (case cho of
      None \<Rightarrow> Abort
    | Some ch \<Rightarrow>
       if snd i = 0 then Abort
       else if channel_full ch then Ret (err EKEYBAD, ch)
       else if ch_type ch = CHANNEL_END then Ret (err EINVAL, ch)
       else if length (ch_msg ch) \<le> nat (ch_writer ch) then Abort
       else
         let ch = ch\<lparr>ch_msg := (ch_msg ch)[nat (ch_writer ch) := ch_payload ch i]\<rparr>
         in channel_aligned ch (ch_writer ch + 1) (\<lambda>w.
              let ch = ch\<lparr>ch_writer := w\<rparr> in
              if channel_empty ch
              then channel_aligned ch (ch_writer ch - 1) (\<lambda>r.
                     Ret (0, ch\<lparr>ch_reader := r, ch_count := ch_count ch + 1\<rparr>))
              else Ret (0, ch\<lparr>ch_count := ch_count ch + 1\<rparr>)))"

definition os_bch_new :: "bool \<Rightarrow> int \<Rightarrow> int \<Rightarrow> channel option outcome" where
  "os_bch_new alloc sz limit = os_ch_new alloc sz limit CHANNEL_BUFFER"

definition os_8ch_new :: "bool \<Rightarrow> int \<Rightarrow> channel option outcome" where
  "os_8ch_new alloc limit = os_ch_new alloc 1 limit CHANNEL_U8"

definition os_16ch_new :: "bool \<Rightarrow> int \<Rightarrow> channel option outcome" where
  "os_16ch_new alloc limit = os_ch_new alloc 2 limit CHANNEL_U16"

definition os_32ch_new :: "bool \<Rightarrow> int \<Rightarrow> channel option outcome" where
  "os_32ch_new alloc limit = os_ch_new alloc 4 limit CHANNEL_U32"

definition os_64ch_new :: "bool \<Rightarrow> int \<Rightarrow> channel option outcome" where
  "os_64ch_new alloc limit = os_ch_new alloc 8 limit CHANNEL_U64"

definition os_pch_new :: "bool \<Rightarrow> int \<Rightarrow> channel option outcome" where
  "os_pch_new alloc limit = os_ch_new alloc 4 limit CHANNEL_POINTER"

subsection \<open>The contract of a bounded queue\<close>

text \<open>A client's sequence of operations, and what the list queue answers to it.\<close>

datatype 'i queue_op = Put 'i | Get

fun fifo_run :: "nat \<Rightarrow> 'a list \<Rightarrow> 'a queue_op list \<Rightarrow> (int \<times> 'a option) list \<times> 'a list" where
  "fifo_run cap q [] = ([], q)"
| "fifo_run cap q (Put x # ops) =
     (if length q < cap then (let (rs, q') = fifo_run cap (q @ [x]) ops in ((0, None) # rs, q'))
      else (let (rs, q') = fifo_run cap q ops in ((err EKEYBAD, None) # rs, q')))"
| "fifo_run cap q (Get # ops) = (case q of
       [] \<Rightarrow> (let (rs, q') = fifo_run cap q ops in ((err EKEYBAD, None) # rs, q'))
     | x # xs \<Rightarrow> (let (rs, q') = fifo_run cap xs ops in ((0, Some x) # rs, q')))"

fun queue_run :: "('s \<Rightarrow> 'i \<Rightarrow> (int \<times> 's) outcome) \<Rightarrow> ('s \<Rightarrow> (int \<times> 'a option \<times> 's) outcome) \<Rightarrow>
    's \<Rightarrow> 'i queue_op list \<Rightarrow> ((int \<times> 'a option) list \<times> 's) outcome" where
  "queue_run wr rd s [] = Ret ([], s)"
| "queue_run wr rd s (Put i # ops) = obind (wr s i) (\<lambda>(e, s).
     obind (queue_run wr rd s ops) (\<lambda>(rs, s). Ret ((e, None) # rs, s)))"
| "queue_run wr rd s (Get # ops) = obind (rd s) (\<lambda>(e, m, s).
     obind (queue_run wr rd s ops) (\<lambda>(rs, s). Ret ((e, m) # rs, s)))"

locale fifo_impl =
  fixes wr :: "'s \<Rightarrow> 'i \<Rightarrow> (int \<times> 's) outcome"
    and rd :: "'s \<Rightarrow> (int \<times> 'a option \<times> 's) outcome"
    and inv :: "'s \<Rightarrow> bool"
    and contents :: "'s \<Rightarrow> 'a list"
    and cap :: "'s \<Rightarrow> nat"
    and elem :: "'s \<Rightarrow> 'i \<Rightarrow> 'a"
    and ok :: "'i \<Rightarrow> bool"
  assumes wr_room: "inv s \<Longrightarrow> ok i \<Longrightarrow> length (contents s) < cap s \<Longrightarrow>
      \<exists>s'. wr s i = Ret (0, s') \<and> inv s' \<and> contents s' = contents s @ [elem s i]
           \<and> cap s' = cap s \<and> elem s' = elem s"
    and wr_full: "inv s \<Longrightarrow> ok i \<Longrightarrow> \<not> length (contents s) < cap s \<Longrightarrow> wr s i = Ret (err EKEYBAD, s)"
    and rd_some: "inv s \<Longrightarrow> contents s = x # xs \<Longrightarrow>
      \<exists>s'. rd s = Ret (0, Some x, s') \<and> inv s' \<and> contents s' = xs \<and> cap s' = cap s \<and> elem s' = elem s"
    and rd_empty: "inv s \<Longrightarrow> contents s = [] \<Longrightarrow> rd s = Ret (err EKEYBAD, None, s)"
begin

definition accepts :: "'i queue_op list \<Rightarrow> bool" where
  "accepts ops \<longleftrightarrow> (\<forall>i. Put i \<in> set ops \<longrightarrow> ok i)"

lemma run_refines:
  assumes "inv s" and "accepts ops"
  shows "\<exists>rs s'. queue_run wr rd s ops = Ret (rs, s') \<and> inv s'
           \<and> fifo_run (cap s) (contents s) (map (map_queue_op (elem s)) ops) = (rs, contents s')"
  using assms
proof (induction ops arbitrary: s)
  case Nil
  then show ?case by simp
next
  case (Cons op ops)
  have acc: "accepts ops"
    using Cons.prems(2) by (simp add: accepts_def)
  show ?case
  proof (cases op)
    case (Put i)
    have i: "ok i"
      using Cons.prems(2) Put by (simp add: accepts_def)
    show ?thesis
    proof (cases "length (contents s) < cap s")
      case True
      obtain s' where s': "wr s i = Ret (0, s')" "inv s'" "contents s' = contents s @ [elem s i]"
        "cap s' = cap s" "elem s' = elem s"
        using wr_room [OF Cons.prems(1) i True] by blast
      show ?thesis
        using Cons.IH [OF s'(2) acc] s' Put True by (auto simp: Let_def)
    next
      case False
      show ?thesis
        using Cons.IH [OF Cons.prems(1) acc] wr_full [OF Cons.prems(1) i False] Put False
        by (auto simp: Let_def)
    qed
  next
    case Get
    show ?thesis
    proof (cases "contents s")
      case Nil
      show ?thesis
        using Cons.IH [OF Cons.prems(1) acc] rd_empty [OF Cons.prems(1) Nil] Get Nil
        by (auto simp: Let_def)
    next
      case (Cons x xs)
      obtain s' where s': "rd s = Ret (0, Some x, s')" "inv s'" "contents s' = xs"
        "cap s' = cap s" "elem s' = elem s"
        using rd_some [OF Cons.prems(1) Cons] by blast
      show ?thesis
        using Cons.IH [OF s'(2) acc] s' Get Cons by (auto simp: Let_def)
    qed
  qed
qed

end

subsection \<open>The channel meets the contract\<close>

lemma channel_align_nonneg:
  "0 < ch_limit ch \<Longrightarrow> 0 \<le> n \<Longrightarrow> channel_align ch n = Some (n mod ch_limit ch)"
proof (induction "nat n" arbitrary: n rule: less_induct)
  case less
  show ?case
  proof (cases "n < ch_limit ch")
    case True
    with less.prems show ?thesis by (subst channel_align.simps) simp
  next
    case False
    then have "channel_align ch (n - ch_limit ch) = Some ((n - ch_limit ch) mod ch_limit ch)"
      using less.prems by (intro less.hyps) auto
    with False less.prems show ?thesis by (subst channel_align.simps) simp
  qed
qed

lemma channel_align_mod: "0 < ch_limit ch \<Longrightarrow> channel_align ch n = Some (n mod ch_limit ch)"
proof (induction "nat (- n)" arbitrary: n rule: less_induct)
  case less
  show ?case
  proof (cases "n < 0")
    case True
    then have "channel_align ch (n + ch_limit ch) = Some ((n + ch_limit ch) mod ch_limit ch)"
      using less.prems by (intro less.hyps) auto
    with True show ?thesis by (subst channel_align.simps) simp
  qed (simp add: channel_align_nonneg less.prems)
qed

lemma channel_aligned_mod [simp]:
  "0 < ch_limit ch \<Longrightarrow> channel_aligned ch n k = k (n mod ch_limit ch)"
  by (simp add: channel_aligned_def channel_align_mod)

lemma channel_empty_upd [simp]:
  "channel_empty (ch\<lparr>ch_msg := m\<rparr>) = channel_empty ch"
  "channel_empty (ch\<lparr>ch_writer := w\<rparr>) = channel_empty ch"
  "channel_full (ch\<lparr>ch_msg := m\<rparr>) = channel_full ch"
  "channel_full (ch\<lparr>ch_reader := w\<rparr>) = channel_full ch"
  by (simp_all add: channel_empty_def channel_full_def)

text \<open>The queue a channel holds: \<open>count\<close> slots from the reader on, around the ring.\<close>

definition ch_slot :: "channel \<Rightarrow> nat \<Rightarrow> nat" where
  "ch_slot ch i = nat ((ch_reader ch + int i) mod ch_limit ch)"

definition ch_contents :: "channel \<Rightarrow> u8 list list" where
  "ch_contents ch = map (\<lambda>i. ch_msg ch ! ch_slot ch i) [0..<nat (ch_count ch)]"

definition ch_cap :: "channel \<Rightarrow> nat" where
  "ch_cap ch = nat (ch_limit ch)"

definition ch_inv :: "channel \<Rightarrow> bool" where
  "ch_inv ch \<longleftrightarrow> 0 < ch_limit ch \<and> channel_type_ok (ch_size ch) (ch_type ch)
     \<and> length (ch_msg ch) = nat (ch_limit ch)
     \<and> 0 \<le> ch_count ch \<and> ch_count ch \<le> ch_limit ch
     \<and> 0 \<le> ch_reader ch \<and> ch_reader ch < ch_limit ch
     \<and> ch_writer ch = (ch_reader ch + ch_count ch) mod ch_limit ch
     \<and> (ch_type ch = CHANNEL_POINTER \<longrightarrow> be32 0 \<notin> set (ch_contents ch))"

lemma be32_zero: "be32 p = be32 0 \<longleftrightarrow> p = 0"
proof
  assume "be32 p = be32 0"
  then have z: "(ucast (drop_bit 24 p) :: u8) = 0" "(ucast (drop_bit 16 p) :: u8) = 0"
    "(ucast (drop_bit 8 p) :: u8) = 0" "(ucast p :: u8) = 0"
    unfolding be32_def by simp_all
  have b: "\<not> bit p (k + m)" if "(ucast (drop_bit k p) :: u8) = 0" "m < 8" for k m
    using arg_cong [OF that(1), of "\<lambda>w. bit w m"] that(2) by (simp add: bit_simps)
  have "\<not> bit p n" if n: "n < 32" for n
  proof -
    consider "n < 8" | "8 \<le> n" "n < 16" | "16 \<le> n" "n < 24" | "24 \<le> n" "n < 32"
      using n by linarith
    then show ?thesis
      using b [of 0 n] b [of 8 "n - 8"] b [of 16 "n - 16"] b [of 24 "n - 24"] z by cases simp_all
  qed
  then show "p = 0"
    by (intro bit_word_eqI) simp
qed simp

lemma ch_slot_less: "ch_inv ch \<Longrightarrow> ch_slot ch i < length (ch_msg ch)"
  by (simp add: ch_inv_def ch_slot_def nat_less_iff)

lemma mod_ring_inj:
  fixes r L :: int
  assumes "0 < L" and "i < nat L" and "j < nat L" and "(r + int i) mod L = (r + int j) mod L"
  shows "i = j"
proof -
  have "L dvd (r + int i) - (r + int j)"
    using assms(4) by (simp add: mod_eq_dvd_iff)
  then have d: "L dvd int i - int j" by simp
  have "\<bar>int i - int j\<bar> < L"
    using assms(1-3) by linarith
  with d have "int i - int j = 0"
    using zdvd_not_zless [of "\<bar>int i - int j\<bar>" L] by (cases "int i - int j = 0") auto
  then show ?thesis by simp
qed

lemma ch_slot_inj:
  "ch_inv ch \<Longrightarrow> i < ch_cap ch \<Longrightarrow> j < ch_cap ch \<Longrightarrow> ch_slot ch i = ch_slot ch j \<longleftrightarrow> i = j"
  using mod_ring_inj [of "ch_limit ch" i j "ch_reader ch"]
  by (auto simp: ch_slot_def ch_inv_def ch_cap_def eq_nat_nat_iff)

lemma length_ch_contents [simp]: "length (ch_contents ch) = nat (ch_count ch)"
  by (simp add: ch_contents_def)

lemma ch_writer_slot: "ch_inv ch \<Longrightarrow> nat (ch_writer ch) = ch_slot ch (nat (ch_count ch))"
  by (simp add: ch_inv_def ch_slot_def)

lemma ch_reader_slot: "ch_inv ch \<Longrightarrow> nat (ch_reader ch) = ch_slot ch 0"
  by (simp add: ch_inv_def ch_slot_def)

text \<open>The state after a successful write and after a successful read.\<close>

lemma os_ch_write_room:
  assumes "ch_inv ch" and "snd i \<noteq> 0" and "ch_count ch < ch_limit ch"
  shows "os_ch_write (Some ch) i = Ret (0, ch\<lparr>
           ch_msg := (ch_msg ch)[nat (ch_writer ch) := ch_payload ch i],
           ch_writer := (ch_reader ch + ch_count ch + 1) mod ch_limit ch, ch_count := ch_count ch + 1\<rparr>)"
proof -
  have L: "0 < ch_limit ch" and t: "ch_type ch \<noteq> CHANNEL_END"
    and w: "ch_writer ch = (ch_reader ch + ch_count ch) mod ch_limit ch"
    and r: "ch_reader ch mod ch_limit ch = ch_reader ch"
    using assms(1) by (auto simp: ch_inv_def channel_type_ok_def)
  have w1: "(ch_writer ch + 1) mod ch_limit ch = (ch_reader ch + ch_count ch + 1) mod ch_limit ch"
    by (simp add: w mod_add_left_eq)
  have "((ch_reader ch + 0 + 1) mod ch_limit ch - 1) mod ch_limit ch = ch_reader ch"
    by (simp add: mod_diff_left_eq r)
  moreover have "nat (ch_writer ch) < length (ch_msg ch)"
    unfolding ch_writer_slot [OF assms(1)] by (rule ch_slot_less [OF assms(1)])
  ultimately show ?thesis
    using assms(2,3) L t
    by (auto simp: os_ch_write_def channel_full_def channel_empty_def Let_def w1)
qed

lemma os_ch_read_some:
  assumes "ch_inv ch" and "0 < ch_count ch"
  shows "\<exists>msg. os_ch_read (Some ch) False = Ret (0, Some (ch_msg ch ! nat (ch_reader ch)), ch\<lparr>
           ch_msg := msg, ch_reader := (ch_reader ch + 1) mod ch_limit ch, ch_count := ch_count ch - 1\<rparr>)
         \<and> length msg = length (ch_msg ch) \<and> (\<forall>j. j \<noteq> nat (ch_reader ch) \<longrightarrow> msg ! j = ch_msg ch ! j)"
proof -
  have L: "0 < ch_limit ch" and t: "ch_type ch \<noteq> CHANNEL_END"
    and w: "ch_writer ch = (ch_reader ch + ch_count ch) mod ch_limit ch"
    and r: "ch_reader ch mod ch_limit ch = ch_reader ch"
    using assms(1) by (auto simp: ch_inv_def channel_type_ok_def)
  have "ch_msg ch ! nat (ch_reader ch) \<in> set (ch_contents ch)"
    using assms by (simp add: ch_contents_def ch_reader_slot)
  then have p: "ch_type ch = CHANNEL_POINTER \<Longrightarrow> ch_msg ch ! nat (ch_reader ch) \<noteq> be32 0"
    using assms(1) by (auto simp: ch_inv_def)
  have f: "ch_count ch = ch_limit ch \<Longrightarrow> ((ch_reader ch + 1) mod ch_limit ch - 1) mod ch_limit ch = ch_writer ch"
    by (simp add: w mod_diff_left_eq r)
  have upd: "ch\<lparr>ch_msg := m, ch_reader := q, ch_writer := ch_writer ch, ch_count := c\<rparr>
     = ch\<lparr>ch_msg := m, ch_reader := q, ch_count := c\<rparr>" for m q c
    by simp
  define m where "m = (if ch_type ch = CHANNEL_POINTER
     then (ch_msg ch)[nat (ch_reader ch) := be32 0] else ch_msg ch)"
  have ch: "ch\<lparr>ch_msg := ch_msg ch\<rparr> = ch" by simp
  have "nat (ch_reader ch) < length (ch_msg ch)"
    unfolding ch_reader_slot [OF assms(1)] by (rule ch_slot_less [OF assms(1)])
  then have "os_ch_read (Some ch) False = Ret (0, Some (ch_msg ch ! nat (ch_reader ch)), ch\<lparr>
           ch_msg := m, ch_reader := (ch_reader ch + 1) mod ch_limit ch, ch_count := ch_count ch - 1\<rparr>)"
    using assms(2) L t p f
    by (cases "ch_type ch") (auto simp: os_ch_read_def channel_full_def channel_empty_def Let_def m_def)
  then show ?thesis
    by (intro exI [of _ m]) (simp add: m_def)
qed

lemma ch_payload_cong:
  "ch_type ch' = ch_type ch \<Longrightarrow> ch_size ch' = ch_size ch \<Longrightarrow> ch_payload ch' = ch_payload ch"
  by (rule ext) (simp add: ch_payload_def split: channel_type.split)

lemma ch_write_law:
  assumes "ch_inv ch" and "snd i \<noteq> 0" and "length (ch_contents ch) < ch_cap ch"
  shows "\<exists>ch'. os_ch_write (Some ch) i = Ret (0, ch') \<and> ch_inv ch'
           \<and> ch_contents ch' = ch_contents ch @ [ch_payload ch i]
           \<and> ch_cap ch' = ch_cap ch \<and> ch_payload ch' = ch_payload ch"
proof -
  have c: "0 \<le> ch_count ch" "ch_count ch < ch_limit ch"
    using assms(1,3) by (auto simp: ch_cap_def ch_inv_def)
  define ch' where "ch' = ch\<lparr>ch_msg := (ch_msg ch)[nat (ch_writer ch) := ch_payload ch i],
    ch_writer := (ch_reader ch + ch_count ch + 1) mod ch_limit ch, ch_count := ch_count ch + 1\<rparr>"
  have slot [simp]: "ch_slot ch' k = ch_slot ch k" for k
    by (simp add: ch_slot_def ch'_def)
  have w: "nat (ch_writer ch) = ch_slot ch (nat (ch_count ch))"
    by (rule ch_writer_slot [OF assms(1)])
  have n: "nat (ch_count ch + 1) = Suc (nat (ch_count ch))"
    using c by simp
  have old: "ch_msg ch' ! ch_slot ch k = ch_msg ch ! ch_slot ch k" if "k < nat (ch_count ch)" for k
  proof -
    have "k < nat (ch_limit ch)"
      using that c by linarith
    then have "ch_slot ch k \<noteq> ch_slot ch (nat (ch_count ch))"
      using that c ch_slot_inj [OF assms(1), of k "nat (ch_count ch)"] by (simp add: ch_cap_def)
    then show ?thesis
      by (simp add: ch'_def w)
  qed
  have new: "ch_msg ch' ! ch_slot ch (nat (ch_count ch)) = ch_payload ch i"
    using ch_slot_less [OF assms(1)] by (simp add: ch'_def w)
  have cont: "ch_contents ch' = ch_contents ch @ [ch_payload ch i]"
  proof -
    have "ch_count ch' = ch_count ch + 1"
      by (simp add: ch'_def)
    then show ?thesis
      unfolding ch_contents_def using old new by (simp add: n)
  qed
  have "ch_type ch = CHANNEL_POINTER \<Longrightarrow> ch_payload ch i \<noteq> be32 0"
    using assms(2) by (simp add: ch_payload_def be32_zero)
  then have "ch_inv ch'"
    using assms(1) c cont by (auto simp: ch_inv_def) (simp_all add: ch'_def add.assoc)
  with cont show ?thesis
    using os_ch_write_room [OF assms(1,2) c(2)]
    by (intro exI [of _ ch'] conjI ch_payload_cong) (simp_all add: ch'_def ch_cap_def)
qed

lemma ch_read_law:
  assumes "ch_inv ch" and "ch_contents ch = x # xs"
  shows "\<exists>ch'. os_ch_read (Some ch) False = Ret (0, Some x, ch') \<and> ch_inv ch' \<and> ch_contents ch' = xs
           \<and> ch_cap ch' = ch_cap ch \<and> ch_payload ch' = ch_payload ch"
proof -
  have c: "0 < ch_count ch"
    using arg_cong [OF assms(2), of length] by simp
  obtain m where m: "os_ch_read (Some ch) False = Ret (0, Some (ch_msg ch ! nat (ch_reader ch)), ch\<lparr>
           ch_msg := m, ch_reader := (ch_reader ch + 1) mod ch_limit ch, ch_count := ch_count ch - 1\<rparr>)"
    "length m = length (ch_msg ch)" "\<And>j. j \<noteq> nat (ch_reader ch) \<Longrightarrow> m ! j = ch_msg ch ! j"
    using os_ch_read_some [OF assms(1) c] by blast
  define ch' where "ch' = ch\<lparr>ch_msg := m, ch_reader := (ch_reader ch + 1) mod ch_limit ch,
    ch_count := ch_count ch - 1\<rparr>"
  have cap: "nat (ch_count ch) \<le> ch_cap ch"
    using assms(1) unfolding ch_inv_def ch_cap_def by linarith
  have n: "nat (ch_count ch) = Suc (nat (ch_count ch - 1))"
    using c by simp
  have slot: "ch_slot ch' k = ch_slot ch (Suc k)" for k
    by (simp add: ch_slot_def ch'_def mod_add_left_eq add.assoc)
  have same: "ch_msg ch' ! ch_slot ch (Suc k) = ch_msg ch ! ch_slot ch (Suc k)"
    if "k < nat (ch_count ch - 1)" for k
    using m(3) that cap n ch_slot_inj [OF assms(1), of "Suc k" 0]
    by (simp add: ch'_def ch_reader_slot [OF assms(1)])
  have "ch_contents ch = ch_msg ch ! ch_slot ch 0 # map (\<lambda>k. ch_msg ch ! ch_slot ch (Suc k)) [0..<nat (ch_count ch - 1)]"
    unfolding ch_contents_def n by (simp only: upt_conv_Cons map_Suc_upt [symmetric]) (simp add: upt_conv_Cons map_Suc_upt [symmetric] comp_def del: upt_Suc)
  then have x: "x = ch_msg ch ! ch_slot ch 0"
    and xs: "xs = map (\<lambda>k. ch_msg ch ! ch_slot ch (Suc k)) [0..<nat (ch_count ch - 1)]"
    using assms(2) by simp_all
  have cont: "ch_contents ch' = xs"
    unfolding xs ch_contents_def using same by (simp add: slot) (simp add: ch'_def)
  have "(ch_reader ch + ch_count ch) mod ch_limit ch
      = ((ch_reader ch + 1) mod ch_limit ch + (ch_count ch - 1)) mod ch_limit ch"
    by (simp add: mod_add_left_eq)
  then have "ch_inv ch'"
    using assms c cont m(2) by (auto simp: ch_inv_def) (simp_all add: ch'_def)
  with cont show ?thesis
    using m(1) x by (intro exI [of _ ch'] conjI ch_payload_cong)
      (simp_all add: ch'_def ch_cap_def ch_reader_slot [OF assms(1)])
qed

interpretation channel: fifo_impl "\<lambda>ch. os_ch_write (Some ch)" "\<lambda>ch. os_ch_read (Some ch) False"
  ch_inv ch_contents ch_cap ch_payload "\<lambda>i. snd i \<noteq> 0"
proof
  show "os_ch_write (Some s) i = Ret (err EKEYBAD, s)"
    if "ch_inv s" "snd i \<noteq> 0" "\<not> length (ch_contents s) < ch_cap s" for s and i :: "(u32 \<Rightarrow> u8) \<times> u32"
    using that by (auto simp: ch_inv_def ch_cap_def os_ch_write_def channel_full_def)
  show "os_ch_read (Some s) False = Ret (err EKEYBAD, None, s)" if "ch_inv s" "ch_contents s = []" for s
  proof -
    have "ch_count s = 0"
      using that(1) arg_cong [OF that(2), of length] length_ch_contents [of s]
      unfolding ch_inv_def by simp
    then show ?thesis
      by (simp add: os_ch_read_def channel_empty_def)
  qed
qed (fact ch_write_law ch_read_law)+

lemma ch_block_size_fits: "0 < sz \<Longrightarrow> 0 < limit \<Longrightarrow> limit * sz + 28 < 2 ^ 31 \<Longrightarrow> ch_block_size sz limit = 28 + nat (limit * sz)"
proof -
  assume a: "0 < sz" "0 < limit" "limit * sz + 28 < 2 ^ 31"
  have "uint (28 + word_of_int limit * word_of_int sz :: u32) = (28 + limit * sz) mod 2 ^ 32"
    by (simp add: uint_word_ariths uint_word_of_int mod_simps)
  also have "\<dots> = 28 + limit * sz"
    using a by simp
  finally show ?thesis
    using a by (simp add: ch_block_size_def flip: nat_uint_eq) (simp add: nat_add_distrib)
qed

lemma os_ch_new_inv:
  assumes "0 < sz" and "0 < limit" and "limit * sz + 28 < 2 ^ 31" and "channel_type_ok sz type"
  shows "\<exists>ch. os_ch_new True sz limit type = Ret (Some ch) \<and> ch_inv ch \<and> ch_contents ch = []
     \<and> ch_cap ch = nat limit \<and> ch_size ch = sz \<and> ch_type ch = type"
proof -
  have "(ch_block_size sz limit - 28) div nat sz = nat limit"
    using assms(1,2) ch_block_size_fits [OF assms(1-3)] by (simp add: nat_mult_distrib)
  then show ?thesis
    using assms ch_block_size_fits [OF assms(1-3)] by (auto simp: os_ch_new_def ch_inv_def ch_contents_def ch_cap_def)
qed

subsection \<open>Properties\<close>

text \<open>C8: every sequence of reads and non-NULL writes on a channel made by \<open>os_ch_new\<close>, when the memory is available and the
  size of the block fits an \<open>int\<close>, returns, never aborts and never hangs, and gives exactly the results and the final contents of a first-in
  first-out list bounded by \<open>limit\<close>: \<open>-EKEYBAD\<close> for a write when full and a read when empty, and the
  messages in the order written.\<close>

theorem channel_is_fifo:
  assumes "0 < sz" and "0 < limit" and "limit * sz + 28 < 2 ^ 31" and "channel_type_ok sz type"
    and "\<forall>i. Put i \<in> set ops \<longrightarrow> snd i \<noteq> 0"
  shows "\<exists>ch. os_ch_new True sz limit type = Ret (Some ch) \<and>
     (\<exists>rs ch'. queue_run (\<lambda>ch. os_ch_write (Some ch)) (\<lambda>ch. os_ch_read (Some ch) False) ch ops = Ret (rs, ch')
        \<and> fifo_run (nat limit) [] (map (map_queue_op (ch_payload ch)) ops) = (rs, ch_contents ch'))"
proof -
  obtain ch where ch: "os_ch_new True sz limit type = Ret (Some ch)" "ch_inv ch" "ch_contents ch = []"
    "ch_cap ch = nat limit"
    using os_ch_new_inv [OF assms(1-4)] by blast
  then show ?thesis
    using channel.run_refines [OF ch(2), of ops] assms(5) by (auto simp: channel.accepts_def)
qed

text \<open>One write beyond the limit, then three reads, on a channel of two bytes.\<close>

theorem channel_is_fifo_witness:
  "\<exists>ch. os_ch_new True 1 2 CHANNEL_U8 = Ret (Some ch) \<and>
     (\<exists>rs ch'. queue_run (\<lambda>ch. os_ch_write (Some ch)) (\<lambda>ch. os_ch_read (Some ch) False) ch
          [Put (ucast, 5), Put (ucast, 6), Put (ucast, 7), Get, Get, Get] = Ret (rs, ch')
        \<and> fifo_run (nat 2) [] (map (map_queue_op (ch_payload ch))
            [Put (ucast, 5), Put (ucast, 6), Put (ucast, 7), Get, Get, Get]) = (rs, ch_contents ch'))"
  by (rule channel_is_fifo) (simp_all add: channel_type_ok_def)

text \<open>Without that bound the product wraps around: a block for nothing but the header, and the first write is outside it.\<close>

theorem os_ch_new_wraps:
  "\<exists>ch. os_ch_new True 4 0x40000000 CHANNEL_U32 = Ret (Some ch) \<and> (snd i \<noteq> 0 \<longrightarrow> os_ch_write (Some ch) i = Abort)"
proof -
  have "ch_block_size 4 0x40000000 = 28"
    unfolding ch_block_size_def by code_simp
  then show ?thesis
    by (simp add: os_ch_new_def channel_type_ok_def os_ch_write_def channel_full_def)
qed

text \<open>C40: \<open>__channel_align\<close> returns for every number when the limit is positive, and its result is the
  mathematical remainder, a valid slot index.\<close>

theorem channel_align_terminates:
  "0 < ch_limit ch \<Longrightarrow>
   channel_align ch n = Some (n mod ch_limit ch) \<and> 0 \<le> n mod ch_limit ch \<and> n mod ch_limit ch < ch_limit ch"
  by (simp add: channel_align_mod)

theorem channel_align_terminates_witness:
  "channel_align \<lparr>ch_size = 1, ch_count = 0, ch_limit = 5, ch_type = CHANNEL_U8, ch_reader = 0,
     ch_writer = 0, ch_msg = []\<rparr> (- 7) = Some 3"
  using channel_align_terminates [of "\<lparr>ch_size = 1, ch_count = 0, ch_limit = 5, ch_type = CHANNEL_U8,
     ch_reader = 0, ch_writer = 0, ch_msg = []\<rparr>" "- 7"] by simp

end
