(* ===== verification/Os_Timer.thy ===== *)
theory Os_Timer
  imports Os_Base
begin

text \<open>
  The hierarchical timing wheel of \<open>timer/timer.c\<close>: four rings of 256 slots, ring \<open>k\<close> advancing once
  every \<open>256 ^ k\<close> ticks. Timers live in caller memory, here a heap from node addresses to \<open>tm_node\<close>
  records (address 0 is \<open>NULL\<close>); a slot's \<open>list_head\<close> is the list of the addresses linked there.

  Callbacks are code of the library's clients: \<open>cbs f n\<close> is what callback \<open>f\<close> returns for node
  \<open>n\<close>. They are taken not to operate the wheel themselves. The calls made are recorded, in order and
  with the tick, in the extra field \<open>calls\<close>, the observable behaviour of the wheel.

  The main result is a refinement: one tick of the four rings runs exactly the callbacks whose deadline
  is that tick, each once, and re-arms the cyclic ones, as a flat table of deadlines would.
\<close>

subsection \<open>The code\<close>

definition TM_MS :: u32 where "TM_MS = 10"
definition TM_BIT :: nat where "TM_BIT = 8"
definition TM_MASK :: u32 where "TM_MASK = 255"
definition TM_SLOT :: nat where "TM_SLOT = 256"
definition TM_RING :: nat where "TM_RING = 4"
definition TM_RINGMAX :: nat where "TM_RINGMAX = 3"
definition TM_PENDING :: u8 where "TM_PENDING = 1"
definition TM_CYCLE :: u8 where "TM_CYCLE = 2"

record tm_node =
  tn_cb :: nat
  tn_flags :: u8
  tn_ring_idx :: u8
  tn_ring_slot :: u16
  tn_expires :: u32
  tn_create :: u64

record tm_ring =
  r_list :: "nat \<Rightarrow> addr list"
  r_slot_count :: "nat \<Rightarrow> u32"
  r_current :: u32
  r_count :: u32

record clock =
  ticks :: u64
  triggered_error :: u64
  triggered_ok :: u64
  inserted :: u64
  removed :: u64
  ring :: "nat \<Rightarrow> tm_ring"
  clk_count :: u32
  clk_unit :: u32
  nodes :: "addr \<Rightarrow> tm_node"
  calls :: "(u64 \<times> addr) list"

definition tm_is_cycle :: "tm_node \<Rightarrow> bool" where
  "tm_is_cycle node = os_hasflag (tn_flags node) TM_CYCLE"

definition tm_is_pending :: "tm_node \<Rightarrow> bool" where
  "tm_is_pending node = os_hasflag (tn_flags node) TM_PENDING"

definition tm_left :: "clock \<Rightarrow> tm_node \<Rightarrow> u32" where
  "tm_left c node =
     (let timeout = tn_create node + ucast (tn_expires node)
      in if ticks c < timeout then ucast (timeout - ticks c) else 0)"

fun tm_find_loop :: "u32 \<Rightarrow> nat \<Rightarrow> nat \<times> u32" where
  "tm_find_loop left 0 = (0, left)"
| "tm_find_loop left (Suc i) =
     (let offset = drop_bit (TM_BIT * TM_RINGMAX) (push_bit (TM_BIT * (TM_RINGMAX - Suc i)) left)
      in if offset \<noteq> 0 then (Suc i, offset) else tm_find_loop left i)"

definition tm_find_ring :: "clock \<Rightarrow> tm_node \<Rightarrow> nat \<times> nat" where
  "tm_find_ring c node =
     (let (idx, offset) = tm_find_loop (tm_left c node) TM_RINGMAX
      in (idx, unat ((r_current (ring c idx) + offset) AND TM_MASK)))"

definition upd_node :: "addr \<Rightarrow> (tm_node \<Rightarrow> tm_node) \<Rightarrow> clock \<Rightarrow> clock" where
  "upd_node n f c = c\<lparr>nodes := (nodes c)(n := f (nodes c n))\<rparr>"

definition upd_ring :: "nat \<Rightarrow> (tm_ring \<Rightarrow> tm_ring) \<Rightarrow> clock \<Rightarrow> clock" where
  "upd_ring k f c = c\<lparr>ring := (ring c)(k := f (ring c k))\<rparr>"

definition tm_insert :: "clock \<Rightarrow> addr \<Rightarrow> clock" where
  "tm_insert c n =
     (let (k, slot) = tm_find_ring c (nodes c n);
          c = upd_ring k (\<lambda>r. r\<lparr>r_list := (r_list r)(slot := n # r_list r slot)\<rparr>) c;
          c = upd_node n (\<lambda>x. x\<lparr>tn_ring_idx := of_nat k, tn_ring_slot := of_nat slot,
                tn_flags := tn_flags x OR TM_PENDING\<rparr>) c;
          c = upd_ring k (\<lambda>r. r\<lparr>r_slot_count := (r_slot_count r)(slot := r_slot_count r slot + 1),
                r_count := r_count r + 1\<rparr>) c
      in c\<lparr>clk_count := clk_count c + 1\<rparr>)"

text \<open>\<open>list_del\<close> unlinks the node from the list it is on, which is the one its indices name.\<close>

definition tm_remove :: "clock \<Rightarrow> addr \<Rightarrow> clock" where
  "tm_remove c n =
     (let k = unat (tn_ring_idx (nodes c n)); slot = unat (tn_ring_slot (nodes c n));
          c = upd_ring k (\<lambda>r. r\<lparr>r_list := (r_list r)(slot := remove1 n (r_list r slot))\<rparr>) c;
          c = upd_ring k (\<lambda>r. r\<lparr>r_slot_count := (r_slot_count r)(slot := r_slot_count r slot - 1),
                r_count := r_count r - 1\<rparr>) c;
          c = c\<lparr>clk_count := clk_count c - 1\<rparr>
      in upd_node n (\<lambda>x. x\<lparr>tn_flags := tn_flags x AND NOT TM_PENDING\<rparr>) c)"

text \<open>
  \<open>tm_ring_trigger\<close> walks the slot with \<open>list_for_each_entry_safe\<close>: the successor is read before
  the body, and the body only unlinks the current node or links it at the head of a slot, so the
  nodes visited are those of the list at the start. The callback is a parameter with an \<open>int\<close> result: callbacks that
  themselves insert or remove timers while the wheel runs are outside the model.
\<close>

definition tm_fire :: "(nat \<Rightarrow> addr \<Rightarrow> int) \<Rightarrow> clock \<Rightarrow> addr \<Rightarrow> int \<times> clock" where
  "tm_fire cbs c n =
     (let e = cbs (tn_cb (nodes c n)) n;
          c = c\<lparr>calls := calls c @ [(ticks c, n)]\<rparr>
      in if 0 = e then (1, c\<lparr>triggered_ok := triggered_ok c + 1\<rparr>)
         else (0, c\<lparr>triggered_error := triggered_error c + 1\<rparr>))"

fun tm_ring_trigger_loop :: "(nat \<Rightarrow> addr \<Rightarrow> int) \<Rightarrow> addr list \<Rightarrow> int \<Rightarrow> clock \<Rightarrow> int \<times> clock" where
  "tm_ring_trigger_loop cbs [] count c = (count, c)"
| "tm_ring_trigger_loop cbs (n # ns) count c =
     (let timeout = (0 = tm_left c (nodes c n));
          c = tm_remove c n
      in if timeout then
           let (k, c) = tm_fire cbs c n
           in if tm_is_cycle (nodes c n)
              then tm_ring_trigger_loop cbs ns (count + k)
                     (tm_insert (upd_node n (\<lambda>x. x\<lparr>tn_create := ticks c\<rparr>) c) n)
              else tm_ring_trigger_loop cbs ns (count + k) c
         else tm_ring_trigger_loop cbs ns count (tm_insert c n))"

definition tm_ring_trigger :: "(nat \<Rightarrow> addr \<Rightarrow> int) \<Rightarrow> clock \<Rightarrow> nat \<Rightarrow> int \<times> clock" where
  "tm_ring_trigger cbs c k =
     tm_ring_trigger_loop cbs (r_list (ring c k) (unat (r_current (ring c k)))) 0 c"

function tm_trigger :: "(nat \<Rightarrow> addr \<Rightarrow> int) \<Rightarrow> clock \<Rightarrow> nat \<Rightarrow> int \<times> clock" where
  "tm_trigger cbs c k =
     (let c = upd_ring k (\<lambda>r. r\<lparr>r_current := (r_current r + 1) AND TM_MASK\<rparr>) c;
          (count, c) = tm_ring_trigger cbs c k
      in if 0 = r_current (ring c k) \<and> k < TM_RINGMAX
         then let (count', c) = tm_trigger cbs c (k + 1) in (count + count', c)
         else (count, c))"
  by pat_completeness auto

termination
  by (relation "measure (\<lambda>(_, _, k). TM_RINGMAX - k)") auto

declare tm_trigger.simps [simp del]

fun os_tm_trigger_loop :: "(nat \<Rightarrow> addr \<Rightarrow> int) \<Rightarrow> nat \<Rightarrow> int \<Rightarrow> int \<Rightarrow> clock \<Rightarrow> int \<times> clock" where
  "os_tm_trigger_loop cbs 0 ret count c = (if ret \<noteq> 0 then ret else count, c)"
| "os_tm_trigger_loop cbs (Suc i) ret count c =
     (let c = c\<lparr>ticks := ticks c + 1\<rparr>;
          (e, c) = tm_trigger cbs c 0
      in if e < 0 \<and> 0 = ret then os_tm_trigger_loop cbs i e count c
         else os_tm_trigger_loop cbs i ret (count + e) c)"

definition os_tm_trigger :: "(nat \<Rightarrow> addr \<Rightarrow> int) \<Rightarrow> u32 \<Rightarrow> clock \<Rightarrow> int \<times> clock" where
  "os_tm_trigger cbs ts c = os_tm_trigger_loop cbs (unat ts) 0 0 c"

definition os_tm_unit_set :: "u32 \<Rightarrow> clock \<Rightarrow> clock" where
  "os_tm_unit_set ms c = c\<lparr>clk_unit := (if ms \<noteq> 0 then ms else TM_MS)\<rparr>"

definition os_tm_insert :: "clock \<Rightarrow> addr \<Rightarrow> int \<Rightarrow> nat \<Rightarrow> bool \<Rightarrow> (int \<times> clock) outcome" where
  "os_tm_insert c timer after cb cycle =
     (if timer = 0 then os_assert_value (err EKEYNULL, c)
      else if cb = 0 then os_assert_value (err EINVAL1, c)
      else if after \<le> 0 then os_assert_value (err EINVAL2, c)
      else
        let c = upd_node timer (\<lambda>x. x\<lparr>tn_create := ticks c, tn_expires := word_of_int after,
                  tn_flags := (if cycle then TM_CYCLE else 0), tn_cb := cb\<rparr>) c;
            c = tm_insert c timer
        in Ret (0, c\<lparr>inserted := inserted c + 1\<rparr>))"

definition zero_node :: tm_node where
  "zero_node = \<lparr>tn_cb = 0, tn_flags = 0, tn_ring_idx = 0, tn_ring_slot = 0, tn_expires = 0, tn_create = 0\<rparr>"

definition os_tm_remove :: "clock \<Rightarrow> addr \<Rightarrow> (int \<times> clock) outcome" where
  "os_tm_remove c timer =
     (if timer = 0 then os_assert_value (err EKEYNULL, c)
      else if tm_is_pending (nodes c timer) then
        let c = tm_remove c timer;
            c = c\<lparr>removed := removed c + 1\<rparr>
        in Ret (0, upd_node timer (\<lambda>_. zero_node) c)
      else Ret (err ENOEXIST, c))"

definition os_tm_change :: "clock \<Rightarrow> addr \<Rightarrow> u32 \<Rightarrow> (int \<times> clock) outcome" where
  "os_tm_change c timer after =
     (if timer = 0 then os_assert_value (err EKEYNULL, c)
      else if tm_is_pending (nodes c timer) then
        let left = tm_left c (nodes c timer);
            c = tm_remove c timer;
            c = upd_node timer (\<lambda>x. x\<lparr>tn_expires :=
                  (if left < after then tn_expires x + (after - left) else tn_expires x - (left - after))\<rparr>) c
        in Ret (0, tm_insert c timer)
      else Ret (err ENOEXIST, c))"

text \<open>The \<open>uint32_t\<close> results of the two getters are returned as \<open>int\<close>.\<close>

definition os_tm_left :: "clock \<Rightarrow> addr \<Rightarrow> int outcome" where
  "os_tm_left c timer =
     (if timer = 0 then os_assert_value (err EKEYNULL)
      else if tm_is_pending (nodes c timer) then Ret (sint (tm_left c (nodes c timer)))
      else Ret 0)"

definition os_tm_expires :: "clock \<Rightarrow> addr \<Rightarrow> int outcome" where
  "os_tm_expires c timer =
     (if timer = 0 then os_assert_value (err EKEYNULL)
      else if tm_is_pending (nodes c timer) then Ret (sint (tn_expires (nodes c timer)))
      else Ret 0)"

definition os_tm_is_pending :: "clock \<Rightarrow> addr \<Rightarrow> bool outcome" where
  "os_tm_is_pending c timer =
     (if timer = 0 then os_assert_value False else Ret (tm_is_pending (nodes c timer)))"

text \<open>The constructor empties every slot of the zeroed \<open>CLOCK\<close>; the destructor unlinks every node.\<close>

definition tm_init :: "(addr \<Rightarrow> tm_node) \<Rightarrow> clock" where
  "tm_init ns = \<lparr>ticks = 0, triggered_error = 0, triggered_ok = 0, inserted = 0, removed = 0,
     ring = (\<lambda>_. \<lparr>r_list = (\<lambda>_. []), r_slot_count = (\<lambda>_. 0), r_current = 0, r_count = 0\<rparr>),
     clk_count = 0, clk_unit = 0, nodes = ns, calls = []\<rparr>"

definition tm_fini_slot :: "nat \<times> nat \<Rightarrow> clock \<Rightarrow> clock" where
  "tm_fini_slot ks c = fold (\<lambda>n c. tm_remove c n) (r_list (ring c (fst ks)) (snd ks)) c"

definition tm_fini :: "clock \<Rightarrow> clock" where
  "tm_fini c = fold tm_fini_slot (List.product [0..<TM_RING] [0..<TM_SLOT]) c"

subsection \<open>Flags, left time and ring choice\<close>

lemmas tm_consts = TM_BIT_def TM_MASK_def TM_SLOT_def TM_RING_def TM_RINGMAX_def TM_PENDING_def TM_CYCLE_def

lemma bit_1_word: "bit (1 :: u8) n \<longleftrightarrow> n = 0"
  by (simp add: bit_1_iff)

lemma bit_2_word: "bit (2 :: u8) n \<longleftrightarrow> n = 1"
  using bit_push_bit_iff [of 1 "1 :: u8" n] by (auto simp: bit_1_iff)

lemma and_single_bit: "f AND push_bit n 1 = (if bit f n then push_bit n 1 else (0 :: u8))"
  by (rule bit_word_eqI) (auto simp: bit_and_iff bit_exp_iff)

lemma hasflag_pending: "os_hasflag f TM_PENDING \<longleftrightarrow> bit (f :: u8) 0"
  using and_single_bit [of f 0] by (simp add: os_hasflag_def TM_PENDING_def)

lemma hasflag_cycle: "os_hasflag f TM_CYCLE \<longleftrightarrow> bit (f :: u8) 1"
  using and_single_bit [of f 1] by (simp add: os_hasflag_def TM_CYCLE_def)

lemma pending_flags [simp]:
  "os_hasflag (f OR TM_PENDING) TM_PENDING"
  "\<not> os_hasflag (f AND NOT TM_PENDING) TM_PENDING"
  "os_hasflag (f OR TM_PENDING) TM_CYCLE = os_hasflag f TM_CYCLE"
  "os_hasflag (f AND NOT TM_PENDING) TM_CYCLE = os_hasflag f TM_CYCLE"
  unfolding hasflag_pending hasflag_cycle
  by (simp_all add: TM_PENDING_def bit_or_iff bit_and_iff bit_not_iff bit_1_word)

lemma unat_ucast_32_64: "unat (ucast (x :: u32) :: u64) = unat x"
  using unat_bound [of x] by (simp add: unsigned_ucast_eq take_bit_eq_mod)

text \<open>The deadline of a node, free of wrap-around while the tick counter is far from its end.\<close>

definition deadline :: "tm_node \<Rightarrow> nat" where
  "deadline x = unat (tn_create x) + unat (tn_expires x)"

lemma unat_tm_left:
  assumes "deadline x < 2 ^ 64" and "tn_create x \<le> ticks c"
  shows "unat (tm_left c x) = deadline x - unat (ticks c)"
proof -
  define d where "d = tn_create x + ucast (tn_expires x)"
  have d: "unat d = deadline x"
    using assms(1) unfolding d_def deadline_def
    by (simp add: unat_word_ariths unat_ucast_32_64)
  have "deadline x - unat (ticks c) \<le> unat (tn_expires x)"
    using assms(2) unfolding deadline_def word_le_nat_alt by linarith
  then have small: "deadline x - unat (ticks c) < 2 ^ 32"
    using unat_bound [of "tn_expires x"] by simp
  show ?thesis
  proof (cases "ticks c < d")
    case True
    then have "unat (d - ticks c) = deadline x - unat (ticks c)"
      using d by (simp add: unat_sub less_imp_le)
    then have "unat (ucast (d - ticks c) :: u32) = deadline x - unat (ticks c)"
      using small by (simp add: unsigned_ucast_eq take_bit_eq_mod)
    with True show ?thesis
      by (simp add: tm_left_def d_def Let_def)
  next
    case False
    then have "deadline x \<le> unat (ticks c)"
      using d by (simp add: word_less_nat_alt)
    with False show ?thesis
      by (simp add: tm_left_def d_def Let_def)
  qed
qed

lemma ring_offset:
  fixes left :: u32
  shows "unat (drop_bit 24 (push_bit 0 left)) = unat left div 16777216"
    and "unat left < 16777216 \<Longrightarrow> unat (drop_bit 24 (push_bit 8 left)) = unat left div 65536"
    and "unat left < 65536 \<Longrightarrow> unat (drop_bit 24 (push_bit 16 left)) = unat left div 256"
  unfolding unat_drop_bit unat_push_bit using unat_bound [of left] by simp_all

lemma word_zero_unat: "(w :: u32) = 0 \<longleftrightarrow> unat w = 0"
  by (simp add: unat_eq_0)

lemma tm_find_loop_spec:
  assumes "tm_find_loop left TM_RINGMAX = (k, off)" and "left \<noteq> 0"
  shows "k < 4 \<and> unat off = unat left div 256 ^ k \<and> 0 < unat off \<and> unat off < 256"
proof -
  have L: "unat left < 4294967296" "unat left \<noteq> 0"
    using unat_bound [of left] assms(2) by (simp_all add: unat_eq_0)
  define o3 o2 o1 where "o3 = drop_bit 24 (push_bit 0 left)" and "o2 = drop_bit 24 (push_bit 8 left)"
    and "o1 = drop_bit 24 (push_bit 16 left)"
  note def = o3_def o2_def o1_def
  have eq: "tm_find_loop left TM_RINGMAX =
    (if o3 \<noteq> 0 then (3, o3) else if o2 \<noteq> 0 then (2, o2) else if o1 \<noteq> 0 then (1, o1) else (0, left))"
    unfolding def by (simp add: tm_consts eval_nat_numeral Let_def)
  have z3: "o3 = 0 \<longleftrightarrow> unat left < 16777216"
    using L unfolding word_zero_unat o3_def ring_offset by auto
  have z2: "o3 = 0 \<Longrightarrow> o2 = 0 \<longleftrightarrow> unat left < 65536"
    using z3 unfolding word_zero_unat o2_def by (auto simp: ring_offset(2))
  have z1: "o3 = 0 \<Longrightarrow> o2 = 0 \<Longrightarrow> o1 = 0 \<longleftrightarrow> unat left < 256"
    using z2 unfolding word_zero_unat o1_def by (auto simp: ring_offset(3))
  consider "o3 \<noteq> 0" "k = 3" "off = o3" | "o3 = 0" "o2 \<noteq> 0" "k = 2" "off = o2"
    | "o3 = 0" "o2 = 0" "o1 \<noteq> 0" "k = 1" "off = o1" | "o3 = 0" "o2 = 0" "o1 = 0" "k = 0" "off = left"
    using assms(1) unfolding eq by (auto split: if_splits)
  then show ?thesis
  proof cases
    case 1
    have "unat o3 = unat left div 16777216" unfolding o3_def by (rule ring_offset)
    with 1 L z3 show ?thesis by (simp add: div_greater_zero_iff less_mult_imp_div_less)
  next
    case 2
    have "unat o2 = unat left div 65536" unfolding o2_def using 2 z3 by (intro ring_offset) simp
    with 2 L z2 z3 show ?thesis by (simp add: div_greater_zero_iff less_mult_imp_div_less)
  next
    case 3
    have "unat o1 = unat left div 256" unfolding o1_def using 3 z2 by (intro ring_offset) simp
    with 3 L z1 z2 show ?thesis by (simp add: div_greater_zero_iff less_mult_imp_div_less)
  next
    case 4
    with L z1 show ?thesis by simp
  qed
qed

subsection \<open>The invariant of the wheel\<close>

text \<open>
  \<open>A k\<close> is how often ring \<open>k\<close> has advanced. A node on ring \<open>k\<close> is placed when its slot comes up at the
  \<open>B\<close>-th advance for some \<open>B\<close> within the next 256, and that advance, at tick \<open>B * 256 ^ k\<close>, is not after
  the deadline. Nodes of the set \<open>X\<close> are still to be handled in the current slot.
\<close>

definition placed :: "(nat \<Rightarrow> nat) \<Rightarrow> tm_node \<Rightarrow> bool" where
  "placed A x \<longleftrightarrow> (let k = unat (tn_ring_idx x) in
     \<exists>B. A k < B \<and> B \<le> A k + 256 \<and> B mod 256 = unat (tn_ring_slot x) \<and> B * 256 ^ k \<le> deadline x)"

definition timer_ok :: "clock \<Rightarrow> tm_node \<Rightarrow> bool" where
  "timer_ok c x \<longleftrightarrow> tn_create x \<le> ticks c \<and> tn_expires x \<noteq> 0"

definition rings_ok :: "(nat \<Rightarrow> nat) \<Rightarrow> clock \<Rightarrow> bool" where
  "rings_ok A c \<longleftrightarrow> (\<forall>k<4. unat (r_current (ring c k)) = A k mod 256 \<and> A k * 256 ^ k \<le> unat (ticks c))"

definition links_ok :: "clock \<Rightarrow> bool" where
  "links_ok c \<longleftrightarrow> (\<forall>k s. distinct (r_list (ring c k) s)
       \<and> r_slot_count (ring c k) s = of_nat (length (r_list (ring c k) s)))
     \<and> (\<forall>k s n. n \<in> set (r_list (ring c k) s) \<longleftrightarrow>
          tm_is_pending (nodes c n) \<and> unat (tn_ring_idx (nodes c n)) = k \<and> unat (tn_ring_slot (nodes c n)) = s)"

definition nodes_ok :: "addr set \<Rightarrow> (nat \<Rightarrow> nat) \<Rightarrow> clock \<Rightarrow> bool" where
  "nodes_ok X A c \<longleftrightarrow> (\<forall>n. tm_is_pending (nodes c n) \<longrightarrow> timer_ok c (nodes c n)
     \<and> unat (tn_ring_idx (nodes c n)) < 4 \<and> (n \<in> X \<or> placed A (nodes c n)))"

definition wheel_ok :: "addr set \<Rightarrow> (nat \<Rightarrow> nat) \<Rightarrow> clock \<Rightarrow> bool" where
  "wheel_ok X A c \<longleftrightarrow> rings_ok A c \<and> links_ok c \<and> nodes_ok X A c"

text \<open>The tick counter is 64 bits wide; below this bound no deadline wraps around.\<close>

definition ticks_room :: "clock \<Rightarrow> bool" where
  "ticks_room c \<longleftrightarrow> unat (ticks c) + 2 ^ 32 \<le> 2 ^ 64"

lemma deadline_no_wrap: "ticks_room c \<Longrightarrow> timer_ok c x \<Longrightarrow> deadline x < 2 ^ 64"
  using unat_bound [of "tn_expires x"]
  by (simp add: ticks_room_def timer_ok_def deadline_def word_le_nat_alt)

lemma timer_left: "ticks_room c \<Longrightarrow> timer_ok c x \<Longrightarrow> unat (tm_left c x) = deadline x - unat (ticks c)"
  using deadline_no_wrap [of c x] unat_tm_left [of x c] by (simp add: timer_ok_def)

lemma upd_sel [simp]:
  "nodes (upd_ring k f c) = nodes c" "nodes (upd_node n g c) = (nodes c)(n := g (nodes c n))"
  "ring (upd_ring k f c) = (ring c)(k := f (ring c k))" "ring (upd_node n g c) = ring c"
  "ticks (upd_ring k f c) = ticks c" "ticks (upd_node n g c) = ticks c"
  "calls (upd_ring k f c) = calls c" "calls (upd_node n g c) = calls c"
  by (simp_all add: upd_ring_def upd_node_def)

lemma tm_left_cong [simp]: "tm_left (upd_ring k f c) x = tm_left c x" "tm_left (upd_node n g c) x = tm_left c x"
  by (simp_all add: tm_left_def Let_def)

lemma tm_remove_sel:
  "nodes (tm_remove c n) = (nodes c)(n := (nodes c n)\<lparr>tn_flags := tn_flags (nodes c n) AND NOT TM_PENDING\<rparr>)"
  "ticks (tm_remove c n) = ticks c" "calls (tm_remove c n) = calls c"
  "r_current (ring (tm_remove c n) k) = r_current (ring c k)"
  "r_list (ring (tm_remove c n) k) s = (if k = unat (tn_ring_idx (nodes c n)) \<and> s = unat (tn_ring_slot (nodes c n))
     then remove1 n (r_list (ring c k) s) else r_list (ring c k) s)"
  "r_slot_count (ring (tm_remove c n) k) s = (if k = unat (tn_ring_idx (nodes c n)) \<and> s = unat (tn_ring_slot (nodes c n))
     then r_slot_count (ring c k) s - 1 else r_slot_count (ring c k) s)"
  by (simp_all add: tm_remove_def Let_def)

lemma tm_insert_sel:
  assumes "tm_find_ring c (nodes c n) = (k, s)"
  shows "nodes (tm_insert c n) = (nodes c)(n := (nodes c n)\<lparr>tn_ring_idx := of_nat k, tn_ring_slot := of_nat s,
      tn_flags := tn_flags (nodes c n) OR TM_PENDING\<rparr>)"
  "ticks (tm_insert c n) = ticks c" "calls (tm_insert c n) = calls c"
  "r_current (ring (tm_insert c n) j) = r_current (ring c j)"
  "r_list (ring (tm_insert c n) j) t = (if j = k \<and> t = s then n # r_list (ring c j) t else r_list (ring c j) t)"
  "r_slot_count (ring (tm_insert c n) j) t =
     (if j = k \<and> t = s then r_slot_count (ring c j) t + 1 else r_slot_count (ring c j) t)"
  using assms by (simp_all add: tm_insert_def Let_def)

lemma not_pending_removed [simp]: "\<not> tm_is_pending (x\<lparr>tn_flags := f AND NOT TM_PENDING\<rparr>)"
  by (simp add: tm_is_pending_def)

lemma pending_inserted [simp]: "tm_is_pending (x\<lparr>tn_ring_idx := i, tn_ring_slot := j, tn_flags := f OR TM_PENDING\<rparr>)"
  by (simp add: tm_is_pending_def)

lemma links_ok_remove:
  assumes "links_ok c" and "tm_is_pending (nodes c n)"
  shows "links_ok (tm_remove c n)"
proof -
  define k s where "k = unat (tn_ring_idx (nodes c n))" and "s = unat (tn_ring_slot (nodes c n))"
  have n: "n \<in> set (r_list (ring c k) s)"
    using assms by (simp add: links_ok_def k_def s_def)
  have "length (r_list (ring c k) s) = Suc (length (remove1 n (r_list (ring c k) s)))"
    using n length_pos_if_in_set [OF n] by (simp add: length_remove1)
  then have "of_nat (length (remove1 n (r_list (ring c k) s))) = (of_nat (length (r_list (ring c k) s)) - 1 :: u32)"
    by simp
  then show ?thesis
    using assms unfolding links_ok_def tm_remove_sel k_def s_def
    by (auto simp: tm_remove_sel)
qed

lemma wheel_ok_remove:
  assumes "wheel_ok X A c" and "tm_is_pending (nodes c n)"
  shows "wheel_ok (X - {n}) A (tm_remove c n)"
  using assms links_ok_remove [of c n]
  by (auto simp: wheel_ok_def rings_ok_def nodes_ok_def tm_remove_sel timer_ok_def)

lemma links_ok_insert:
  assumes "links_ok c" and "\<not> tm_is_pending (nodes c n)" and "tm_find_ring c (nodes c n) = (k, s)"
    and "k < 4" and "s < 256"
  shows "links_ok (tm_insert c n)"
proof -
  have i: "unat (of_nat k :: u8) = k" "unat (of_nat s :: u16) = s"
    using assms(4,5) by (simp_all add: unat_of_nat)
  show ?thesis
    using assms(1,2) unfolding links_ok_def tm_insert_sel [OF assms(3)]
    by (auto simp: i)
qed

lemma slot_of_advance: "unat cur = a mod 256 \<Longrightarrow> unat ((cur + off) AND TM_MASK) = (a + unat off) mod 256" for cur off :: u32
proof -
  assume "unat cur = a mod 256"
  moreover have "unat (cur + off) mod 256 = (unat cur + unat off) mod 256"
    by (simp add: unat_word_ariths mod_mod_cancel)
  ultimately show ?thesis
    unfolding TM_MASK_def unat_and_255 by (simp add: mod_simps)
qed

lemma tm_find_ring_placed:
  assumes "rings_ok A c" and "ticks_room c" and "timer_ok c x" and "unat (ticks c) < deadline x"
    and "tm_find_ring c x = (k, s)"
  shows "k < 4" and "s < 256"
    and "placed A (x\<lparr>tn_ring_idx := of_nat k, tn_ring_slot := of_nat s, tn_flags := f\<rparr>)"
proof -
  obtain off where find: "tm_find_loop (tm_left c x) TM_RINGMAX = (k, off)"
    and s: "s = unat ((r_current (ring c k) + off) AND TM_MASK)"
    using assms(5) by (auto simp: tm_find_ring_def split: prod.splits)
  have left: "unat (tm_left c x) = deadline x - unat (ticks c)"
    using assms(2,3) by (rule timer_left)
  then have "tm_left c x \<noteq> 0"
    using assms(4) by (auto simp: word_zero_unat)
  from tm_find_loop_spec [OF find this] show k: "k < 4"
    by simp
  from tm_find_loop_spec [OF find \<open>tm_left c x \<noteq> 0\<close>]
  have off: "unat off = (deadline x - unat (ticks c)) div 256 ^ k" "0 < unat off" "unat off < 256"
    by (simp_all add: left)
  have A: "unat (r_current (ring c k)) = A k mod 256" "A k * 256 ^ k \<le> unat (ticks c)"
    using assms(1) k by (simp_all add: rings_ok_def)
  have s': "s = (A k + unat off) mod 256"
    unfolding s by (rule slot_of_advance [OF A(1)])
  then show s256: "s < 256"
    by simp
  have i: "unat (of_nat k :: u8) = k" "unat (of_nat s :: u16) = s"
    using k s256 by (simp_all add: unat_of_nat)
  have "unat off * 256 ^ k \<le> deadline x - unat (ticks c)"
    unfolding off by (rule div_times_less_eq_dividend)
  then have "(A k + unat off) * 256 ^ k \<le> deadline x"
    using A(2) assms(4) unfolding add_mult_distrib by linarith
  then show "placed A (x\<lparr>tn_ring_idx := of_nat k, tn_ring_slot := of_nat s, tn_flags := f\<rparr>)"
    using off s' i unfolding placed_def deadline_def
    by (auto simp: Let_def intro!: exI [of _ "A k + unat off"])
qed

lemma wheel_ok_insert:
  assumes "wheel_ok X A c" and "ticks_room c" and "\<not> tm_is_pending (nodes c n)"
    and "timer_ok c (nodes c n)" and "unat (ticks c) < deadline (nodes c n)"
  shows "wheel_ok X A (tm_insert c n)"
proof -
  obtain k s where find: "tm_find_ring c (nodes c n) = (k, s)"
    by force
  have r: "rings_ok A c" and l: "links_ok c" and nd: "nodes_ok X A c"
    using assms(1) by (simp_all add: wheel_ok_def)
  note place = tm_find_ring_placed [OF r assms(2,4,5) find]
  have "unat (of_nat k :: u8) = k"
    using place(1) by (simp add: unat_of_nat)
  then have "nodes_ok X A (tm_insert c n)"
    using nd place assms(4) unfolding nodes_ok_def timer_ok_def tm_insert_sel [OF find] by auto
  moreover have "rings_ok A (tm_insert c n)"
    using r by (simp add: rings_ok_def tm_insert_sel [OF find])
  ultimately show ?thesis
    using links_ok_insert [OF l assms(3) find place(1,2)] by (simp add: wheel_ok_def)
qed

lemma wheel_ok_cong:
  "ring c' = ring c \<Longrightarrow> nodes c' = nodes c \<Longrightarrow> ticks c' = ticks c \<Longrightarrow> wheel_ok X A c' = wheel_ok X A c"
  by (simp add: wheel_ok_def rings_ok_def links_ok_def nodes_ok_def timer_ok_def)

lemma wheel_ok_upd_idle:
  assumes "wheel_ok X A c" and "\<not> tm_is_pending (nodes c n)" and "\<not> tm_is_pending (f (nodes c n))"
  shows "wheel_ok X A (upd_node n f c)"
  using assms by (auto simp: wheel_ok_def rings_ok_def links_ok_def nodes_ok_def timer_ok_def)

lemma tm_fire_sel:
  "tm_fire cbs c n = (k, c') \<Longrightarrow> 0 \<le> k \<and> ring c' = ring c \<and> nodes c' = nodes c \<and> ticks c' = ticks c
     \<and> calls c' = calls c @ [(ticks c, n)]"
  by (auto simp: tm_fire_def Let_def split: if_splits)

subsection \<open>The flat table of deadlines\<close>

text \<open>
  The specification: a table from armed nodes to start, delay and cyclic flag. At tick \<open>T\<close> the due entries
  leave the table, the cyclic ones come back with start \<open>T\<close>.
\<close>

type_synonym timer_table = "addr \<Rightarrow> (nat \<times> nat \<times> bool) option"

fun due :: "nat \<Rightarrow> (nat \<times> nat \<times> bool) option \<Rightarrow> bool" where
  "due T None = False"
| "due T (Some (cr, ex, cy)) = (cr + ex = T)"

fun flat_tick :: "nat \<Rightarrow> (nat \<times> nat \<times> bool) option \<Rightarrow> (nat \<times> nat \<times> bool) option" where
  "flat_tick T None = None"
| "flat_tick T (Some (cr, ex, cy)) =
     (if cr + ex = T then if cy then Some (T, ex, cy) else None else Some (cr, ex, cy))"

definition armed :: "clock \<Rightarrow> timer_table" where
  "armed c n = (let x = nodes c n in
     if tm_is_pending x then Some (unat (tn_create x), unat (tn_expires x), tm_is_cycle x) else None)"

lemma flat_tick_not_due: "\<not> due T v \<Longrightarrow> flat_tick T v = v"
  by (cases "(T, v)" rule: due.cases) auto

lemma armed_cong: "nodes c' = nodes c \<Longrightarrow> armed c' = armed c"
  by (simp add: armed_def fun_eq_iff)

lemma armed_other: "nodes c' m = nodes c m \<Longrightarrow> armed c' m = armed c m"
  by (simp add: armed_def)

lemma armed_remove: "armed (tm_remove c n) = (armed c)(n := None)"
  by (simp add: armed_def tm_remove_sel fun_eq_iff)

lemma armed_insert:
  "armed (tm_insert c n) = (armed c)(n := Some (unat (tn_create (nodes c n)), unat (tn_expires (nodes c n)),
     tm_is_cycle (nodes c n)))"
proof -
  obtain k s where "tm_find_ring c (nodes c n) = (k, s)" by force
  then show ?thesis
    by (simp add: armed_def tm_insert_sel fun_eq_iff Let_def tm_is_cycle_def)
qed

lemma due_deadline: "tm_is_pending (nodes c n) \<Longrightarrow> due T (armed c n) \<longleftrightarrow> deadline (nodes c n) = T"
  by (simp add: armed_def deadline_def Let_def)

lemma tm_insert_frame [simp]: "ticks (tm_insert c n) = ticks c" "calls (tm_insert c n) = calls c"
  "m \<noteq> n \<Longrightarrow> nodes (tm_insert c n) m = nodes c m"
  by (cases "tm_find_ring c (nodes c n)", simp add: tm_insert_sel)+

definition step_result :: "addr set \<Rightarrow> (nat \<Rightarrow> nat) \<Rightarrow> clock \<Rightarrow> addr \<Rightarrow> clock \<Rightarrow> bool" where
  "step_result X A c n c' \<longleftrightarrow> wheel_ok X A c' \<and> ticks c' = ticks c
     \<and> armed c' = (armed c)(n := flat_tick (unat (ticks c)) (armed c n))
     \<and> calls c' = calls c @ (if due (unat (ticks c)) (armed c n) then [(ticks c, n)] else [])
     \<and> (\<forall>m. m \<noteq> n \<longrightarrow> nodes c' m = nodes c m)"

lemma step_keeps:
  assumes "wheel_ok (insert n X) A c" and "ticks_room c" and "n \<notin> X" and "tm_is_pending (nodes c n)"
    and "unat (ticks c) < deadline (nodes c n)"
  shows "step_result X A c n (tm_insert (tm_remove c n) n)"
proof -
  define d where "d = tm_remove c n"
  have "wheel_ok (insert n X - {n}) A d"
    unfolding d_def by (rule wheel_ok_remove [OF assms(1,4)])
  then have w: "wheel_ok X A d"
    using assms(3) by simp
  have x: "nodes d n = (nodes c n)\<lparr>tn_flags := tn_flags (nodes c n) AND NOT TM_PENDING\<rparr>"
    "ticks d = ticks c" "calls d = calls c"
    by (simp_all add: d_def tm_remove_sel)
  have "timer_ok c (nodes c n)"
    using assms(1,4) by (simp add: wheel_ok_def nodes_ok_def)
  then have "wheel_ok X A (tm_insert d n)"
    using w assms(2,5) by (intro wheel_ok_insert) (simp_all add: x timer_ok_def ticks_room_def deadline_def)
  moreover have "armed (tm_insert d n) = armed c"
    using assms(4) by (simp add: armed_insert x) (simp add: d_def armed_remove fun_eq_iff armed_def tm_is_cycle_def Let_def)
  moreover have "\<not> due (unat (ticks c)) (armed c n)"
    using assms(4,5) by (simp add: due_deadline)
  ultimately show ?thesis
    unfolding step_result_def d_def [symmetric]
    by (simp add: flat_tick_not_due x) (simp add: d_def tm_remove_sel)
qed

lemma step_fires:
  assumes "wheel_ok (insert n X) A c" and "ticks_room c" and "n \<notin> X" and "tm_is_pending (nodes c n)"
    and "deadline (nodes c n) = unat (ticks c)" and "tm_fire cbs (tm_remove c n) n = (k, d)"
  shows "step_result X A c n (if tm_is_cycle (nodes d n)
      then tm_insert (upd_node n (\<lambda>x. x\<lparr>tn_create := ticks d\<rparr>) d) n else d)"
proof -
  have fire: "ring d = ring (tm_remove c n)" "nodes d = nodes (tm_remove c n)" "ticks d = ticks c"
    "calls d = calls c @ [(ticks c, n)]"
    using tm_fire_sel [OF assms(6)] by (simp_all add: tm_remove_sel)
  have "wheel_ok (insert n X - {n}) A (tm_remove c n)"
    by (rule wheel_ok_remove [OF assms(1,4)])
  then have w: "wheel_ok X A d"
    using assms(3) wheel_ok_cong [of d "tm_remove c n" X A] by (simp add: fire tm_remove_sel)
  have x: "nodes d n = (nodes c n)\<lparr>tn_flags := tn_flags (nodes c n) AND NOT TM_PENDING\<rparr>"
    by (simp add: fire tm_remove_sel)
  have due: "due (unat (ticks c)) (armed c n)"
    using assms(4,5) by (simp add: due_deadline)
  have ok: "tn_expires (nodes c n) \<noteq> 0"
    using assms(1,4) by (simp add: wheel_ok_def nodes_ok_def timer_ok_def)
  have ad: "armed d = (armed c)(n := None)"
    using armed_cong [of d "tm_remove c n"] by (simp add: fire armed_remove)
  have cyc: "tm_is_cycle (nodes d n) = tm_is_cycle (nodes c n)"
    by (simp add: x tm_is_cycle_def)
  have an: "armed c n = Some (unat (tn_create (nodes c n)), unat (tn_expires (nodes c n)), tm_is_cycle (nodes c n))"
    using assms(4) by (simp add: armed_def Let_def)
  show ?thesis
  proof (cases "tm_is_cycle (nodes d n)")
    case False
    then show ?thesis
      using w fire due ad cyc an assms(5)
      by (simp add: step_result_def deadline_def) (simp add: tm_remove_sel)
  next
    case True
    define e where "e = upd_node n (\<lambda>x. x\<lparr>tn_create := ticks d\<rparr>) d"
    have we: "wheel_ok X A e"
      unfolding e_def by (rule wheel_ok_upd_idle [OF w]) (simp_all add: x tm_is_pending_def)
    have xe: "nodes e n = (nodes d n)\<lparr>tn_create := ticks c\<rparr>" "ticks e = ticks c" "calls e = calls d"
      by (simp_all add: e_def fire)
    have "0 < unat (tn_expires (nodes c n))"
      using ok by (simp add: unat_gt_0)
    then have "wheel_ok X A (tm_insert e n)"
      using we assms(2) ok by (intro wheel_ok_insert)
        (simp_all add: xe x tm_is_pending_def timer_ok_def ticks_room_def deadline_def)
    moreover have "armed e = armed d"
      by (simp add: fun_eq_iff armed_def e_def) (simp add: x tm_is_pending_def Let_def)
    ultimately show ?thesis
      using True due cyc assms(5) unfolding step_result_def e_def [symmetric]
      by (simp add: armed_insert xe x ad an fire deadline_def tm_is_cycle_def)
        (simp add: e_def fire tm_remove_sel)
  qed
qed

subsection \<open>One slot, one ring, one tick\<close>

lemma ring_trigger_loop_spec:
  assumes "wheel_ok (set ns) A c" and "ticks_room c" and "distinct ns"
    and "\<forall>n\<in>set ns. tm_is_pending (nodes c n) \<and> unat (ticks c) \<le> deadline (nodes c n)"
    and "tm_ring_trigger_loop cbs ns count c = (count', c')"
  shows "count \<le> count' \<and> wheel_ok {} A c' \<and> ticks c' = ticks c
    \<and> armed c' = (\<lambda>n. if n \<in> set ns then flat_tick (unat (ticks c)) (armed c n) else armed c n)
    \<and> calls c' = calls c @ map (Pair (ticks c)) (filter (\<lambda>n. due (unat (ticks c)) (armed c n)) ns)"
  using assms
proof (induction ns arbitrary: c count)
  case Nil
  then show ?case by (simp add: fun_eq_iff)
next
  case (Cons n ns)
  have ok: "timer_ok c (nodes c n)"
    using Cons.prems(1,4) by (simp add: wheel_ok_def nodes_ok_def)
  have z: "0 = tm_left c (nodes c n) \<longleftrightarrow> \<not> unat (ticks c) < deadline (nodes c n)"
    using timer_left [OF Cons.prems(2) ok] by (auto simp: word_zero_unat)
  have n: "n \<notin> set ns" "tm_is_pending (nodes c n)"
    using Cons.prems(3,4) by simp_all
  have w: "wheel_ok (insert n (set ns)) A c"
    using Cons.prems(1) by simp
  obtain d j where d: "step_result (set ns) A c n d" "0 \<le> j"
    "tm_ring_trigger_loop cbs (n # ns) count c = tm_ring_trigger_loop cbs ns (count + j) d"
  proof (cases "unat (ticks c) < deadline (nodes c n)")
    case True
    show thesis
      using step_keeps [OF w Cons.prems(2) n True] z True
      by (intro that [of _ 0]) (simp_all add: Let_def)
  next
    case False
    then have dl: "deadline (nodes c n) = unat (ticks c)"
      using Cons.prems(4) by simp
    obtain j d where fire: "tm_fire cbs (tm_remove c n) n = (j, d)"
      by force
    define e where "e = (if tm_is_cycle (nodes d n)
      then tm_insert (upd_node n (\<lambda>x. x\<lparr>tn_create := ticks d\<rparr>) d) n else d)"
    have "tm_ring_trigger_loop cbs (n # ns) count c = tm_ring_trigger_loop cbs ns (count + j) e"
      using z False by (cases "tm_is_cycle (nodes d n)") (simp_all add: Let_def fire e_def)
    then show thesis
      using step_fires [OF w Cons.prems(2) n dl fire] conjunct1 [OF tm_fire_sel [OF fire]]
      by (intro that [of e j]) (simp_all only: e_def)
  qed
  have r: "wheel_ok (set ns) A d" "ticks d = ticks c" "\<And>m. m \<noteq> n \<Longrightarrow> nodes d m = nodes c m"
    "armed d = (armed c)(n := flat_tick (unat (ticks c)) (armed c n))"
    "calls d = calls c @ (if due (unat (ticks c)) (armed c n) then [(ticks c, n)] else [])"
    using d(1) by (simp_all add: step_result_def)
  have "\<forall>m\<in>set ns. tm_is_pending (nodes d m) \<and> unat (ticks d) \<le> deadline (nodes d m)"
    using Cons.prems(4) n(1) r(2,3) by (metis list.set_intros(2))
  moreover have "ticks_room d"
    using Cons.prems(2) by (simp add: ticks_room_def r)
  moreover have "filter (\<lambda>m. due (unat (ticks c)) (armed d m)) ns = filter (\<lambda>m. due (unat (ticks c)) (armed c m)) ns"
    using n(1) by (intro filter_cong) (auto simp: r(4))
  ultimately show ?case
    using Cons.IH [OF r(1), of "count + j"] Cons.prems(3,5) d(2,3) n(1) by (auto simp: r fun_eq_iff)
qed

lemma wheel_ok_advance:
  assumes "wheel_ok {} A c" and "k < 4" and "(A k + 1) * 256 ^ k \<le> unat (ticks c)"
  shows "wheel_ok (set (r_list (ring c k) ((A k + 1) mod 256))) (A(k := A k + 1))
           (upd_ring k (\<lambda>r. r\<lparr>r_current := (r_current r + 1) AND TM_MASK\<rparr>) c)" (is "wheel_ok ?X ?A ?c")
proof -
  have r: "rings_ok A c" and l: "links_ok c" and nd: "nodes_ok {} A c"
    using assms(1) by (simp_all add: wheel_ok_def)
  have cur: "unat ((r_current (ring c k) + 1) AND TM_MASK) = (A k + 1) mod 256"
    using r assms(2) slot_of_advance [of "r_current (ring c k)" "A k" 1] by (simp add: rings_ok_def)
  have "rings_ok ?A ?c"
    using r assms(3) cur by (auto simp: rings_ok_def)
  moreover have "links_ok ?c"
    using l by (simp add: links_ok_def)
  moreover have "n \<in> ?X \<or> placed ?A (nodes c n)" if "tm_is_pending (nodes c n)" for n
  proof -
    define j s where "j = unat (tn_ring_idx (nodes c n))" and "s = unat (tn_ring_slot (nodes c n))"
    have "placed A (nodes c n)"
      using nd that by (simp add: nodes_ok_def)
    then obtain B where B: "A j < B" "B \<le> A j + 256" "B mod 256 = s" "B * 256 ^ j \<le> deadline (nodes c n)"
      by (auto simp: placed_def Let_def j_def s_def)
    show ?thesis
    proof (cases "j = k \<and> B = A k + 1")
      case True
      then show ?thesis
        using l that B(3) by (simp add: links_ok_def j_def s_def)
    next
      case False
      then have "?A j < B"
        using B(1) by auto
      then show ?thesis
        using B by (auto simp: placed_def Let_def j_def [symmetric] s_def [symmetric] intro!: exI [of _ B])
    qed
  qed
  ultimately show ?thesis
    using nd by (simp add: wheel_ok_def nodes_ok_def timer_ok_def)
qed

lemma slot_deadline:
  assumes "wheel_ok {} A c" and "n \<in> set (r_list (ring c k) ((A k + 1) mod 256))"
  shows "tm_is_pending (nodes c n) \<and> (A k + 1) * 256 ^ k \<le> deadline (nodes c n)"
proof -
  have n: "tm_is_pending (nodes c n)" "unat (tn_ring_idx (nodes c n)) = k"
    "unat (tn_ring_slot (nodes c n)) = (A k + 1) mod 256"
    using assms by (simp_all add: wheel_ok_def links_ok_def)
  then have "placed A (nodes c n)"
    using assms(1) by (simp add: wheel_ok_def nodes_ok_def)
  then obtain B where B: "A k < B" "B * 256 ^ k \<le> deadline (nodes c n)"
    using n by (auto simp: placed_def)
  have "(A k + 1) * 256 ^ k \<le> B * 256 ^ k"
    using B(1) by (intro mult_le_mono1) simp
  then show ?thesis
    using n(1) B(2) by simp
qed

text \<open>What firing a set of due nodes at a tick does, and that two such steps compose.\<close>

definition fires :: "clock \<Rightarrow> addr list \<Rightarrow> clock \<Rightarrow> bool" where
  "fires c ns c' \<longleftrightarrow> ticks c' = ticks c \<and> distinct ns \<and> (\<forall>n\<in>set ns. due (unat (ticks c)) (armed c n))
     \<and> armed c' = (\<lambda>n. if n \<in> set ns then flat_tick (unat (ticks c)) (armed c n) else armed c n)
     \<and> calls c' = calls c @ map (Pair (ticks c)) ns"

lemma flat_tick_rests: "wheel_ok X A c \<Longrightarrow> due T (armed c n) \<Longrightarrow> \<not> due T (flat_tick T (armed c n))"
  by (auto simp: armed_def Let_def wheel_ok_def nodes_ok_def timer_ok_def unat_gt_0 split: if_splits)

lemma fires_trans:
  assumes "wheel_ok X A c" and "fires c ns d" and "fires d ms e"
  shows "fires c (ns @ ms) e"
proof -
  have "n \<notin> set ns" if "n \<in> set ms" for n
  proof
    assume "n \<in> set ns"
    then have "armed d n = flat_tick (unat (ticks c)) (armed c n)" "due (unat (ticks c)) (armed c n)"
      using assms(2) by (simp_all add: fires_def)
    then show False
      using assms flat_tick_rests that by (fastforce simp: fires_def)
  qed
  then show ?thesis
    using assms(2,3) by (auto simp: fires_def fun_eq_iff)
qed

lemma tm_ring_trigger_spec:
  assumes "wheel_ok {} A c" and "ticks_room c" and "k < 4" and "(A k + 1) * 256 ^ k = unat (ticks c)"
    and "tm_ring_trigger cbs (upd_ring k (\<lambda>r. r\<lparr>r_current := (r_current r + 1) AND TM_MASK\<rparr>) c) k = (j, c')"
  shows "0 \<le> j \<and> wheel_ok {} (A(k := A k + 1)) c' \<and> (\<exists>ns. fires c ns c')"
proof -
  define d where "d = upd_ring k (\<lambda>r. r\<lparr>r_current := (r_current r + 1) AND TM_MASK\<rparr>) c"
  define ns where "ns = r_list (ring c k) ((A k + 1) mod 256)"
  have d: "nodes d = nodes c" "ticks d = ticks c" "calls d = calls c" "armed d = armed c"
    by (simp_all add: d_def armed_def fun_eq_iff)
  have "unat (r_current (ring c k)) = A k mod 256"
    using assms(1,3) by (simp add: wheel_ok_def rings_ok_def)
  then have "unat (r_current (ring d k)) = (A k + 1) mod 256"
    using slot_of_advance [of "r_current (ring c k)" "A k" 1] by (simp add: d_def)
  then have loop: "tm_ring_trigger_loop cbs ns 0 d = (j, c')"
    using assms(5) by (simp add: tm_ring_trigger_def d_def [symmetric]) (simp add: ns_def d_def)
  have w: "wheel_ok (set ns) (A(k := A k + 1)) d"
    unfolding ns_def d_def using assms(4) by (intro wheel_ok_advance [OF assms(1,3)]) simp
  have dist: "distinct ns"
    using assms(1) by (simp add: ns_def wheel_ok_def links_ok_def)
  have pend: "\<forall>n\<in>set ns. tm_is_pending (nodes d n) \<and> unat (ticks d) \<le> deadline (nodes d n)"
    unfolding ns_def d assms(4) [symmetric] using slot_deadline [OF assms(1)] by blast
  have room: "ticks_room d"
    using assms(2) by (simp add: ticks_room_def d)
  note spec = ring_trigger_loop_spec [OF w room dist pend loop, unfolded d]
  have r: "0 \<le> j" "wheel_ok {} (A(k := A k + 1)) c'" "ticks c' = ticks c"
    "armed c' = (\<lambda>n. if n \<in> set ns then flat_tick (unat (ticks c)) (armed c n) else armed c n)"
    "calls c' = calls c @ map (Pair (ticks c)) (filter (\<lambda>n. due (unat (ticks c)) (armed c n)) ns)"
    using spec by (blast+)
  have "fires c (filter (\<lambda>n. due (unat (ticks c)) (armed c n)) ns) c'"
    unfolding fires_def r(3-5) using dist by (simp add: fun_eq_iff flat_tick_not_due)
  with r(1,2) show ?thesis by blast
qed

text \<open>\<open>advances T k\<close>: during tick \<open>T\<close> the rings below \<open>k\<close> have been advanced, the others not yet.\<close>

definition advances :: "nat \<Rightarrow> nat \<Rightarrow> nat \<Rightarrow> nat" where
  "advances T k j = (if j < k then T div 256 ^ j else (T - 1) div 256 ^ j)"

lemma pred_div_multiple: "0 < T \<Longrightarrow> 0 < b \<Longrightarrow> b dvd T \<Longrightarrow> (T - 1) div b + 1 = T div (b :: nat)"
proof -
  assume "0 < T" "0 < b" "b dvd T"
  then obtain m where m: "T = b * Suc m"
    by (metis dvd_def gr0_implies_Suc nat_0_less_mult_iff)
  have "(T - 1) div b = m"
  proof (rule div_nat_eqI)
    show "b * m \<le> T - 1" "T - 1 < b * Suc m"
      using m \<open>0 < b\<close> by simp_all
  qed
  then show ?thesis
    using m \<open>0 < b\<close> by simp
qed

lemma pred_div_not_multiple: "\<not> b dvd T \<Longrightarrow> (T - 1) div b = T div (b :: nat)"
proof (cases T)
  case (Suc t)
  assume "\<not> b dvd T"
  then have "Suc t mod b \<noteq> 0"
    using Suc by (simp add: dvd_eq_mod_eq_0)
  then show ?thesis
    using Suc by (simp add: div_Suc)
qed simp

lemma advances_step:
  assumes "0 < T" and "256 ^ k dvd T"
  shows "(advances T k k + 1) * 256 ^ k = T" and "(advances T k)(k := advances T k k + 1) = advances T (k + 1)"
proof -
  have s: "advances T k k + 1 = T div 256 ^ k"
    using pred_div_multiple [of T "256 ^ k"] assms by (simp add: advances_def)
  then show "(advances T k k + 1) * 256 ^ k = T"
    using assms(2) by simp
  show "(advances T k)(k := advances T k k + 1) = advances T (k + 1)"
    unfolding s by (auto simp: advances_def)
qed

lemma advances_done:
  assumes "\<not> 256 ^ k dvd T" and "k \<le> j"
  shows "advances T k j = T div 256 ^ j"
proof -
  have "\<not> 256 ^ j dvd T"
    using assms power_le_dvd by blast
  then show ?thesis
    using pred_div_not_multiple [of "256 ^ j" T] by (simp add: advances_def)
qed

lemma wheel_ok_advances_cong: "(\<And>j. j < 4 \<Longrightarrow> A j = A' j) \<Longrightarrow> wheel_ok X A c \<Longrightarrow> wheel_ok X A' c"
  unfolding wheel_ok_def rings_ok_def nodes_ok_def placed_def Let_def by force

abbreviation settled :: "clock \<Rightarrow> bool" where
  "settled c \<equiv> wheel_ok {} (\<lambda>j. unat (ticks c) div 256 ^ j) c"

lemma carry_iff:
  "256 ^ k dvd T \<Longrightarrow> T div 256 ^ k mod 256 = 0 \<longleftrightarrow> 256 ^ (k + 1) dvd (T :: nat)"
  by (auto simp: dvd_eq_mod_eq_0 [symmetric] dvd_div_iff_mult mult.commute)

lemma tm_trigger_spec:
  assumes "wheel_ok {} (advances (unat (ticks c)) k) c" and "ticks_room c" and "k < 4" and "0 < unat (ticks c)"
    and "256 ^ k dvd unat (ticks c)" and "tm_trigger cbs c k = (j, c')"
  shows "0 \<le> j \<and> settled c' \<and> (\<exists>ns. fires c ns c')"
  using assms
proof (induction cbs c k arbitrary: j c' rule: tm_trigger.induct)
  case (1 cbs c k)
  define T where "T = unat (ticks c)"
  define c0 where "c0 = upd_ring k (\<lambda>r. r\<lparr>r_current := (r_current r + 1) AND TM_MASK\<rparr>) c"
  obtain i d where d: "tm_ring_trigger cbs c0 k = (i, d)"
    by force
  note adv = advances_step [OF "1.prems"(4,5), folded T_def]
  note ring = tm_ring_trigger_spec [OF "1.prems"(1-3) adv(1) [unfolded T_def] d [unfolded c0_def],
      folded T_def, unfolded adv(2)]
  obtain ns where ns: "fires c ns d" and i: "0 \<le> i" and w: "wheel_ok {} (advances T (k + 1)) d"
    using ring by blast
  have td: "ticks d = ticks c"
    using ns by (simp add: fires_def)
  have "unat (r_current (ring d k)) = T div 256 ^ k mod 256"
    using w "1.prems"(3) by (simp add: wheel_ok_def rings_ok_def advances_def)
  then have carry: "0 = r_current (ring d k) \<longleftrightarrow> 256 ^ (k + 1) dvd T"
    using carry_iff [OF "1.prems"(5)] unfolding T_def by (metis word_zero_unat)
  show ?case
  proof (cases "0 = r_current (ring d k) \<and> k < TM_RINGMAX")
    case True
    obtain i' e where e: "tm_trigger cbs d (k + 1) = (i', e)"
      by force
    have "0 \<le> i' \<and> settled e \<and> (\<exists>ms. fires d ms e)"
      using True w carry "1.prems"(2,4) e
      by (intro "1.IH" [OF c0_def d [symmetric] refl True]) (simp_all add: td T_def ticks_room_def TM_RINGMAX_def)
    moreover have "j = i + i'" "c' = e"
      using "1.prems"(6) True d e by (simp_all add: tm_trigger.simps [of cbs c k] Let_def c0_def [symmetric])
    ultimately show ?thesis
      using i fires_trans [OF "1.prems"(1) ns] by auto
  next
    case False
    then have "c' = d" "j = i"
      using "1.prems"(6) d by (auto simp: tm_trigger.simps [of cbs c k] Let_def c0_def [symmetric] split: if_splits)
    have "advances T (k + 1) m = T div 256 ^ m" if "m < 4" for m
    proof (cases "m < k + 1")
      case True
      then show ?thesis by (simp add: advances_def)
    next
      case m: False
      then have "\<not> 256 ^ (k + 1) dvd T"
        using False carry that by (auto simp: TM_RINGMAX_def)
      then show ?thesis
        using m by (intro advances_done) simp_all
    qed
    then have "settled d"
      unfolding td T_def [symmetric] by (rule wheel_ok_advances_cong [OF _ w]) simp
    with \<open>c' = d\<close> \<open>j = i\<close> i ns show ?thesis
      by blast
  qed
qed

text \<open>In a settled wheel every armed node has its deadline ahead.\<close>

lemma settled_deadline:
  assumes "settled c" and "tm_is_pending (nodes c n)"
  shows "unat (ticks c) < deadline (nodes c n)"
proof -
  define k where "k = unat (tn_ring_idx (nodes c n))"
  obtain B where B: "unat (ticks c) div 256 ^ k < B" "B * 256 ^ k \<le> deadline (nodes c n)"
    using assms by (auto simp: wheel_ok_def nodes_ok_def placed_def Let_def k_def)
  then show ?thesis
    by (simp add: div_less_iff_less_mult)
qed

lemma settled_not_due: "settled c \<Longrightarrow> \<not> due (unat (ticks c)) (armed c n)"
  using settled_deadline [of c n] due_deadline [of c n]
  by (cases "tm_is_pending (nodes c n)") (auto simp: armed_def Let_def)

lemma settled_begin_tick:
  assumes "settled c" and "ticks_room (c\<lparr>ticks := ticks c + 1\<rparr>)" and "unat (ticks c) + 1 < 2 ^ 64"
  shows "wheel_ok {} (advances (unat (ticks c + 1)) 0) (c\<lparr>ticks := ticks c + 1\<rparr>)"
    and "unat (ticks c + 1) = unat (ticks c) + 1"
proof -
  show t: "unat (ticks c + 1) = unat (ticks c) + 1"
    using assms(3) by (simp add: unat_word_ariths)
  have a: "advances (unat (ticks c + 1)) 0 = (\<lambda>j. unat (ticks c) div 256 ^ j)"
    by (simp add: advances_def t fun_eq_iff)
  have "rings_ok (\<lambda>j. unat (ticks c) div 256 ^ j) (c\<lparr>ticks := ticks c + 1\<rparr>)"
    using assms(1) by (auto simp: wheel_ok_def rings_ok_def t intro: le_SucI div_times_less_eq_dividend)
  moreover have "timer_ok c x \<Longrightarrow> timer_ok (c\<lparr>ticks := ticks c + 1\<rparr>) x" for x
    by (auto simp: timer_ok_def word_le_nat_alt t)
  ultimately show "wheel_ok {} (advances (unat (ticks c + 1)) 0) (c\<lparr>ticks := ticks c + 1\<rparr>)"
    using assms(1) unfolding a by (simp add: wheel_ok_def links_ok_def nodes_ok_def)
qed

definition calls_of :: "clock \<Rightarrow> addr \<Rightarrow> nat list" where
  "calls_of c n = map (\<lambda>x. unat (fst x)) (filter (\<lambda>x. snd x = n) (calls c))"

definition tm_tick :: "(nat \<Rightarrow> addr \<Rightarrow> int) \<Rightarrow> clock \<Rightarrow> clock" where
  "tm_tick cbs c = snd (tm_trigger cbs (c\<lparr>ticks := ticks c + 1\<rparr>) 0)"

lemma tm_tick_spec:
  assumes "settled c" and "unat (ticks c) + 1 + 2 ^ 32 \<le> 2 ^ 64"
    and "tm_trigger cbs (c\<lparr>ticks := ticks c + 1\<rparr>) 0 = (j, c')"
  shows "0 \<le> j" and "settled c'" and "unat (ticks c') = unat (ticks c) + 1" and "ticks c' = ticks c + 1"
    and "armed c' n = flat_tick (unat (ticks c) + 1) (armed c n)"
    and "\<exists>ns. distinct ns \<and> set ns = {n. due (unat (ticks c) + 1) (armed c n)}
           \<and> calls c' = calls c @ map (Pair (ticks c + 1)) ns"
proof -
  define d where "d = c\<lparr>ticks := ticks c + 1\<rparr>"
  have b: "wheel_ok {} (advances (unat (ticks d)) 0) d" "unat (ticks d) = unat (ticks c) + 1"
    using settled_begin_tick [OF assms(1)] assms(2) by (simp_all add: d_def ticks_room_def unat_word_ariths)
  have ad: "armed d = armed c" "calls d = calls c" "ticks d = ticks c + 1"
    by (simp_all add: d_def armed_def fun_eq_iff)
  have "ticks_room d"
    using assms(2) b(2) by (simp add: ticks_room_def)
  then have spec: "0 \<le> j \<and> settled c' \<and> (\<exists>ns. fires d ns c')"
    using assms(3) b by (intro tm_trigger_spec [of d 0 cbs]) (simp_all add: d_def)
  then obtain ns where ns: "fires d ns c'" by blast
  then have t: "ticks c' = ticks d" by (simp add: fires_def)
  show "0 \<le> j" "settled c'" "unat (ticks c') = unat (ticks c) + 1" "ticks c' = ticks c + 1"
    using spec t b(2) ad(3) by simp_all
  have "\<not> due (unat (ticks d)) (armed c' m)" for m
    using settled_not_due [of c' m] spec t by simp
  then have due: "due (unat (ticks c) + 1) (armed c m) \<longleftrightarrow> m \<in> set ns" for m
    using ns unfolding fires_def ad(1) b(2) by (cases "m \<in> set ns") (simp, metis)
  have "armed c' n = (if n \<in> set ns then flat_tick (unat (ticks c) + 1) (armed c n) else armed c n)"
    using ns unfolding fires_def ad(1) b(2) by simp
  then show "armed c' n = flat_tick (unat (ticks c) + 1) (armed c n)"
    using due [of n] flat_tick_not_due [of "unat (ticks c) + 1" "armed c n"] by simp
  have "distinct ns" "calls c' = calls c @ map (Pair (ticks c + 1)) ns"
    using ns unfolding fires_def ad by simp_all
  then show "\<exists>ns. distinct ns \<and> set ns = {n. due (unat (ticks c) + 1) (armed c n)}
           \<and> calls c' = calls c @ map (Pair (ticks c + 1)) ns"
    using due by (intro exI [of _ ns]) auto
qed

subsection \<open>The contract of a tick service\<close>

text \<open>When an entry of the flat table fires during the next \<open>N\<close> ticks, and what is left of it.\<close>

fun flat_run :: "nat \<Rightarrow> nat \<Rightarrow> (nat \<times> nat \<times> bool) option \<Rightarrow> (nat \<times> nat \<times> bool) option" where
  "flat_run T 0 v = v"
| "flat_run T (Suc N) v = flat_run (T + 1) N (flat_tick (T + 1) v)"

fun flat_calls :: "nat \<Rightarrow> nat \<Rightarrow> (nat \<times> nat \<times> bool) option \<Rightarrow> nat list" where
  "flat_calls T 0 v = []"
| "flat_calls T (Suc N) v = (if due (T + 1) v then [T + 1] else []) @ flat_calls (T + 1) N (flat_tick (T + 1) v)"

lemma flat_calls_None [simp]: "flat_calls T N None = []"
  by (induction N arbitrary: T) auto

lemma flat_calls_once:
  "T < cr + ex \<Longrightarrow> flat_calls T N (Some (cr, ex, False)) = (if cr + ex \<le> T + N then [cr + ex] else [])"
  by (induction N arbitrary: T) auto

lemma flat_calls_cyclic:
  "cr \<le> T \<Longrightarrow> T < cr + ex \<Longrightarrow>
   flat_calls T N (Some (cr, ex, True)) = map (\<lambda>i. cr + (i + 1) * ex) [0..<(T + N - cr) div ex]"
proof (induction N arbitrary: T cr)
  case 0
  then show ?case by simp
next
  case (Suc N)
  show ?case
  proof (cases "cr + ex = T + 1")
    case True
    have "0 < ex" using Suc.prems by simp
    then have "flat_calls (T + 1) N (Some (T + 1, ex, True)) = map (\<lambda>i. T + 1 + (i + 1) * ex) [0..<N div ex]"
      using Suc.IH [of "T + 1" "T + 1"] by simp
    moreover have "(T + Suc N - cr) div ex = Suc (N div ex)"
    proof -
      have "T + Suc N - cr = ex + N"
        using True by simp
      then show ?thesis
        using \<open>0 < ex\<close> by (simp add: div_add_self1)
    qed
    moreover have "map (\<lambda>i. cr + (i + 1) * ex) [0..<Suc m] = (T + 1) # map (\<lambda>i. T + 1 + (i + 1) * ex) [0..<m]" for m
      using True by (simp add: upt_conv_Cons map_Suc_upt [symmetric] comp_def algebra_simps del: upt_Suc)
    ultimately show ?thesis
      using True by simp
  next
    case False
    then show ?thesis
      using Suc.IH [of cr "T + 1"] Suc.prems by simp
  qed
qed

locale tick_service =
  fixes tick :: "'s \<Rightarrow> 's"
    and ok :: "'s \<Rightarrow> bool"
    and now :: "'s \<Rightarrow> nat"
    and table :: "'s \<Rightarrow> timer_table"
    and log :: "'s \<Rightarrow> addr \<Rightarrow> nat list"
    and horizon :: nat
  assumes tick_ok: "ok s \<Longrightarrow> now s < horizon \<Longrightarrow> ok (tick s)"
    and tick_now: "ok s \<Longrightarrow> now s < horizon \<Longrightarrow> now (tick s) = now s + 1"
    and tick_table: "ok s \<Longrightarrow> now s < horizon \<Longrightarrow> table (tick s) n = flat_tick (now s + 1) (table s n)"
    and tick_log: "ok s \<Longrightarrow> now s < horizon \<Longrightarrow>
          log (tick s) n = log s n @ (if due (now s + 1) (table s n) then [now s + 1] else [])"
begin

lemma run:
  assumes "ok s" and "now s + N \<le> horizon"
  shows "ok ((tick ^^ N) s) \<and> now ((tick ^^ N) s) = now s + N
    \<and> table ((tick ^^ N) s) n = flat_run (now s) N (table s n)
    \<and> log ((tick ^^ N) s) n = log s n @ flat_calls (now s) N (table s n)"
  using assms
proof (induction N arbitrary: s)
  case (Suc N)
  then have h: "now s < horizon" by simp
  show ?case
    using Suc.IH [of "tick s"] Suc.prems tick_ok [OF Suc.prems(1) h] tick_now [OF Suc.prems(1) h]
      tick_table [OF Suc.prems(1) h] tick_log [OF Suc.prems(1) h]
    by (simp add: funpow_swap1)
qed simp

end

interpretation wheel: tick_service "tm_tick cbs" settled "\<lambda>c. unat (ticks c)" armed calls_of "2 ^ 64 - 2 ^ 32"
  for cbs
proof
  fix c :: clock and n :: addr
  assume ok: "settled c" and h: "unat (ticks c) < 2 ^ 64 - 2 ^ 32"
  obtain j c' where c': "tm_trigger cbs (c\<lparr>ticks := ticks c + 1\<rparr>) 0 = (j, c')"
    by force
  have "unat (ticks c) + 1 + 2 ^ 32 \<le> 2 ^ 64"
    using h by simp
  note spec = tm_tick_spec [OF ok this c']
  have t: "tm_tick cbs c = c'"
    by (simp add: tm_tick_def c')
  show "settled (tm_tick cbs c)" "unat (ticks (tm_tick cbs c)) = unat (ticks c) + 1"
    "armed (tm_tick cbs c) n = flat_tick (unat (ticks c) + 1) (armed c n)"
    using spec(2,3,5) by (simp_all add: t)
  obtain ns where ns: "distinct ns" "set ns = {n. due (unat (ticks c) + 1) (armed c n)}"
    "calls c' = calls c @ map (Pair (ticks c + 1)) ns"
    using spec(6) by blast
  have "filter (\<lambda>x. snd x = n) (map (Pair (ticks c + 1)) ns) = map (Pair (ticks c + 1)) (filter (\<lambda>m. m = n) ns)"
    by (simp add: filter_map comp_def)
  then show "calls_of (tm_tick cbs c) n = calls_of c n @ (if due (unat (ticks c) + 1) (armed c n) then [unat (ticks c) + 1] else [])"
    using filter_eq_distinct [OF ns(1), of n] ns(2) spec(3,4) by (simp add: calls_of_def t ns(3))
qed

subsection \<open>The operations on a settled wheel\<close>

lemma settled_cong:
  "ring c' = ring c \<Longrightarrow> nodes c' = nodes c \<Longrightarrow> ticks c' = ticks c \<Longrightarrow> settled c' = settled c"
  using wheel_ok_cong [of c' c] by simp

lemma settled_init: "(\<And>n. \<not> tm_is_pending (ns n)) \<Longrightarrow> settled (tm_init ns)"
  by (simp add: wheel_ok_def rings_ok_def links_ok_def nodes_ok_def tm_init_def)

lemma trigger_loop_ticks:
  assumes "settled c" and "unat (ticks c) + N \<le> 2 ^ 64 - 2 ^ 32" and "0 \<le> count"
  shows "\<exists>k\<ge>0. os_tm_trigger_loop cbs N 0 count c = (k, (tm_tick cbs ^^ N) c)"
  using assms
proof (induction N arbitrary: c count)
  case (Suc N)
  obtain j d where d: "tm_trigger cbs (c\<lparr>ticks := ticks c + 1\<rparr>) 0 = (j, d)"
    by force
  have "unat (ticks c) + 1 + 2 ^ 32 \<le> 2 ^ 64"
    using Suc.prems(2) by simp
  note spec = tm_tick_spec [OF Suc.prems(1) this d]
  have "tm_tick cbs c = d"
    by (simp add: tm_tick_def d)
  then show ?case
    using Suc.IH [of d "count + j"] spec(1-3) Suc.prems(2,3) by (simp add: d Let_def funpow_swap1)
qed simp

lemma os_tm_trigger_ticks:
  assumes "settled c" and "unat (ticks c) + unat ts \<le> 2 ^ 64 - 2 ^ 32"
  shows "\<exists>k\<ge>0. os_tm_trigger cbs ts c = (k, (tm_tick cbs ^^ unat ts) c)"
  unfolding os_tm_trigger_def using trigger_loop_ticks [OF assms order_refl] .

lemma os_tm_insert_arms:
  assumes "settled c" and "ticks_room c" and "timer \<noteq> 0" and "cb \<noteq> 0" and "0 < after" and "after < 2 ^ 31"
    and "\<not> tm_is_pending (nodes c timer)"
  shows "\<exists>c'. os_tm_insert c timer after cb cycle = Ret (0, c') \<and> settled c' \<and> ticks c' = ticks c
    \<and> calls c' = calls c \<and> armed c' = (armed c)(timer := Some (unat (ticks c), nat after, cycle))"
proof -
  define x where "x = (nodes c timer)\<lparr>tn_create := ticks c, tn_expires := word_of_int after,
    tn_flags := (if cycle then TM_CYCLE else 0), tn_cb := cb\<rparr>"
  define d where "d = upd_node timer (\<lambda>_. x) c"
  have ex: "unat (tn_expires x) = nat after"
    using assms(5,6) by (simp add: x_def unat_word_of_int_small)
  have np: "\<not> tm_is_pending x" and cy: "tm_is_cycle x = cycle"
    by (simp_all add: x_def tm_is_pending_def tm_is_cycle_def os_hasflag_def tm_consts)
  have d: "nodes d timer = x" "ticks d = ticks c" "calls d = calls c"
    by (simp_all add: d_def)
  have e0: "tn_expires x \<noteq> 0"
    using ex assms(5) by auto
  have "settled d"
    unfolding d(2) unfolding d_def by (rule wheel_ok_upd_idle [OF assms(1,7)]) (simp add: np)
  then have "settled (tm_insert d timer)"
    using assms(2,5) ex np e0 unfolding tm_insert_frame
    by (intro wheel_ok_insert) (simp_all add: d timer_ok_def ticks_room_def deadline_def, simp_all add: x_def)
  moreover have "armed d = (armed c)(timer := None)"
    using np by (simp add: d_def armed_def fun_eq_iff)
  then have "armed (tm_insert d timer) = (armed c)(timer := Some (unat (ticks c), nat after, cycle))"
    using ex cy by (simp add: armed_insert d) (simp add: x_def)
  moreover define e where "e = (tm_insert d timer)\<lparr>inserted := inserted (tm_insert d timer) + 1\<rparr>"
  then have e: "ring e = ring (tm_insert d timer)" "nodes e = nodes (tm_insert d timer)"
    "ticks e = ticks (tm_insert d timer)" "calls e = calls c"
    by (simp_all add: d(3))
  have "os_tm_insert c timer after cb cycle = Ret (0, e)"
    using assms(3-5) by (simp add: os_tm_insert_def Let_def e_def d_def x_def upd_node_def)
  ultimately show ?thesis
    using settled_cong [OF e(1-3)] armed_cong [OF e(2)] e(3,4) d(2) by (intro exI [of _ e]) simp
qed

lemma os_tm_remove_law:
  assumes "settled c" and "timer \<noteq> 0" and "tm_is_pending (nodes c timer)"
  shows "\<exists>c'. os_tm_remove c timer = Ret (0, c') \<and> settled c' \<and> ticks c' = ticks c
    \<and> calls c' = calls c \<and> armed c' = (armed c)(timer := None)"
proof -
  define d where "d = tm_remove c timer"
  have d: "ticks d = ticks c" "calls d = calls c" "armed d = (armed c)(timer := None)"
    "\<not> tm_is_pending (nodes d timer)"
    by (simp_all add: d_def tm_remove_sel armed_remove)
  have w: "settled d"
    using wheel_ok_remove [OF assms(1,3)] by (simp add: d_def tm_remove_sel)
  define e where "e = upd_node timer (\<lambda>_. zero_node) d"
  have z: "\<not> tm_is_pending zero_node"
    by (simp add: zero_node_def tm_is_pending_def os_hasflag_def tm_consts)
  have we: "settled e"
    using wheel_ok_upd_idle [OF w d(4), of "\<lambda>_. zero_node"] z by (simp add: e_def)
  define f where "f = upd_node timer (\<lambda>_. zero_node) (d\<lparr>removed := removed d + 1\<rparr>)"
  have f: "ring f = ring e" "nodes f = nodes e" "ticks f = ticks e" "calls f = calls c"
    by (simp_all add: f_def e_def d)
  have "armed e = (armed c)(timer := None)"
    using z d(3) by (simp add: e_def armed_def fun_eq_iff)
  moreover have "os_tm_remove c timer = Ret (0, f)"
    using assms(2,3) by (simp add: os_tm_remove_def Let_def f_def d_def)
  ultimately show ?thesis
    using we settled_cong [OF f(1-3)] armed_cong [OF f(2)] f(3,4) d(1)
    by (intro exI [of _ f]) (simp add: e_def)
qed

lemma os_tm_change_law:
  assumes "settled c" and "ticks_room c" and "timer \<noteq> 0" and "armed c timer = Some (cr, ex, cy)"
    and "after \<noteq> 0" and "unat (ticks c) - cr + unat after < 2 ^ 32"
  shows "\<exists>c'. os_tm_change c timer after = Ret (0, c') \<and> settled c' \<and> ticks c' = ticks c
    \<and> calls c' = calls c \<and> armed c' = (armed c)(timer := Some (cr, unat (ticks c) - cr + unat after, cy))"
proof -
  define T where "T = unat (ticks c)"
  define x where "x = nodes c timer"
  have p: "tm_is_pending x" and x: "cr = unat (tn_create x)" "ex = unat (tn_expires x)" "cy = tm_is_cycle x"
    using assms(4) by (auto simp: armed_def x_def Let_def split: if_splits)
  have ok: "timer_ok c x"
    using assms(1) p by (simp add: wheel_ok_def nodes_ok_def x_def)
  have crT: "cr \<le> T"
    using ok by (simp add: timer_ok_def word_le_nat_alt x T_def)
  have left: "unat (tm_left c x) = cr + ex - T" and dl: "T < cr + ex"
    using timer_left [OF assms(2) ok] settled_deadline [OF assms(1) p [unfolded x_def]]
    by (simp_all add: deadline_def x T_def x_def)
  define y where "y = (if tm_left c x < after then tn_expires x + (after - tm_left c x)
    else tn_expires x - (tm_left c x - after))"
  have y: "unat y = T - cr + unat after"
  proof (cases "tm_left c x < after")
    case True
    then have "unat (after - tm_left c x) = unat after - (cr + ex - T)"
      by (simp add: unat_sub less_imp_le left)
    moreover have "cr + ex - T < unat after"
      using True left by (simp add: word_less_nat_alt)
    ultimately show ?thesis
      using True crT dl assms(6) by (simp add: y_def unat_word_ariths x(2) [symmetric] T_def [symmetric])
  next
    case False
    then have "unat (tm_left c x - after) = (cr + ex - T) - unat after" "unat after \<le> cr + ex - T"
      using left by (simp_all add: unat_sub word_less_nat_alt word_le_nat_alt)
    then show ?thesis
      using False crT dl by (simp add: y_def unat_sub word_le_nat_alt x(2) [symmetric])
  qed
  define d where "d = tm_remove c timer"
  have d: "ticks d = ticks c" "calls d = calls c" "armed d = (armed c)(timer := None)"
    "nodes d timer = x\<lparr>tn_flags := tn_flags x AND NOT TM_PENDING\<rparr>"
    by (simp_all add: d_def tm_remove_sel armed_remove x_def)
  have w: "settled d"
    using wheel_ok_remove [OF assms(1)] p by (simp add: d_def tm_remove_sel x_def)
  define e where "e = upd_node timer (\<lambda>z. z\<lparr>tn_expires := y\<rparr>) d"
  have we: "settled e"
    using wheel_ok_upd_idle [OF w, of timer "\<lambda>z. z\<lparr>tn_expires := y\<rparr>"]
    by (simp add: e_def d tm_is_pending_def)
  have e: "nodes e timer = x\<lparr>tn_flags := tn_flags x AND NOT TM_PENDING, tn_expires := y\<rparr>"
    "ticks e = ticks c" "calls e = calls c"
    by (simp_all add: e_def d)
  have "0 < unat after"
    using assms(5) by (simp add: unat_gt_0)
  then have y0: "y \<noteq> 0" "0 < unat after"
    using y by auto
  have "settled (tm_insert e timer)"
    using we ok assms(2) y y0 crT unfolding tm_insert_frame
    by (intro wheel_ok_insert)
      (simp_all add: e timer_ok_def ticks_room_def deadline_def tm_is_pending_def x(1) [symmetric] T_def [symmetric])
  moreover have "armed e m = armed d m" for m
    using d(4) by (cases "m = timer") (simp_all add: e_def armed_def Let_def tm_is_pending_def)
  then have "armed e = armed d"
    by (rule ext)
  then have "armed (tm_insert e timer) = (armed c)(timer := Some (cr, T - cr + unat after, cy))"
    using y by (simp add: armed_insert e d x tm_is_cycle_def)
  moreover have "os_tm_change c timer after = Ret (0, tm_insert e timer)"
    using assms(3) p by (simp add: os_tm_change_def Let_def e_def d_def [symmetric] x_def [symmetric] y_def d)
      (simp add: upd_node_def d)
  ultimately show ?thesis
    using e by (simp add: T_def)
qed

subsection \<open>Properties\<close>

text \<open>C5: one tick of the wheel refines the flat table of deadlines: from a settled wheel,
  \<open>tm_trigger\<close> on the incremented clock leaves a settled wheel, calls exactly the callbacks whose
  deadline is the new tick, each once, re-arms the cyclic ones at that tick and disarms the others.\<close>

theorem tm_trigger_refines_table:
  assumes "settled c" and "unat (ticks c) + 1 + 2 ^ 32 \<le> 2 ^ 64"
    and "tm_trigger cbs (c\<lparr>ticks := ticks c + 1\<rparr>) 0 = (j, c')"
  shows "0 \<le> j \<and> settled c' \<and> ticks c' = ticks c + 1
    \<and> armed c' = (\<lambda>n. flat_tick (unat (ticks c) + 1) (armed c n))
    \<and> (\<exists>ns. distinct ns \<and> set ns = {n. due (unat (ticks c) + 1) (armed c n)}
           \<and> calls c' = calls c @ map (Pair (ticks c + 1)) ns)"
  using tm_tick_spec [OF assms] by (simp add: fun_eq_iff)

theorem tm_trigger_refines_table_witness:
  "settled (snd (tm_trigger (\<lambda>f n. 0) ((tm_init (\<lambda>n. zero_node))\<lparr>ticks := ticks (tm_init (\<lambda>n. zero_node)) + 1\<rparr>) 0))"
proof -
  have s: "settled (tm_init (\<lambda>n. zero_node))"
    by (rule settled_init) (simp add: zero_node_def tm_is_pending_def os_hasflag_def tm_consts)
  show ?thesis
    by (rule tm_trigger_refines_table [OF s _ prod.collapse [symmetric], THEN conjunct2, THEN conjunct1])
      (simp add: tm_init_def)
qed

text \<open>C6: a timer armed with \<open>os_tm_insert\<close> fires on time. After inserting an idle timer with delay
  \<open>after\<close> and running \<open>os_tm_trigger\<close> for any number of ticks, its callback has been called exactly
  once, at tick \<open>now + after\<close>, if that many ticks have passed and never otherwise; a cyclic timer has
  been called at every multiple of \<open>after\<close> and at no other tick.\<close>

theorem timer_fires_on_time:
  assumes "settled c" and "unat (ticks c) + unat ts \<le> 2 ^ 64 - 2 ^ 32" and "timer \<noteq> 0" and "cb \<noteq> 0"
    and "0 < after" and "after < 2 ^ 31" and "\<not> tm_is_pending (nodes c timer)"
  shows "\<exists>c1 k c2. os_tm_insert c timer after cb cycle = Ret (0, c1) \<and> os_tm_trigger cbs ts c1 = (k, c2)
    \<and> 0 \<le> k \<and> settled c2 \<and> calls_of c2 timer = calls_of c timer @
      (if cycle then map (\<lambda>i. unat (ticks c) + (i + 1) * nat after) [0..<unat ts div nat after]
       else if nat after \<le> unat ts then [unat (ticks c) + nat after] else [])"
proof -
  have "ticks_room c"
    using assms(2) by (simp add: ticks_room_def)
  then obtain c1 where c1: "os_tm_insert c timer after cb cycle = Ret (0, c1)" "settled c1" "ticks c1 = ticks c"
    "calls c1 = calls c" "armed c1 = (armed c)(timer := Some (unat (ticks c), nat after, cycle))"
    using os_tm_insert_arms [OF assms(1) _ assms(3-7)] by blast
  have room: "unat (ticks c1) + unat ts \<le> 2 ^ 64 - 2 ^ 32"
    using assms(2) c1(3) by simp
  obtain k where k: "0 \<le> k" "os_tm_trigger cbs ts c1 = (k, (tm_tick cbs ^^ unat ts) c1)"
    using os_tm_trigger_ticks [OF c1(2) room] by blast
  note run = wheel.run [OF c1(2) room, of cbs timer]
  have "flat_calls (unat (ticks c)) (unat ts) (Some (unat (ticks c), nat after, cycle)) =
      (if cycle then map (\<lambda>i. unat (ticks c) + (i + 1) * nat after) [0..<unat ts div nat after]
       else if nat after \<le> unat ts then [unat (ticks c) + nat after] else [])"
    using assms(5) flat_calls_once flat_calls_cyclic by (cases cycle) simp_all
  then have "calls_of ((tm_tick cbs ^^ unat ts) c1) timer = calls_of c timer @
      (if cycle then map (\<lambda>i. unat (ticks c) + (i + 1) * nat after) [0..<unat ts div nat after]
       else if nat after \<le> unat ts then [unat (ticks c) + nat after] else [])"
    using run c1(3-5) by (simp add: calls_of_def)
  with c1(1) k run show ?thesis
    by blast
qed

theorem timer_fires_on_time_witness:
  "\<exists>c1 k c2. os_tm_insert (tm_init (\<lambda>n. zero_node)) 1 300 7 False = Ret (0, c1)
    \<and> os_tm_trigger (\<lambda>f n. 0) 1000 c1 = (k, c2) \<and> calls_of c2 1 = [300]"
proof -
  have z: "\<not> tm_is_pending zero_node"
    by (simp add: zero_node_def tm_is_pending_def os_hasflag_def tm_consts)
  show ?thesis
    using timer_fires_on_time [of "tm_init (\<lambda>n. zero_node)" 1000 1 7 300 False "\<lambda>f n. 0"]
      settled_init [of "\<lambda>n. zero_node"] z by (auto simp: tm_init_def calls_of_def)
qed

text \<open>C38: \<open>os_tm_remove\<close> on a pending timer succeeds, disarms it and nothing else, and its callback is
  never called by later ticks.\<close>

theorem os_tm_remove_disarms:
  assumes "settled c" and "unat (ticks c) + unat ts \<le> 2 ^ 64 - 2 ^ 32" and "timer \<noteq> 0"
    and "tm_is_pending (nodes c timer)"
  shows "\<exists>c1 k c2. os_tm_remove c timer = Ret (0, c1) \<and> armed c1 = (armed c)(timer := None)
    \<and> os_tm_trigger cbs ts c1 = (k, c2) \<and> settled c2 \<and> calls_of c2 timer = calls_of c timer"
proof -
  obtain c1 where c1: "os_tm_remove c timer = Ret (0, c1)" "settled c1" "ticks c1 = ticks c"
    "calls c1 = calls c" "armed c1 = (armed c)(timer := None)"
    using os_tm_remove_law [OF assms(1,3,4)] by blast
  have room: "unat (ticks c1) + unat ts \<le> 2 ^ 64 - 2 ^ 32"
    using assms(2) c1(3) by simp
  obtain k where "os_tm_trigger cbs ts c1 = (k, (tm_tick cbs ^^ unat ts) c1)"
    using os_tm_trigger_ticks [OF c1(2) room] by blast
  moreover note run = wheel.run [OF c1(2) room, of cbs timer]
  moreover have "calls_of ((tm_tick cbs ^^ unat ts) c1) timer = calls_of c timer"
    using run c1(3-5) by (simp add: calls_of_def)
  ultimately show ?thesis
    using c1(1,5) by blast
qed

theorem os_tm_remove_disarms_witness:
  "\<exists>c. tm_is_pending (nodes c 1) \<and> (\<exists>c1 k c2. os_tm_remove c 1 = Ret (0, c1)
     \<and> os_tm_trigger (\<lambda>f n. 0) 1000 c1 = (k, c2) \<and> calls_of c2 1 = [])"
proof -
  have z: "\<not> tm_is_pending zero_node"
    by (simp add: zero_node_def tm_is_pending_def os_hasflag_def tm_consts)
  obtain c where c: "settled c" "ticks c = 0" "calls c = []" "armed c 1 = Some (0, 300, False)"
    using os_tm_insert_arms [of "tm_init (\<lambda>n. zero_node)" 1 7 300 False] settled_init [of "\<lambda>n. zero_node"] z
    by (auto simp: tm_init_def ticks_room_def)
  then have "tm_is_pending (nodes c 1)"
    by (auto simp: armed_def Let_def split: if_splits)
  then show ?thesis
    using os_tm_remove_disarms [of c 1000 1 "\<lambda>f n. 0"] c by (auto simp: calls_of_def)
qed

text \<open>\<open>os_tm_change\<close> with a non-zero delay moves the deadline of a pending timer to \<open>now + after\<close>,
  keeps its start and its cyclic flag and every other timer, whatever time was left, as long as the
  new total delay fits its 32-bit field.\<close>

theorem os_tm_change_moves_deadline:
  assumes "settled c" and "ticks_room c" and "timer \<noteq> 0" and "armed c timer = Some (cr, ex, cy)"
    and "after \<noteq> 0" and "unat (ticks c) - cr + unat after < 2 ^ 32"
  shows "\<exists>c'. os_tm_change c timer after = Ret (0, c') \<and> settled c'
    \<and> armed c' = (armed c)(timer := Some (cr, unat (ticks c) - cr + unat after, cy))"
  using os_tm_change_law [OF assms] by blast

theorem os_tm_change_moves_deadline_witness:
  "\<exists>c c'. armed c 1 = Some (0, 300, False) \<and> os_tm_change c 1 5 = Ret (0, c') \<and> armed c' 1 = Some (0, 5, False)"
proof -
  have z: "\<not> tm_is_pending zero_node"
    by (simp add: zero_node_def tm_is_pending_def os_hasflag_def tm_consts)
  obtain c where c: "settled c" "ticks c = 0" "armed c 1 = Some (0, 300, False)"
    using os_tm_insert_arms [of "tm_init (\<lambda>n. zero_node)" 1 7 300 False] settled_init [of "\<lambda>n. zero_node"] z
    by (auto simp: tm_init_def ticks_room_def)
  then show ?thesis
    using os_tm_change_moves_deadline [of c 1 0 300 False 5] by (fastforce simp: ticks_room_def)
qed

text \<open>\<open>os_tm_change\<close> with delay 0 links the timer into the slot of ring 0 that has just been
  handled, with no time left: the slot comes up again only after a whole turn of the ring, 256
  ticks later.\<close>

theorem os_tm_change_zero_misses_slot:
  assumes "settled c" and "ticks_room c" and "timer \<noteq> 0" and "tm_is_pending (nodes c timer)"
  shows "\<exists>c'. os_tm_change c timer 0 = Ret (0, c') \<and> tm_left c' (nodes c' timer) = 0
    \<and> timer \<in> set (r_list (ring c' 0) (unat (r_current (ring c' 0))))"
proof -
  define x where "x = nodes c timer"
  have ok: "timer_ok c x"
    using assms(1,4) by (simp add: wheel_ok_def nodes_ok_def x_def)
  have r0: "unat (r_current (ring c 0)) = unat (ticks c) mod 256"
    using assms(1) by (simp add: wheel_ok_def rings_ok_def)
  have left: "unat (tm_left c x) = deadline x - unat (ticks c)" and dl: "unat (ticks c) < deadline x"
    using timer_left [OF assms(2) ok] settled_deadline [OF assms(1,4)] by (simp_all add: x_def)
  have le: "unat (tm_left c x) \<le> unat (tn_expires x)"
    using left ok unfolding deadline_def timer_ok_def word_le_nat_alt by linarith
  define y where "y = tn_expires x - tm_left c x"
  have y: "unat y = unat (tn_expires x) - unat (tm_left c x)"
    unfolding y_def using le by (simp add: unat_sub word_le_nat_alt)
  define e where "e = upd_node timer (\<lambda>z. z\<lparr>tn_expires := y\<rparr>) (tm_remove c timer)"
  have e: "nodes e timer = x\<lparr>tn_flags := tn_flags x AND NOT TM_PENDING, tn_expires := y\<rparr>"
    "ticks e = ticks c" "r_current (ring e k) = r_current (ring c k)" for k
    by (simp_all add: e_def tm_remove_sel x_def)
  have "unat (tn_create x) \<le> unat (ticks c)"
    using ok by (simp add: timer_ok_def word_le_nat_alt)
  then have d: "deadline (nodes e timer) = unat (ticks c)"
    using y left le dl by (simp add: e deadline_def)
  have l0: "tm_left f z = 0" if "ticks f = ticks c" "deadline z = unat (ticks c)" "tn_create z = tn_create x" for f z
  proof -
    have "unat (tm_left f z) = deadline z - unat (ticks f)"
      using that ok assms(2) by (intro unat_tm_left) (simp_all add: timer_ok_def ticks_room_def)
    then show ?thesis
      using that by (simp add: word_zero_unat)
  qed
  have "tm_left e (nodes e timer) = 0"
    using d by (intro l0) (simp_all add: e)
  moreover have "unat (r_current (ring c 0) AND TM_MASK) = unat (r_current (ring c 0))"
    using r0 by (simp add: TM_MASK_def unat_and_255)
  ultimately have find: "tm_find_ring e (nodes e timer) = (0, unat (r_current (ring c 0)))"
    by (simp add: tm_find_ring_def e(3) tm_consts eval_nat_numeral)
  have "os_tm_change c timer 0 = Ret (0, tm_insert e timer)"
    using assms(3,4) by (simp add: os_tm_change_def Let_def e_def y_def x_def tm_remove_sel)
      (simp add: upd_node_def tm_remove_sel)
  moreover have "tm_left (tm_insert e timer) (nodes (tm_insert e timer) timer) = 0"
    using d by (intro l0) (simp_all add: tm_insert_sel [OF find] e deadline_def)
  ultimately show ?thesis
    by (simp add: tm_insert_sel [OF find] e(3))
qed

theorem os_tm_change_zero_misses_slot_witness:
  "\<exists>c c'. os_tm_change c 1 0 = Ret (0, c') \<and> tm_left c' (nodes c' 1) = 0
    \<and> 1 \<in> set (r_list (ring c' 0) (unat (r_current (ring c' 0))))"
proof -
  have z: "\<not> tm_is_pending zero_node"
    by (simp add: zero_node_def tm_is_pending_def os_hasflag_def tm_consts)
  obtain c where c: "settled c" "ticks c = 0" "armed c 1 = Some (0, 300, False)"
    using os_tm_insert_arms [of "tm_init (\<lambda>n. zero_node)" 1 7 300 False] settled_init [of "\<lambda>n. zero_node"] z
    by (auto simp: tm_init_def ticks_room_def)
  then have "tm_is_pending (nodes c 1)"
    by (auto simp: armed_def Let_def split: if_splits)
  then show ?thesis
    using os_tm_change_zero_misses_slot [of c 1] c(1,2) by (auto simp: ticks_room_def)
qed

end
