(* ===== verification/Os_Slice.thy ===== *)
theory Os_Slice
  imports Os_Base
begin

text \<open>
  The cursor buffers of \<open>autelan-lib/src/slice\<close>: a block of memory with a reserved part in front, the
  data and free space behind it, moved by \<open>pull\<close>, \<open>push\<close>, \<open>put\<close> and \<open>trim\<close> as the socket buffers of
  the Linux kernel are, and printed into with \<open>slice_sprintf\<close>.

  The block is the list of its bytes; a pointer into it is its distance from the start. A write
  outside the block is undefined: \<open>None\<close>. Inside, the result is an \<open>outcome\<close>, as everywhere. The
  \<open>int\<close> fields stay within the block's size, so they are plain integers; \<open>alloc n\<close> tells whether an
  allocation of \<open>n\<close> bytes succeeds.
\<close>

subsection \<open>The code\<close>

definition SLICE_STACK :: u32 where "SLICE_STACK = 1"
definition SLICE_F_GROW :: u32 where "SLICE_F_GROW = 1"
definition SLICE_GROW_DOUBLE_LIMIT :: int where "SLICE_GROW_DOUBLE_LIMIT = 256 * 1024"
definition SLICE_GROW_STEP :: int where "SLICE_GROW_STEP = 4 * 1024"

record slice =
  sl_flag :: u32
  sl_resv :: int
  sl_offset :: int
  sl_len :: int
  sl_size :: int
  sl_head :: "u8 list option"

definition slice_in_stack :: "slice \<Rightarrow> bool" where
  "slice_in_stack s = os_hasflag (sl_flag s) SLICE_STACK"

definition slice_is_clean :: "slice \<Rightarrow> bool" where
  "slice_is_clean s \<longleftrightarrow> 0 = sl_len s \<and> 0 = sl_size s \<and> 0 = sl_resv s \<and> sl_head s = None"

definition slice_is_empty :: "slice \<Rightarrow> bool" where
  "slice_is_empty s \<longleftrightarrow> sl_len s \<noteq> 0"

definition slice_SIZE :: "slice \<Rightarrow> int" where
  "slice_SIZE s = sl_size s + sl_resv s"

definition slice_remain :: "slice \<Rightarrow> int" where
  "slice_remain s = sl_size s - sl_len s"

definition slice_data :: "slice \<Rightarrow> int" where
  "slice_data s = sl_resv s"

definition slice_cookie :: "slice \<Rightarrow> int" where
  "slice_cookie s = slice_data s + sl_offset s"

definition slice_end :: "slice \<Rightarrow> int" where
  "slice_end s = slice_data s + sl_size s"

definition slice_tail :: "slice \<Rightarrow> int" where
  "slice_tail s = slice_data s + sl_len s"

definition slice_reinit :: "slice \<Rightarrow> int \<Rightarrow> int \<Rightarrow> bool \<Rightarrow> (int \<times> slice) outcome" where
  "slice_reinit s sz resv local =
     (if \<not> sz > 0 then Abort
      else if \<not> resv \<ge> 0 then Abort
      else if slice_is_clean s = False \<and> resv \<ge> sz then Ret (err EINVAL1, s)
      else Ret (0, s\<lparr>sl_flag := (if local then SLICE_STACK else 0), sl_len := 0, sl_size := sz - resv,
                     sl_resv := resv, sl_offset := 0\<rparr>))"

definition slice_init_resv :: "slice \<Rightarrow> u8 list \<Rightarrow> int \<Rightarrow> int \<Rightarrow> bool \<Rightarrow> slice outcome" where
  "slice_init_resv s data sz resv local =
     obind (slice_reinit (s\<lparr>sl_head := Some data\<rparr>) sz resv local) (\<lambda>(_, s). Ret s)"

definition slice_init :: "slice \<Rightarrow> u8 list \<Rightarrow> int \<Rightarrow> bool \<Rightarrow> slice outcome" where
  "slice_init s data sz local = slice_init_resv s data sz 0 local"

text \<open>\<open>os_memcpy\<close> to a position of the block.\<close>

definition poke :: "int \<Rightarrow> u8 list \<Rightarrow> slice \<Rightarrow> slice option" where
  "poke pos bs s = (case sl_head s of
      None \<Rightarrow> if bs = [] then Some s else None
    | Some buf \<Rightarrow>
        if bs = [] then Some s
        else if 0 \<le> pos \<and> pos + int (length bs) \<le> int (length buf)
        then Some (s\<lparr>sl_head := Some (take (nat pos) buf @ bs @ drop (nat pos + length bs) buf)\<rparr>)
        else None)"

definition slice_zero :: "slice \<Rightarrow> slice option" where
  "slice_zero s = map_option (sl_len_update (\<lambda>_. 0)) (poke (slice_data s) (replicate (nat (sl_size s)) 0) s)"

definition slice_alloc :: "(int \<Rightarrow> bool) \<Rightarrow> slice \<Rightarrow> int \<Rightarrow> (int \<times> slice) outcome" where
  "slice_alloc alloc s sz =
     (if \<not> alloc sz then Ret (err ENOMEM, s)
      else obind (slice_init s (replicate (nat sz) 0) sz False) (\<lambda>s. Ret (0, s)))"

definition slice_release :: "slice \<Rightarrow> u8 list option" where
  "slice_release s = sl_head s"

text \<open>\<open>None\<close> is a failed allocation; the copy takes the reserved part and the data.\<close>

definition slice_clone :: "(int \<Rightarrow> bool) \<Rightarrow> slice \<Rightarrow> slice option" where
  "slice_clone alloc src =
     (if \<not> alloc (slice_SIZE src) then None
      else let n = nat (sl_resv src + sl_len src);
               buf = take n (the (sl_head src)) @ replicate (nat (slice_SIZE src) - n) 0
           in Some (src\<lparr>sl_flag := sl_flag src AND NOT SLICE_STACK, sl_head := Some buf\<rparr>))"

text \<open>The bytes that \<open>realloc\<close> adds are \<open>fresh\<close>.\<close>

definition slice_grow :: "(int \<Rightarrow> bool) \<Rightarrow> u8 \<Rightarrow> slice \<Rightarrow> int \<Rightarrow> (int \<times> slice) outcome" where
  "slice_grow alloc fresh s grow =
     (let sz = slice_SIZE s
      in if slice_in_stack s then os_assert_value (err ENOSUPPORT, s)
         else
           let grow = (if grow < 0 then 0 else grow);
               grow = (if 0 = grow then (if sz < SLICE_GROW_DOUBLE_LIMIT then sz else SLICE_GROW_STEP) else grow)
           in if \<not> alloc (sz + grow) then Ret (err ENOMEM, s)
              else let old = (case sl_head s of None \<Rightarrow> [] | Some buf \<Rightarrow> buf)
                   in Ret (0, s\<lparr>sl_head := Some (old @ replicate (nat (sz + grow) - length old) fresh),
                            sl_size := sl_size s + grow\<rparr>))"

text \<open>The functions that move the cursors return a pointer, \<open>None\<close> for NULL.\<close>

definition slice_pull :: "slice \<Rightarrow> int \<Rightarrow> (int option \<times> slice) outcome" where
  "slice_pull s len =
     (if len < 0 then os_assert_value (None, s)
      else if sl_size s < len then os_assert_value (None, s)
      else if 0 \<noteq> sl_len s \<and> sl_len s < len then Ret (None, s)
      else let s = (if 0 = sl_len s then s else s\<lparr>sl_len := sl_len s - len\<rparr>);
               s = s\<lparr>sl_size := sl_size s - len, sl_resv := sl_resv s + len\<rparr>
           in Ret (Some (slice_data s), s))"

definition slice_push :: "slice \<Rightarrow> int \<Rightarrow> (int option \<times> slice) outcome" where
  "slice_push s len =
     (if len < 0 then os_assert_value (None, s)
      else if sl_resv s < len then os_assert_value (None, s)
      else let s = s\<lparr>sl_len := sl_len s + len, sl_size := sl_size s + len, sl_resv := sl_resv s - len\<rparr>
           in Ret (Some (slice_data s), s))"

definition slice_unpull :: "slice \<Rightarrow> (int option \<times> slice) outcome" where
  "slice_unpull s = slice_push s (sl_resv s)"

definition slice_put :: "slice \<Rightarrow> int \<Rightarrow> (int option \<times> slice) outcome" where
  "slice_put s len =
     (if len < 0 then os_assert_value (None, s)
      else if slice_remain s < len then os_assert_value (None, s)
      else let s = s\<lparr>sl_len := sl_len s + len\<rparr> in Ret (Some (slice_tail s), s))"

definition slice_trim :: "slice \<Rightarrow> int \<Rightarrow> (int option \<times> slice) outcome" where
  "slice_trim s len =
     (if len < 0 then os_assert_value (None, s)
      else if sl_len s < len then os_assert_value (None, s)
      else let s = s\<lparr>sl_len := sl_len s - len\<rparr> in Ret (Some (slice_tail s), s))"

definition slice_put_char :: "slice \<Rightarrow> int \<Rightarrow> (int option \<times> slice) outcome option" where
  "slice_put_char s ch = (case slice_put s 1 of
      Ret (Some new, s) \<Rightarrow> map_option (\<lambda>s. Ret (Some new, s)) (poke new [word_of_int ch] s)
    | r \<Rightarrow> Some r)"

text \<open>\<open>buf\<close> is what the pointer argument holds, \<open>None\<close> for NULL; it has at least \<open>len\<close> bytes.\<close>

definition slice_put_buf :: "slice \<Rightarrow> u8 list option \<Rightarrow> int \<Rightarrow> (int option \<times> slice) outcome option" where
  "slice_put_buf s buf len =
     (if len < 0 then Some (os_assert_value (None, s))
      else case buf of
        None \<Rightarrow> Some (os_assert_value (None, s))
      | Some b \<Rightarrow> (case poke (slice_tail s) (take (nat len) b) s of
            None \<Rightarrow> None
          | Some s \<Rightarrow> Some (slice_put s len)))"

text \<open>
  \<open>slice_vsprintf\<close> for a format that expands to \<open>out\<close>. \<open>vsnprintf\<close> with room for \<open>space\<close> bytes stores at
  most \<open>space - 1\<close> of them and a NUL, and returns the full length.
\<close>

definition slice_space :: "slice \<Rightarrow> int" where
  "slice_space s = (if slice_remain s > 0 then slice_remain s else 1)"

definition os_vsnprintf :: "slice \<Rightarrow> int \<Rightarrow> u8 list \<Rightarrow> slice option" where
  "os_vsnprintf s space out = poke (slice_tail s) (take (nat space - 1) out @ [0]) s"

function slice_vsprintf :: "(int \<Rightarrow> bool) \<Rightarrow> u8 \<Rightarrow> slice \<Rightarrow> u32 \<Rightarrow> u8 list \<Rightarrow> (int \<times> slice) outcome option" where
  "slice_vsprintf alloc fresh s flag out =
     (let space = slice_space s; len = int (length out)
      in case os_vsnprintf s space out of
           None \<Rightarrow> None
         | Some s \<Rightarrow>
             if space \<le> len then
               if os_hasflag flag SLICE_F_GROW
               then (case slice_grow alloc fresh s (len + 1 - space) of
                   Ret (e, s) \<Rightarrow> if 0 = e then slice_vsprintf alloc fresh s flag out else Some (Ret (len, s))
                 | Abort \<Rightarrow> Some Abort
                 | Hang \<Rightarrow> Some Hang)
               else Some (Ret (len, s))
             else (case slice_put s len of
                 Ret (p, s) \<Rightarrow> Some (Ret (len, s))
               | Abort \<Rightarrow> Some Abort
               | Hang \<Rightarrow> Some Hang))"
  by pat_completeness auto

lemma poke_fields:
  "poke pos bs s = Some s' \<Longrightarrow> sl_size s' = sl_size s \<and> sl_len s' = sl_len s \<and> sl_resv s' = sl_resv s
     \<and> sl_flag s' = sl_flag s \<and> sl_offset s' = sl_offset s"
  by (auto simp: poke_def split: option.splits if_splits)

lemma slice_grow_remain:
  "slice_grow alloc fresh s n = Ret (0, s') \<Longrightarrow> 0 < n \<Longrightarrow> slice_remain s' = slice_remain s + n"
  by (auto simp: slice_grow_def Let_def os_assert_value_def slice_remain_def split: if_splits)

termination slice_vsprintf
proof (relation "measure (\<lambda>(alloc, fresh, s, flag, out). nat (int (length out) + 1 - slice_remain s))", goal_cases)
  case 2
  then show ?case
    using poke_fields slice_grow_remain
    by (auto simp: os_vsnprintf_def slice_space_def split: if_splits) (fastforce simp: slice_remain_def)+
qed simp

text \<open>A NULL slice only measures.\<close>

definition slice_vsprintf_null :: "u8 list \<Rightarrow> int" where
  "slice_vsprintf_null out = int (length out)"

declare slice_vsprintf.simps [simp del]

subsection \<open>The slice rules\<close>

text \<open>
  The rules of the header: the block is as large as \<open>slice_SIZE\<close> says, the data lie inside. What the
  slice holds is the list of its data bytes.
\<close>

definition slice_ok :: "slice \<Rightarrow> bool" where
  "slice_ok s \<longleftrightarrow> 0 \<le> sl_resv s \<and> 0 \<le> sl_len s \<and> sl_len s \<le> sl_size s
    \<and> (\<exists>buf. sl_head s = Some buf \<and> int (length buf) = slice_SIZE s)"

definition slice_bytes :: "slice \<Rightarrow> u8 list" where
  "slice_bytes s = take (nat (sl_len s)) (drop (nat (sl_resv s)) (the (sl_head s)))"

text \<open>The three parts of the block: reserved, data, free.\<close>

lemma slice_okE:
  assumes "slice_ok s"
  obtains rs free where "sl_head s = Some (rs @ slice_bytes s @ free)" "sl_resv s = int (length rs)"
    "sl_len s = int (length (slice_bytes s))" "slice_remain s = int (length free)"
proof -
  obtain buf where buf: "sl_head s = Some buf" "int (length buf) = sl_size s + sl_resv s"
    using assms by (auto simp: slice_ok_def slice_SIZE_def)
  let ?r = "nat (sl_resv s)" and ?l = "nat (sl_len s)"
  have "buf = take ?r buf @ slice_bytes s @ drop ?l (drop ?r buf)"
    by (simp add: slice_bytes_def buf(1) del: drop_drop)
  moreover have "sl_resv s = int (length (take ?r buf))" "sl_len s = int (length (slice_bytes s))"
      "slice_remain s = int (length (drop ?l (drop ?r buf)))"
    using assms buf by (auto simp: slice_ok_def slice_bytes_def slice_remain_def min_def)
  ultimately show ?thesis
    using that buf(1) by metis
qed

lemma slice_ok_parts:
  assumes "sl_head s = Some (rs @ bs @ free)" "sl_resv s = int (length rs)" "sl_len s = int (length bs)" "slice_remain s = int (length free)"
  shows "slice_ok s" "slice_bytes s = bs"
proof -
  have "sl_size s = int (length bs) + int (length free)"
    using assms by (simp add: slice_remain_def)
  then show "slice_ok s" "slice_bytes s = bs"
    using assms by (simp_all add: slice_ok_def slice_SIZE_def slice_bytes_def)
qed

lemma poke_tail:
  assumes "slice_ok s" "int (length bs) \<le> slice_remain s"
  obtains s' rs free where "poke (slice_tail s) bs s = Some s'" "sl_head s' = Some (rs @ slice_bytes s @ bs @ drop (length bs) free)"
    "sl_resv s' = int (length rs)" "sl_len s' = int (length (slice_bytes s))" "slice_remain s' = int (length free)"
    "slice_ok s'" "slice_bytes s' = slice_bytes s" "sl_flag s' = sl_flag s"
proof -
  obtain rs free where h: "sl_head s = Some (rs @ slice_bytes s @ free)" "sl_resv s = int (length rs)"
    "sl_len s = int (length (slice_bytes s))" "slice_remain s = int (length free)"
    using assms(1) by (rule slice_okE)
  have t: "nat (slice_tail s) = length rs + length (slice_bytes s)" "slice_tail s = int (length rs) + int (length (slice_bytes s))"
    using h by (simp_all add: slice_tail_def slice_data_def nat_add_distrib)
  define s' where "s' = s\<lparr>sl_head := Some (rs @ slice_bytes s @ bs @ drop (length bs) free)\<rparr>"
  have p: "poke (slice_tail s) bs s = Some s'"
    using assms(2) h t by (simp add: poke_def s'_def)
  have f: "sl_resv s' = int (length rs)" "sl_len s' = int (length (slice_bytes s))" "slice_remain s' = int (length free)" "sl_flag s' = sl_flag s"
    using h by (simp_all add: s'_def slice_remain_def)
  have "slice_ok s'" "slice_bytes s' = slice_bytes s"
    using slice_ok_parts [of s' rs "slice_bytes s" "bs @ drop (length bs) free"] f assms(2) h(4) by (simp_all add: s'_def)
  then show ?thesis
    using that [of s' rs free] p f by (simp add: s'_def)
qed

lemma slice_put_buf_appends:
  assumes "slice_ok s" "int (length b) \<le> slice_remain s"
  shows "\<exists>p s'. slice_put_buf s (Some b) (int (length b)) = Some (Ret (p, s')) \<and> slice_ok s' \<and> slice_bytes s' = slice_bytes s @ b
    \<and> slice_remain s' = slice_remain s - int (length b)"
proof -
  obtain s1 rs free where 1: "poke (slice_tail s) b s = Some s1" "sl_head s1 = Some (rs @ slice_bytes s @ b @ drop (length b) free)"
    "sl_resv s1 = int (length rs)" "sl_len s1 = int (length (slice_bytes s))" "slice_remain s1 = int (length free)"
    using poke_tail [OF assms] by metis
  have r: "slice_remain s1 = slice_remain s"
    using poke_fields [OF 1(1)] by (simp add: slice_remain_def)
  let ?s = "s1\<lparr>sl_len := sl_len s1 + int (length b)\<rparr>"
  have "slice_put_buf s (Some b) (int (length b)) = Some (Ret (Some (slice_tail ?s), ?s))"
    using 1 assms(2) r by (simp add: slice_put_buf_def slice_put_def Let_def)
  moreover have "slice_ok ?s" "slice_bytes ?s = slice_bytes s @ b"
    using slice_ok_parts [of ?s rs "slice_bytes s @ b" "drop (length b) free"] 1 assms(2) r by (simp_all add: slice_remain_def)
  ultimately show ?thesis
    using r by (auto simp: slice_remain_def)
qed

lemma slice_pull_drops:
  assumes "slice_ok s" "n \<le> length (slice_bytes s)"
  shows "\<exists>p s'. slice_pull s (int n) = Ret (p, s') \<and> slice_ok s' \<and> slice_bytes s' = drop n (slice_bytes s) \<and> slice_remain s' = slice_remain s
    \<and> sl_resv s' = sl_resv s + int n"
proof -
  obtain rs free where h: "sl_head s = Some (rs @ slice_bytes s @ free)" "sl_resv s = int (length rs)"
    "sl_len s = int (length (slice_bytes s))" "slice_remain s = int (length free)"
    using assms(1) by (rule slice_okE)
  let ?s = "s\<lparr>sl_len := sl_len s - int n, sl_size := sl_size s - int n, sl_resv := sl_resv s + int n\<rparr>"
  have "slice_pull s (int n) = Ret (Some (slice_data ?s), ?s)"
    using h assms(2) by (auto simp: slice_pull_def Let_def slice_remain_def slice_data_def)
  moreover have "slice_ok ?s" "slice_bytes ?s = drop n (slice_bytes s)"
    using slice_ok_parts [of ?s "rs @ take n (slice_bytes s)" "drop n (slice_bytes s)" free] h assms(2)
    by (simp_all add: slice_remain_def flip: append_assoc [of "take n _" "drop n _" free])
  ultimately show ?thesis
    by (auto simp: slice_remain_def)
qed

lemma slice_trim_takes:
  assumes "slice_ok s" "n \<le> length (slice_bytes s)"
  shows "\<exists>p s'. slice_trim s (int n) = Ret (p, s') \<and> slice_ok s' \<and> slice_bytes s' = take (length (slice_bytes s) - n) (slice_bytes s)
    \<and> slice_remain s' = slice_remain s + int n"
proof -
  obtain rs free where h: "sl_head s = Some (rs @ slice_bytes s @ free)" "sl_resv s = int (length rs)"
    "sl_len s = int (length (slice_bytes s))" "slice_remain s = int (length free)"
    using assms(1) by (rule slice_okE)
  let ?m = "length (slice_bytes s) - n"
  let ?s = "s\<lparr>sl_len := sl_len s - int n\<rparr>"
  have "slice_trim s (int n) = Ret (Some (slice_tail ?s), ?s)"
    using h assms(2) by (auto simp: slice_trim_def Let_def)
  moreover have "slice_ok ?s" "slice_bytes ?s = take ?m (slice_bytes s)"
    using slice_ok_parts [of ?s rs "take ?m (slice_bytes s)" "drop ?m (slice_bytes s) @ free"] h assms(2)
    by (simp_all add: slice_remain_def flip: append_assoc [of "take ?m _" "drop ?m _" free])
  ultimately show ?thesis
    by (auto simp: slice_remain_def)
qed

text \<open>\<open>slice_push\<close> takes back what \<open>slice_pull\<close> removed.\<close>

lemma slice_pull_push:
  assumes "slice_ok s" "n \<le> length (slice_bytes s)" "slice_pull s (int n) = Ret (p, s')"
  shows "slice_push s' (int n) = Ret (Some (slice_data s), s)"
proof -
  have "sl_len s = int (length (slice_bytes s))" "0 \<le> sl_resv s"
    using slice_okE [OF assms(1)] by (metis, metis of_nat_0_le_iff)
  then show ?thesis
    using assms(2,3) by (auto simp: slice_pull_def slice_push_def Let_def os_assert_value_def slice_data_def split: if_splits)
qed

subsection \<open>The slice as a list of bytes\<close>

datatype slice_op = Put_buf "u8 list" | Pull nat | Trim nat

text \<open>The operations on a slice, and on the list of its bytes with the room behind it.\<close>

fun slice_do :: "slice_op \<Rightarrow> slice \<Rightarrow> (int option \<times> slice) outcome option" where
  "slice_do (Put_buf b) s = slice_put_buf s (Some b) (int (length b))"
| "slice_do (Pull n) s = Some (slice_pull s (int n))"
| "slice_do (Trim n) s = Some (slice_trim s (int n))"

fun slice_run :: "slice_op list \<Rightarrow> slice \<Rightarrow> slice outcome option" where
  "slice_run [] s = Some (Ret s)"
| "slice_run (c # cs) s = (case slice_do c s of
      Some (Ret (p, s)) \<Rightarrow> slice_run cs s
    | Some Abort \<Rightarrow> Some Abort
    | Some Hang \<Rightarrow> Some Hang
    | None \<Rightarrow> None)"

fun bytes_do :: "slice_op \<Rightarrow> nat \<times> u8 list \<Rightarrow> (nat \<times> u8 list) option" where
  "bytes_do (Put_buf b) (room, bs) = (if length b \<le> room then Some (room - length b, bs @ b) else None)"
| "bytes_do (Pull n) (room, bs) = (if n \<le> length bs then Some (room, drop n bs) else None)"
| "bytes_do (Trim n) (room, bs) = (if n \<le> length bs then Some (room + n, take (length bs - n) bs) else None)"

fun bytes_run :: "slice_op list \<Rightarrow> nat \<times> u8 list \<Rightarrow> (nat \<times> u8 list) option" where
  "bytes_run [] x = Some x"
| "bytes_run (c # cs) x = Option.bind (bytes_do c x) (bytes_run cs)"

definition slice_abs :: "slice \<Rightarrow> nat \<times> u8 list" where
  "slice_abs s = (nat (slice_remain s), slice_bytes s)"

lemma slice_do_refines:
  assumes "slice_ok s" "bytes_do c (slice_abs s) = Some x"
  shows "\<exists>p s'. slice_do c s = Some (Ret (p, s')) \<and> slice_ok s' \<and> slice_abs s' = x"
proof (cases c)
  case (Put_buf b)
  then have "int (length b) \<le> slice_remain s" "x = (nat (slice_remain s) - length b, slice_bytes s @ b)"
    using assms by (auto simp: slice_abs_def slice_ok_def slice_remain_def split: if_splits)
  then show ?thesis
    using slice_put_buf_appends [OF assms(1), of b] Put_buf by (auto simp: slice_abs_def nat_diff_distrib)
next
  case (Pull n)
  then show ?thesis
    using slice_pull_drops [OF assms(1), of n] assms(2) by (auto simp: slice_abs_def split: if_splits)
next
  case (Trim n)
  then show ?thesis
    using slice_trim_takes [OF assms(1), of n] assms by (auto simp: slice_abs_def slice_ok_def slice_remain_def split: if_splits)
qed

text \<open>C35: a slice is a list of bytes with room behind it. Every sequence of \<open>slice_put_buf\<close>, \<open>slice_pull\<close> and \<open>slice_trim\<close>
  that the list of bytes allows runs on the slice without an abort and without a write outside the block, keeps the
  slice rules, and ends with exactly the bytes and the room of the list.\<close>

theorem slice_refines_bytes:
  assumes "slice_ok s" and "bytes_run cs (slice_abs s) = Some x"
  shows "\<exists>s'. slice_run cs s = Some (Ret s') \<and> slice_ok s' \<and> slice_abs s' = x"
  using assms
proof (induction cs arbitrary: s)
  case (Cons c cs)
  then obtain y where "bytes_do c (slice_abs s) = Some y" "bytes_run cs y = Some x"
    by (auto simp: bind_eq_Some_conv)
  then show ?case
    using slice_do_refines [OF Cons.prems(1), of c y] Cons.IH by auto
qed simp

definition sample_slice :: slice where
  "sample_slice = \<lparr>sl_flag = 0, sl_resv = 2, sl_offset = 0, sl_len = 0, sl_size = 6, sl_head = Some (replicate 8 0)\<rparr>"

lemma sample_slice_ok: "slice_ok sample_slice" "slice_abs sample_slice = (6, [])"
  by (simp_all add: sample_slice_def slice_ok_def slice_SIZE_def slice_abs_def slice_remain_def slice_bytes_def)

theorem slice_refines_bytes_witness:
  "\<exists>s'. slice_run [Put_buf [1, 2, 3, 4], Pull 1, Trim 2] sample_slice = Some (Ret s') \<and> slice_ok s' \<and> slice_abs s' = (4, [2])"
  by (rule slice_refines_bytes [OF sample_slice_ok(1)]) (simp add: sample_slice_ok(2))

subsection \<open>Printing into a slice\<close>

lemma slice_grow_heap:
  assumes "slice_ok s" "\<not> slice_in_stack s" "0 < n" "\<And>k. alloc k"
  shows "\<exists>s'. slice_grow alloc fresh s n = Ret (0, s') \<and> slice_ok s' \<and> slice_bytes s' = slice_bytes s
    \<and> slice_remain s' = slice_remain s + n \<and> sl_flag s' = sl_flag s"
proof -
  obtain rs free where h: "sl_head s = Some (rs @ slice_bytes s @ free)" "sl_resv s = int (length rs)"
    "sl_len s = int (length (slice_bytes s))" "slice_remain s = int (length free)"
    using assms(1) by (rule slice_okE)
  let ?new = "replicate (nat (slice_SIZE s + n) - length (rs @ slice_bytes s @ free)) fresh"
  let ?s = "s\<lparr>sl_head := Some (rs @ slice_bytes s @ free @ ?new), sl_size := sl_size s + n\<rparr>"
  have g: "slice_grow alloc fresh s n = Ret (0, ?s)"
    using assms(2-4) h(1) by (simp add: slice_grow_def Let_def)
  have "slice_SIZE s = int (length rs) + int (length (slice_bytes s)) + int (length free)"
    using h by (simp add: slice_SIZE_def slice_remain_def)
  then have "int (length ?new) = n"
    using assms(3) by (simp add: nat_add_distrib)
  then have "slice_ok ?s" "slice_bytes ?s = slice_bytes s"
    using slice_ok_parts [of ?s rs "slice_bytes s" "free @ ?new"] h by (simp_all add: slice_remain_def)
  then show ?thesis
    using g by (auto simp: slice_remain_def)
qed

lemma slice_vsprintf_fits:
  assumes "slice_ok s" "int (length out) < slice_remain s"
  shows "\<exists>s'. slice_vsprintf alloc fresh s flag out = Some (Ret (int (length out), s')) \<and> slice_ok s' \<and> slice_bytes s' = slice_bytes s @ out"
proof -
  have sp: "slice_space s = slice_remain s" "take (nat (slice_remain s) - 1) out = out"
    using assms(2) by (auto simp: slice_space_def)
  obtain s1 rs free where 1: "poke (slice_tail s) (out @ [0]) s = Some s1"
    "sl_head s1 = Some (rs @ slice_bytes s @ (out @ [0]) @ drop (length (out @ [0])) free)"
    "sl_resv s1 = int (length rs)" "sl_len s1 = int (length (slice_bytes s))" "slice_remain s1 = int (length free)"
    using poke_tail [OF assms(1), of "out @ [0]"] assms(2) by (metis length_append_singleton of_nat_Suc zless_imp_add1_zle add.commute)
  have r: "slice_remain s1 = slice_remain s"
    using poke_fields [OF 1(1)] by (simp add: slice_remain_def)
  let ?s = "s1\<lparr>sl_len := sl_len s1 + int (length out)\<rparr>"
  have "slice_put s1 (int (length out)) = Ret (Some (slice_tail ?s), ?s)"
    using assms(2) r by (simp add: slice_put_def Let_def)
  then have "slice_vsprintf alloc fresh s flag out = Some (Ret (int (length out), ?s))"
    using assms(2) by (subst slice_vsprintf.simps) (simp add: Let_def sp os_vsnprintf_def 1(1))
  moreover have "slice_ok ?s" "slice_bytes ?s = slice_bytes s @ out"
    using slice_ok_parts [of ?s rs "slice_bytes s @ out" "0 # drop (length (out @ [0])) free"] 1 assms(2) r by (simp_all add: slice_remain_def)
  ultimately show ?thesis
    by auto
qed

text \<open>Printing into a growing slice never truncates. On a slice in the heap with at least one free byte,
  \<open>slice_vsprintf\<close> with \<open>SLICE_F_GROW\<close> and enough memory returns, having grown the block if it had to: it reports the length of
  the text, the slice rules hold, and the text stands complete behind the old data.\<close>

theorem slice_vsprintf_grows:
  assumes "slice_ok s" and "\<not> slice_in_stack s" and "0 < slice_remain s" and "os_hasflag flag SLICE_F_GROW" and "\<And>n. alloc n"
  shows "\<exists>s'. slice_vsprintf alloc fresh s flag out = Some (Ret (int (length out), s')) \<and> slice_ok s' \<and> slice_bytes s' = slice_bytes s @ out"
proof (cases "int (length out) < slice_remain s")
  case True
  then show ?thesis
    using slice_vsprintf_fits [OF assms(1)] by blast
next
  case False
  let ?n = "int (length out) + 1 - slice_remain s"
  have sp: "slice_space s = slice_remain s"
    using assms(3) by (simp add: slice_space_def)
  have "int (length (take (nat (slice_remain s) - 1) out @ [0])) \<le> slice_remain s"
    using assms(3) by simp
  then obtain s1 where 1: "poke (slice_tail s) (take (nat (slice_remain s) - 1) out @ [0]) s = Some s1" "slice_ok s1"
      "slice_bytes s1 = slice_bytes s" "sl_flag s1 = sl_flag s"
    by (rule poke_tail [OF assms(1)]) simp
  have r: "slice_remain s1 = slice_remain s" "\<not> slice_in_stack s1"
    using poke_fields [OF 1(1)] assms(2) 1(4) by (simp_all add: slice_remain_def slice_in_stack_def)
  obtain s2 where 2: "slice_grow alloc fresh s1 ?n = Ret (0, s2)" "slice_ok s2" "slice_bytes s2 = slice_bytes s" "slice_remain s2 = int (length out) + 1"
    using slice_grow_heap [OF 1(2) r(2), of ?n alloc fresh] False assms(5) r(1) 1(3) by auto
  have "slice_vsprintf alloc fresh s flag out = slice_vsprintf alloc fresh s2 flag out"
    using False assms(4) 2(1) by (subst slice_vsprintf.simps) (simp add: Let_def sp os_vsnprintf_def 1(1) [unfolded One_nat_def])
  then show ?thesis
    using slice_vsprintf_fits [OF 2(2), of out alloc fresh flag] 2(3,4) by simp
qed

theorem slice_vsprintf_grows_witness:
  "\<exists>s'. slice_vsprintf (\<lambda>_. True) 0 sample_slice SLICE_F_GROW (replicate 20 65) = Some (Ret (20, s'))
    \<and> slice_bytes s' = replicate 20 65"
proof -
  have "\<not> slice_in_stack sample_slice" "0 < slice_remain sample_slice" "os_hasflag SLICE_F_GROW SLICE_F_GROW" "slice_bytes sample_slice = []"
    by (simp_all add: slice_in_stack_def sample_slice_def os_hasflag_def SLICE_STACK_def slice_remain_def slice_bytes_def)
  then show ?thesis
    using slice_vsprintf_grows [OF sample_slice_ok(1), of SLICE_F_GROW "\<lambda>_. True" 0 "replicate 20 65"] by auto
qed

text \<open>A full slice: the terminator of the first attempt lands behind the block.\<close>

lemma slice_vsprintf_full:
  assumes "slice_ok s" "slice_remain s = 0"
  shows "slice_vsprintf alloc fresh s flag out = None"
proof -
  obtain rs free where "sl_head s = Some (rs @ slice_bytes s @ free)" "sl_resv s = int (length rs)"
    "sl_len s = int (length (slice_bytes s))" "slice_remain s = int (length free)"
    using assms(1) by (rule slice_okE)
  then have "os_vsnprintf s (slice_space s) out = None"
    using assms(2) by (simp add: os_vsnprintf_def slice_space_def poke_def slice_tail_def slice_data_def)
  then show ?thesis
    by (subst slice_vsprintf.simps) (simp add: Let_def)
qed

text \<open>\<open>slice_put_char\<close> does not store the character in the slice. It writes it one byte behind the new data, which keep
  whatever stood at the old tail; with one free byte left the write is outside the block.\<close>

theorem slice_put_char_misplaces:
  assumes "slice_ok s" and "0 < slice_remain s"
  shows "if slice_remain s = 1 then slice_put_char s ch = None
    else \<exists>p s'. slice_put_char s ch = Some (Ret (Some p, s')) \<and> slice_ok s' \<and> p = slice_tail s'
      \<and> slice_bytes s' = slice_bytes s @ [the (sl_head s) ! nat (slice_tail s)]"
proof -
  obtain rs free where h: "sl_head s = Some (rs @ slice_bytes s @ free)" "sl_resv s = int (length rs)"
    "sl_len s = int (length (slice_bytes s))" "slice_remain s = int (length free)"
    using assms(1) by (rule slice_okE)
  obtain x free' where f: "free = x # free'"
    using assms(2) h(4) by (cases free) auto
  let ?s = "s\<lparr>sl_len := sl_len s + 1\<rparr>"
  have put: "slice_put s 1 = Ret (Some (slice_tail ?s), ?s)"
    using assms(2) by (simp add: slice_put_def Let_def)
  have ok: "slice_ok ?s" "slice_bytes ?s = slice_bytes s @ [x]"
    using slice_ok_parts [of ?s rs "slice_bytes s @ [x]" free'] h f by (simp_all add: slice_remain_def)
  have x: "the (sl_head s) ! nat (slice_tail s) = x"
    using h f by (simp add: slice_tail_def slice_data_def nat_add_distrib nth_append)
  show ?thesis
  proof (cases free')
    case Nil
    then have "poke (slice_tail ?s) [word_of_int ch] ?s = None"
      using h f by (simp add: poke_def slice_tail_def slice_data_def)
    then show ?thesis
      using put h(4) f Nil by (simp add: slice_put_char_def)
  next
    case (Cons y ys)
    then have "int (length [word_of_int ch :: u8]) \<le> slice_remain ?s"
      using h(4) f by (simp add: slice_remain_def)
    then obtain s' where s': "poke (slice_tail ?s) [word_of_int ch] ?s = Some s'" "slice_ok s'" "slice_bytes s' = slice_bytes ?s"
      by (rule poke_tail [OF ok(1)]) simp
    have "slice_tail s' = slice_tail ?s"
      using poke_fields [OF s'(1)] by (simp add: slice_tail_def slice_data_def)
    then show ?thesis
      using put s' ok(2) x h(4) f Cons by (auto simp: slice_put_char_def)
  qed
qed

theorem slice_put_char_misplaces_witness:
  "\<exists>p s'. slice_put_char sample_slice 65 = Some (Ret (Some p, s')) \<and> slice_bytes s' = [0]"
proof -
  have "0 < slice_remain sample_slice" "slice_remain sample_slice \<noteq> 1" "slice_bytes sample_slice = []"
      "the (sl_head sample_slice) ! nat (slice_tail sample_slice) = 0"
    by (simp_all add: sample_slice_def slice_remain_def slice_bytes_def slice_tail_def slice_data_def numeral_eq_Suc)
  then show ?thesis
    using slice_put_char_misplaces [OF sample_slice_ok(1), of 65] by auto
qed

end
