(* ===== verification/Os_Autoarray.thy ===== *)
theory Os_Autoarray
  imports Os_Base
begin

text \<open>
  The growing array of \<open>utils/autoarray.h\<close>. An item is the list of its \<open>size\<close> bytes, so the array's
  memory is the list of its items; \<open>init\<close> is what the callback makes of an item, \<open>None\<close> for a NULL
  callback; \<open>aa_clean\<close> tells whether there is a clean-up callback. A pointer to an item is its index. \<open>alloc n\<close> tells whether an allocation of \<open>n\<close> bytes
  succeeds, and the items that \<open>realloc\<close> adds hold \<open>fresh\<close> bytes.
\<close>

subsection \<open>The code\<close>

record atuoarray =
  aa_base :: "u8 list list option"
  aa_size :: int
  aa_count :: int
  aa_limit :: int
  aa_grow :: int
  aa_init :: "(u8 list \<Rightarrow> u8 list) option"
  aa_clean :: bool

definition os_aa_item :: "atuoarray \<Rightarrow> int \<Rightarrow> int option" where
  "os_aa_item aa idx = (if idx < aa_count aa then Some idx else None)"

definition os_aa_grow_to :: "(int \<Rightarrow> bool) \<Rightarrow> u8 list \<Rightarrow> atuoarray \<Rightarrow> int \<Rightarrow> int \<times> atuoarray" where
  "os_aa_grow_to alloc fresh aa count =
     (let old = aa_count aa; grow = count - old
      in if grow \<le> 0 then (0, aa)
         else if aa_limit aa \<noteq> 0 \<and> count > aa_limit aa then (err ESPIPE, aa)
         else if \<not> alloc (aa_size aa * count) then (err ENOMEM, aa\<lparr>aa_base := None\<rparr>)
         else let new = (case aa_init aa of
                    Some f \<Rightarrow> replicate (nat grow) (f fresh)
                  | None \<Rightarrow> replicate (nat grow) (replicate (nat (aa_size aa)) 0))
              in (0, aa\<lparr>aa_base := Some (the (aa_base aa) @ new), aa_count := count\<rparr>))"

text \<open>\<open>os_aa_grow1\<close> is \<open>__os_aa_grow\<close>: one step of the configured size.\<close>

definition os_aa_grow1 :: "(int \<Rightarrow> bool) \<Rightarrow> u8 list \<Rightarrow> atuoarray option \<Rightarrow> (int \<times> atuoarray) outcome" where
  "os_aa_grow1 alloc fresh aao = (case aao of
      None \<Rightarrow> Abort
    | Some aa \<Rightarrow>
        let count = aa_count aa + aa_grow aa
        in if aa_limit aa \<noteq> 0 then
             if aa_count aa = aa_limit aa then Ret (err ESPIPE, aa)
             else Ret (os_aa_grow_to alloc fresh aa (if count > aa_limit aa then aa_limit aa else count))
           else Ret (os_aa_grow_to alloc fresh aa count))"

definition os_aa_init :: "(int \<Rightarrow> bool) \<Rightarrow> atuoarray option \<Rightarrow> int \<Rightarrow> int \<Rightarrow> int \<Rightarrow> int \<Rightarrow> (u8 list \<Rightarrow> u8 list) option
    \<Rightarrow> bool \<Rightarrow> (int \<times> atuoarray) outcome" where
  "os_aa_init alloc aao sz count limit grow init clean = (case aao of
      None \<Rightarrow> Abort
    | Some aa \<Rightarrow>
       if sz \<le> 0 then os_assert_value (err EINVAL1, aa)
       else if count \<le> 0 then os_assert_value (err EINVAL2, aa)
       else if limit < 0 then os_assert_value (err EINVAL3, aa)
       else if limit \<noteq> 0 \<and> count > limit then os_assert_value (err EINVAL4, aa)
       else if grow < 0 then os_assert_value (err EINVAL5, aa)
       else
         let aa = aa\<lparr>aa_size := sz, aa_count := count, aa_limit := limit, aa_grow := grow, aa_init := init, aa_clean := clean\<rparr>
         in if \<not> alloc (count * sz) then Ret (err ENOMEM, aa\<lparr>aa_base := None\<rparr>)
            else let item = replicate (nat sz) 0;
                     item = (case init of None \<Rightarrow> item | Some f \<Rightarrow> f item)
                 in Ret (0, aa\<lparr>aa_base := Some (replicate (nat count) item)\<rparr>))"

definition os_aa_get :: "(int \<Rightarrow> bool) \<Rightarrow> u8 list \<Rightarrow> atuoarray option \<Rightarrow> int \<Rightarrow> bool \<Rightarrow> (int option \<times> atuoarray) outcome" where
  "os_aa_get alloc fresh aao idx grow = (case aao of
      None \<Rightarrow> Abort
    | Some aa \<Rightarrow>
       if idx < 0 then os_assert_value (None, aa)
       else (case os_aa_item aa idx of
         Some p \<Rightarrow> Ret (Some p, aa)
       | None \<Rightarrow>
          if grow \<and> aa_grow aa \<noteq> 0
          then (case os_aa_grow_to alloc fresh aa idx of
              (e, aa) \<Rightarrow> Ret (if 0 = e then os_aa_item aa idx else None, aa))
          else Ret (None, aa)))"

text \<open>The items the \<open>clean\<close> callback sees before the memory is freed.\<close>

definition os_aa_clean :: "atuoarray option \<Rightarrow> u8 list list" where
  "os_aa_clean aao = (case aao of
      None \<Rightarrow> []
    | Some aa \<Rightarrow> if aa_clean aa then take (nat (aa_count aa)) (the (aa_base aa)) else [])"

definition os_aa_count :: "atuoarray option \<Rightarrow> int outcome" where
  "os_aa_count aao = (case aao of None \<Rightarrow> os_assert_value 0 | Some aa \<Rightarrow> Ret (aa_count aa))"

subsection \<open>Growing\<close>

definition aa_ok :: "atuoarray \<Rightarrow> bool" where
  "aa_ok aa \<longleftrightarrow> 0 < aa_size aa \<and> 0 < aa_count aa \<and> 0 \<le> aa_limit aa \<and> 0 \<le> aa_grow aa
    \<and> (aa_limit aa \<noteq> 0 \<longrightarrow> aa_count aa \<le> aa_limit aa)
    \<and> (case aa_base aa of None \<Rightarrow> False | Some items \<Rightarrow> int (length items) = aa_count aa)"

lemma os_aa_init_ok: "os_aa_init alloc (Some aa) sz count limit grow f c = Ret (0, aa') \<Longrightarrow> aa_ok aa' \<and> aa_count aa' = count"
  by (auto simp: os_aa_init_def os_assert_value_def Let_def aa_ok_def split: if_splits)

lemma os_aa_grow_to_ok:
  assumes "aa_ok aa"
  shows "if count \<le> aa_count aa then os_aa_grow_to alloc fresh aa count = (0, aa)
    else if aa_limit aa \<noteq> 0 \<and> count > aa_limit aa then os_aa_grow_to alloc fresh aa count = (err ESPIPE, aa)
    else if alloc (aa_size aa * count) then \<exists>aa' new. os_aa_grow_to alloc fresh aa count = (0, aa') \<and> aa_ok aa' \<and> aa_count aa' = count
      \<and> aa_base aa' = Some (the (aa_base aa) @ new) \<and> aa_grow aa' = aa_grow aa
    else os_aa_grow_to alloc fresh aa count = (err ENOMEM, aa\<lparr>aa_base := None\<rparr>)"
  using assms by (auto simp: os_aa_grow_to_def Let_def aa_ok_def split: option.splits)

text \<open>\<open>os_aa_get\<close> never hands out a new item. For an index inside the array it returns that item and changes nothing. For any
  other index it returns NULL, whether or not it is asked to grow: it grows the array to \<open>idx\<close> items, one too few,
  and then looks again. A failed allocation loses the whole array.\<close>

theorem os_aa_get_never_grows_enough:
  assumes "aa_ok aa" and "0 \<le> idx"
  shows "if idx < aa_count aa then os_aa_get alloc fresh (Some aa) idx grow = Ret (Some idx, aa)
    else \<exists>aa'. os_aa_get alloc fresh (Some aa) idx grow = Ret (None, aa')
      \<and> (\<not> grow \<or> aa_grow aa = 0 \<or> idx = aa_count aa \<or> aa_limit aa \<noteq> 0 \<and> idx > aa_limit aa \<longrightarrow> aa' = aa)
      \<and> (grow \<and> aa_grow aa \<noteq> 0 \<and> aa_count aa < idx \<and> (aa_limit aa = 0 \<or> idx \<le> aa_limit aa)
           \<longrightarrow> (if alloc (aa_size aa * idx) then aa_ok aa' \<and> aa_count aa' = idx else aa_base aa' = None))"
proof (cases "idx < aa_count aa")
  case True
  then show ?thesis
    using assms(2) by (simp add: os_aa_get_def os_aa_item_def)
next
  case False
  then have item: "os_aa_item aa idx = None"
    by (simp add: os_aa_item_def)
  show ?thesis
    using False assms(2) item os_aa_grow_to_ok [OF assms(1), of idx alloc fresh]
    by (cases "grow \<and> aa_grow aa \<noteq> 0") (auto simp: os_aa_get_def os_aa_item_def split: if_splits)
qed

definition sample_aa :: atuoarray where
  "sample_aa = \<lparr>aa_base = Some [[1], [2]], aa_size = 1, aa_count = 2, aa_limit = 0, aa_grow = 4, aa_init = None, aa_clean = False\<rparr>"

theorem os_aa_get_never_grows_enough_witness:
  "\<exists>aa'. os_aa_get (\<lambda>_. True) [0] (Some sample_aa) 5 True = Ret (None, aa') \<and> aa_count aa' = 5"
proof -
  have "aa_ok sample_aa" "aa_count sample_aa = 2" "aa_limit sample_aa = 0" "aa_grow sample_aa = 4"
    by (simp_all add: sample_aa_def aa_ok_def)
  then show ?thesis
    using os_aa_get_never_grows_enough [of sample_aa 5 "\<lambda>_. True" "[0]" True] by auto
qed

end
