(* ===== verification/Os_Cmd.thy ===== *)
theory Os_Cmd
  imports Os_Base
begin

text \<open>
  The command-line dispatcher of \<open>utils/cmd.h\<close>. Arguments are byte strings; \<open>argv\<close> includes the
  program name. A command's function is a value of any type \<open>'f\<close>: \<open>os_do_command\<close> either selects one or
  shows the help and returns \<open>-EFORMAT\<close>.
\<close>

subsection \<open>The code\<close>

definition asc :: "string \<Rightarrow> u8 list" where
  "asc s = map of_char s"

definition COMMAND_COUNT :: nat where "COMMAND_COUNT = 64"
definition COMMAND_F_HIDE :: u32 where "COMMAND_F_HIDE = 1"
definition COMMAND_MASK_ALL :: u32 where "COMMAND_MASK_ALL = 0xffffffff"

record 'f command_item =
  ci_count :: nat
  ci_list :: "u8 list list"
  ci_func :: 'f
  ci_flag :: u32
  ci_mask :: u32

record 'f command_ctrl =
  cc_cmd :: "'f command_item list"
  cc_is_use_mask :: bool
  cc_bit :: nat

definition command_list_count :: "'f command_item \<Rightarrow> nat" where
  "command_list_count cmd = min COMMAND_COUNT (length (ci_list cmd))"

definition command_init_one :: "'f command_ctrl \<Rightarrow> 'f command_item \<Rightarrow> 'f command_item" where
  "command_init_one ctrl cmd = cmd\<lparr>ci_count := command_list_count cmd,
     ci_mask := (if cc_is_use_mask ctrl \<and> 0 = ci_mask cmd then COMMAND_MASK_ALL else ci_mask cmd)\<rparr>"

definition command_init :: "'f command_ctrl \<Rightarrow> 'f command_ctrl" where
  "command_init ctrl = ctrl\<lparr>cc_cmd := map (command_init_one ctrl) (cc_cmd ctrl)\<rparr>"

definition is_command_used :: "'f command_ctrl \<Rightarrow> 'f command_item \<Rightarrow> bool" where
  "is_command_used ctrl cmd \<longleftrightarrow> cc_is_use_mask ctrl = False \<or> os_hasbit (ci_mask cmd) (cc_bit ctrl)"

definition is_command_hide :: "'f command_item \<Rightarrow> bool" where
  "is_command_hide cmd = os_hasflag (ci_flag cmd) COMMAND_F_HIDE"

text \<open>The commands \<open>__commond_help\<close> prints.\<close>

definition commond_help :: "'f command_ctrl \<Rightarrow> bool \<Rightarrow> 'f command_item list" where
  "commond_help ctrl show_hide =
     filter (\<lambda>cmd. is_command_used ctrl cmd \<and> \<not> (is_command_hide cmd \<and> show_hide = False)) (cc_cmd ctrl)"

text \<open>The loop of \<open>__command_match\<close> over the words of the command and the arguments after the name.\<close>

fun command_match_loop :: "u8 list list \<Rightarrow> u8 list list \<Rightarrow> bool" where
  "command_match_loop (w # ws) (a # as) =
     (if take 1 w \<noteq> [45] then command_match_loop ws as
      else if a \<noteq> w then False
      else command_match_loop ws as)"
| "command_match_loop _ _ = True"

definition command_match :: "u8 list list \<Rightarrow> 'f command_ctrl \<Rightarrow> 'f command_item \<Rightarrow> bool" where
  "command_match argv ctrl cmd =
     (if length argv - 1 \<noteq> ci_count cmd then False
      else if is_command_used ctrl cmd = False then False
      else command_match_loop (take (ci_count cmd) (ci_list cmd)) (tl argv))"

datatype 'f command_result = Run 'f | ShowHelp "'f command_item list"

definition os_do_command :: "u8 list list \<Rightarrow> 'f command_ctrl \<Rightarrow> 'f command_result" where
  "os_do_command argv ctrl0 =
     (let ctrl = command_init ctrl0 in
      if length argv = 1 then ShowHelp (commond_help ctrl False)
      else if length argv = 2 \<and> (argv ! 1 = asc ''-h'' \<or> argv ! 1 = asc ''-help'') then ShowHelp (commond_help ctrl False)
      else if length argv = 2 \<and> argv ! 1 = asc ''--'' then ShowHelp (commond_help ctrl True)
      else case List.find (command_match argv ctrl) (cc_cmd ctrl) of
             Some cmd \<Rightarrow> Run (ci_func cmd)
           | None \<Rightarrow> ShowHelp (commond_help ctrl False))"

text \<open>A command item as the tables write it, and a table without masks.\<close>

definition command :: "u8 list list \<Rightarrow> 'f \<Rightarrow> 'f command_item" where
  "command ws f = \<lparr>ci_count = 0, ci_list = ws, ci_func = f, ci_flag = 0, ci_mask = 0\<rparr>"

definition COMMAND_CTRL_INITER :: "'f command_item list \<Rightarrow> 'f command_ctrl" where
  "COMMAND_CTRL_INITER cmds = \<lparr>cc_cmd = cmds, cc_is_use_mask = False, cc_bit = 0\<rparr>"

subsection \<open>What a table selects\<close>

text \<open>The words of a command line that a pattern fixes.\<close>

definition pattern_match :: "u8 list list \<Rightarrow> u8 list list \<Rightarrow> bool" where
  "pattern_match ws as \<longleftrightarrow> length as = length ws \<and> (\<forall>i < length ws. take 1 (ws ! i) = [45] \<longrightarrow> as ! i = ws ! i)"

lemma command_match_loop_pattern:
  "length as = length ws \<Longrightarrow> command_match_loop ws as \<longleftrightarrow> (\<forall>i < length ws. take 1 (ws ! i) = [45] \<longrightarrow> as ! i = ws ! i)"
proof (induction ws as rule: command_match_loop.induct)
  case (1 w ws a as)
  then show ?case
    by (auto simp: less_Suc_eq_0_disj)
qed auto

lemma pattern_match_Cons [simp]:
  "pattern_match (w # ws) (a # as) \<longleftrightarrow> (take 1 w = [45] \<longrightarrow> a = w) \<and> pattern_match ws as"
  "pattern_match [] [] = True" "pattern_match (w # ws) [] = False" "pattern_match [] (a # as) = False"
  by (auto simp: pattern_match_def less_Suc_eq_0_disj)

lemma command_match_init:
  assumes "cc_is_use_mask ctrl = False" and "length (ci_list cmd) \<le> COMMAND_COUNT" and "argv \<noteq> []"
  shows "command_match argv (command_init ctrl) (command_init_one ctrl cmd) \<longleftrightarrow> pattern_match (ci_list cmd) (tl argv)"
proof -
  have n: "ci_count (command_init_one ctrl cmd) = length (ci_list cmd)"
    "ci_list (command_init_one ctrl cmd) = ci_list cmd"
    using assms(2) by (simp_all add: command_init_one_def command_list_count_def)
  have u: "is_command_used (command_init ctrl) (command_init_one ctrl cmd)"
    using assms(1) by (simp add: is_command_used_def command_init_def)
  show ?thesis
    using assms(3) command_match_loop_pattern [of "tl argv" "ci_list cmd"]
    by (auto simp: command_match_def n u pattern_match_def)
qed

lemma find_map: "List.find P (map f xs) = map_option f (List.find (P \<circ> f) xs)"
  by (induction xs) auto

lemma find_cong: "(\<And>x. x \<in> set xs \<Longrightarrow> P x = Q x) \<Longrightarrow> List.find P xs = List.find Q xs"
  by (induction xs) auto

text \<open>For a table without masks the dispatcher runs the first command whose pattern fits.\<close>

lemma os_do_command_table:
  assumes "2 < length argv" and "\<forall>cmd\<in>set cmds. length (ci_list cmd) \<le> COMMAND_COUNT"
  shows "os_do_command argv (COMMAND_CTRL_INITER cmds) = (case List.find (\<lambda>cmd. pattern_match (ci_list cmd) (tl argv)) cmds of
      Some cmd \<Rightarrow> Run (ci_func cmd)
    | None \<Rightarrow> ShowHelp (commond_help (command_init (COMMAND_CTRL_INITER cmds)) False))"
proof -
  define ctrl where "ctrl = COMMAND_CTRL_INITER cmds"
  have nm: "cc_is_use_mask ctrl = False" and cmds: "cc_cmd (command_init ctrl) = map (command_init_one ctrl) cmds"
    by (simp_all add: ctrl_def COMMAND_CTRL_INITER_def command_init_def)
  have "argv \<noteq> []"
    using assms(1) by auto
  then have "(command_match argv (command_init ctrl) \<circ> command_init_one ctrl) cmd = pattern_match (ci_list cmd) (tl argv)"
    if "cmd \<in> set cmds" for cmd
    using command_match_init [OF nm] assms(2) that by simp
  then have "List.find (command_match argv (command_init ctrl)) (cc_cmd (command_init ctrl))
     = map_option (command_init_one ctrl) (List.find (\<lambda>cmd. pattern_match (ci_list cmd) (tl argv)) cmds)"
    unfolding cmds find_map by (intro arg_cong [where f = "map_option _"] find_cong)
  then show ?thesis
    using assms(1) by (simp add: os_do_command_def ctrl_def [symmetric] Let_def command_init_one_def split: option.split)
qed

end
