(* ===== verification/Os_Dump.thy ===== *)
theory Os_Dump
  imports Os_Cmd "HOL-Library.Monad_Syntax"
begin

text \<open>
  Hex dumps (\<open>utils/dump.h\<close>). A line is printed piece by piece into an array of 64 bytes with \<open>os_soprintf\<close>, whose
  size argument wraps around once the offset has passed the end; such a call is \<open>None\<close>, as is a read behind
  the data. From one to 65520 bytes every line is complete and the data can be read back from the dump; for none the
  code reads behind the buffer.
\<close>

section \<open>The code\<close>

definition RAW_LINE_BYTES :: nat where "RAW_LINE_BYTES = 16"
definition RAW_LINE_BLOCK_BYTES :: nat where "RAW_LINE_BLOCK_BYTES = 4"
definition RAW_LINE_MAX :: nat where "RAW_LINE_MAX = 63"

definition RAW_LINE_HEADER :: "u8 list" where
  "RAW_LINE_HEADER =
     asc ''      :                                     ;'' @ [10]
   @ asc '' Line :       Hexadecimal Content           ; Raw Content'' @ [10]
   @ asc ''      : 0 1 2 3  4 5 6 7  8 9 A B  C D E F  ;'' @ [10]
   @ asc ''      :                                     ;'' @ [10]"

text \<open>\<open>%.2X\<close> and \<open>%.4X\<close>.\<close>

definition hex_X :: "nat \<Rightarrow> u8" where
  "hex_X d = (if d < 10 then word_of_nat (48 + d) else word_of_nat (55 + d))"

fun print_X :: "nat \<Rightarrow> u8 list" where
  "print_X n = (if n < 16 then [hex_X n] else print_X (n div 16) @ [hex_X (n mod 16)])"

declare print_X.simps [simp del]

definition print_prec_X :: "nat \<Rightarrow> nat \<Rightarrow> u8 list" where
  "print_prec_X k n = replicate (k - length (print_X n)) 48 @ print_X n"

definition isprint :: "u8 \<Rightarrow> bool" where
  "isprint ch \<longleftrightarrow> 32 \<le> ch \<and> ch < 127"

text \<open>\<open>os_soprintf\<close>: \<open>snprintf\<close> of \<open>s\<close> at the offset, which grows by the full length.\<close>

type_synonym dump_buf = "u8 list \<times> nat"

definition os_soprintf :: "u8 list \<Rightarrow> dump_buf \<Rightarrow> dump_buf option" where
  "os_soprintf s b = (case b of (buf, offset) \<Rightarrow>
     if length buf < offset then None
     else if length buf = offset then Some (buf, offset + length s)
     else let t = take (length buf - offset - 1) s
          in Some (take offset buf @ t @ [0] @ drop (offset + length t + 1) buf, offset + length s))"

definition dump_gap :: "nat \<Rightarrow> dump_buf \<Rightarrow> dump_buf option" where
  "dump_gap i b = (if i mod RAW_LINE_BLOCK_BYTES = 0 then os_soprintf [32] b else Some b)"

fun dump_hex :: "nat \<Rightarrow> u8 list \<Rightarrow> dump_buf \<Rightarrow> dump_buf option" where
  "dump_hex i [] b = Some b"
| "dump_hex i (r # raw) b = do { b \<leftarrow> dump_gap i b; b \<leftarrow> os_soprintf (print_prec_X 2 (unat r)) b; dump_hex (i + 1) raw b }"

text \<open>The second loop goes on where the first stopped; \<open>n\<close> is the number of places left.\<close>

fun dump_pad :: "nat \<Rightarrow> nat \<Rightarrow> dump_buf \<Rightarrow> dump_buf option" where
  "dump_pad i 0 b = Some b"
| "dump_pad i (Suc n) b = do { b \<leftarrow> dump_gap i b; b \<leftarrow> os_soprintf [32, 32] b; dump_pad (i + 1) n b }"

fun dump_chars :: "u8 list \<Rightarrow> dump_buf \<Rightarrow> dump_buf option" where
  "dump_chars [] b = Some b"
| "dump_chars (r # raw) b = do { b \<leftarrow> os_soprintf [if isprint r then r else 46] b; dump_chars raw b }"

text \<open>What \<open>dump_line\<close> gets, or \<open>printf\<close> prints: the buffer up to its NUL.\<close>

definition os_dump_line :: "nat \<Rightarrow> u8 list \<Rightarrow> nat \<Rightarrow> u8 list option" where
  "os_dump_line line raw len =
     (if length raw < len then None
      else do {
        b \<leftarrow> os_soprintf (print_prec_X 4 (RAW_LINE_BYTES * line) @ asc ''H :'') (replicate (1 + RAW_LINE_MAX) 0, 0);
        b \<leftarrow> dump_hex 0 (take len raw) b;
        b \<leftarrow> dump_pad len (RAW_LINE_BYTES - len) b;
        b \<leftarrow> os_soprintf (asc '' ; '') b;
        b \<leftarrow> dump_chars (take len raw) b;
        (buf, _) \<leftarrow> os_soprintf [10] b;
        Some (takeWhile (\<lambda>ch. ch \<noteq> 0) buf) })"

fun dump_lines :: "nat \<Rightarrow> nat \<Rightarrow> u8 list \<Rightarrow> u8 list list option" where
  "dump_lines 0 i raw = Some []"
| "dump_lines (Suc n) i raw = do {
     l \<leftarrow> os_dump_line i (drop (i * RAW_LINE_BYTES) raw) RAW_LINE_BYTES;
     ls \<leftarrow> dump_lines n (i + 1) raw;
     Some (l # ls) }"

definition os_dump_buffer :: "u8 list \<Rightarrow> nat \<Rightarrow> u8 list list option" where
  "os_dump_buffer raw len =
     (let line = unat (os_align (word_of_nat len) (word_of_nat RAW_LINE_BYTES)) div RAW_LINE_BYTES;
          tail = len mod RAW_LINE_BYTES;
          tail = (if tail \<noteq> 0 then tail else RAW_LINE_BYTES)
      in do {
        ls \<leftarrow> dump_lines (line - 1) 0 raw;
        l \<leftarrow> os_dump_line line (drop ((line - 1) * RAW_LINE_BYTES) raw) tail;
        Some (RAW_LINE_HEADER # ls @ [l]) })"

section \<open>Lines are complete\<close>

text \<open>The buffer after printing \<open>s\<close>: nothing is lost while there is room.\<close>

definition printed :: "u8 list \<Rightarrow> dump_buf" where
  "printed s = (s @ replicate (64 - length s) 0, length s)"

lemma os_soprintf_room:
  assumes "length s + length t < 64"
  shows "os_soprintf t (printed s) = Some (printed (s @ t))"
proof -
  have "[0] @ drop (length t + 1) (replicate (64 - length s) 0) = (replicate (64 - (length s + length t)) 0 :: u8 list)"
    using assms by (simp flip: replicate_Suc add: Suc_diff_Suc)
  then show ?thesis
    using assms by (simp add: os_soprintf_def printed_def Let_def)
qed

definition gap :: "nat \<Rightarrow> u8 list" where
  "gap i = (if i mod 4 = 0 then [32] else [])"

fun hex_text :: "nat \<Rightarrow> u8 list \<Rightarrow> u8 list" where
  "hex_text i [] = []"
| "hex_text i (r # raw) = gap i @ print_prec_X 2 (unat r) @ hex_text (i + 1) raw"

fun pad_text :: "nat \<Rightarrow> nat \<Rightarrow> u8 list" where
  "pad_text i 0 = []"
| "pad_text i (Suc n) = gap i @ [32, 32] @ pad_text (i + 1) n"

lemma dump_gap_room: "length s < 63 \<Longrightarrow> dump_gap i (printed s) = Some (printed (s @ gap i))"
  by (simp add: dump_gap_def gap_def os_soprintf_room RAW_LINE_BLOCK_BYTES_def)

lemma length_gap: "length (gap i) \<le> 1"
  by (simp add: gap_def)

lemma dump_hex_room: "length (s @ hex_text i raw) < 62 \<Longrightarrow> dump_hex i raw (printed s) = Some (printed (s @ hex_text i raw))"
proof (induction i raw arbitrary: s rule: hex_text.induct)
  case (2 i r raw)
  then show ?case
    using dump_gap_room [of s i] os_soprintf_room [of "s @ gap i" "print_prec_X 2 (unat r)"] by simp
qed simp

lemma dump_pad_room: "length (s @ pad_text i n) < 62 \<Longrightarrow> dump_pad i n (printed s) = Some (printed (s @ pad_text i n))"
proof (induction i n arbitrary: s rule: pad_text.induct)
  case (2 i n)
  then show ?case
    using dump_gap_room [of s i] os_soprintf_room [of "s @ gap i" "[32, 32]"] by simp
qed simp

lemma dump_chars_room:
  "length s + length raw < 64 \<Longrightarrow> dump_chars raw (printed s) = Some (printed (s @ map (\<lambda>r. if isprint r then r else 46) raw))"
proof (induction raw arbitrary: s)
  case (Cons r raw)
  then show ?case
    using os_soprintf_room [of s "[if isprint r then r else 46]"] Cons.IH [of "s @ [if isprint r then r else 46]"] by simp
qed simp

lemma length_gap_div: "length (gap i) + (i + 3) div 4 = (i + 4) div 4"
proof -
  have "(i + 3) div 4 = (if i mod 4 = 0 then i div 4 else i div 4 + 1)" "(i + 4) div 4 = i div 4 + 1"
    by presburger+
  then show ?thesis
    by (simp add: gap_def)
qed

lemma print_X_length: "n < 16 ^ k \<Longrightarrow> 0 < k \<Longrightarrow> length (print_X n) \<le> k"
proof (induction k arbitrary: n)
  case (Suc k)
  show ?case
  proof (cases "n < 16")
    case False
    then have "0 < k"
      using Suc.prems(1) by (cases k) auto
    moreover have "n div 16 < 16 ^ k"
      using Suc.prems(1) by (simp add: less_mult_imp_div_less mult.commute)
    ultimately show ?thesis
      using False Suc.IH by (simp add: print_X.simps [of n])
  qed (simp add: print_X.simps)
qed simp

lemma print_prec_X_length: "n < 16 ^ k \<Longrightarrow> 0 < k \<Longrightarrow> length (print_prec_X k n) = k"
  using print_X_length [of n k] by (simp add: print_prec_X_def)

lemma print_byte_length [simp]: "length (print_prec_X 2 (unat (r :: u8))) = 2"
  using unsigned_less [of r, where 'a = nat] by (intro print_prec_X_length) simp_all

lemma length_hex_text: "length (hex_text i raw) + (i + 3) div 4 = 2 * length raw + (i + length raw + 3) div 4"
proof (induction i raw rule: hex_text.induct)
  case (2 i r raw)
  then show ?case
    using length_gap_div [of i] by (simp add: ac_simps)
qed simp

lemma length_pad_text: "length (pad_text i n) + (i + 3) div 4 = 2 * n + (i + n + 3) div 4"
proof (induction i n rule: pad_text.induct)
  case (2 i n)
  then show ?case
    using length_gap_div [of i] by (simp add: ac_simps)
qed simp

lemma length_places: "length raw \<le> 16 \<Longrightarrow> length (hex_text 0 raw @ pad_text (length raw) (16 - length raw)) = 36"
  using length_hex_text [of 0 raw] length_pad_text [of "length raw" "16 - length raw"] by simp

lemma hex_X_nonzero: "d < 16 \<Longrightarrow> hex_X d \<noteq> 0"
proof -
  assume "d < 16"
  moreover have "\<forall>d \<in> set [0..<16]. hex_X d \<noteq> 0"
    by code_simp
  ultimately show ?thesis
    by simp
qed

lemma print_X_nonzero: "0 \<notin> set (print_X n)"
  by (induction n rule: print_X.induct) (subst print_X.simps, auto simp: hex_X_nonzero dest: sym)

lemma texts_nonzero: "0 \<notin> set (print_prec_X k n)" "0 \<notin> set (hex_text i raw)" "0 \<notin> set (pad_text i m)"
proof -
  show p: "0 \<notin> set (print_prec_X k n)" for k n
    by (simp add: print_prec_X_def print_X_nonzero)
  show "0 \<notin> set (hex_text i raw)"
    by (induction i raw rule: hex_text.induct) (auto simp: p gap_def)
  show "0 \<notin> set (pad_text i m)"
    by (induction i m rule: pad_text.induct) (auto simp: gap_def)
qed

definition line_text :: "nat \<Rightarrow> u8 list \<Rightarrow> u8 list" where
  "line_text line raw = (print_prec_X 4 (16 * line) @ asc ''H :'') @ (hex_text 0 raw @ pad_text (length raw) (16 - length raw))
     @ asc '' ; '' @ map (\<lambda>r. if isprint r then r else 46) raw @ [10]"

lemma line_text_nonzero: "0 \<notin> set (line_text line raw)"
  using texts_nonzero by (auto simp: line_text_def asc_def isprint_def)

lemma os_dump_line_text:
  assumes "len \<le> length raw" and "len \<le> 16" and "line < 4096"
  shows "os_dump_line line raw len = Some (line_text line (take len raw))"
proof -
  let ?raw = "take len raw"
  let ?label = "print_prec_X 4 (16 * line) @ asc ''H :''"
  let ?hex = "hex_text 0 ?raw" and ?pad = "pad_text len (16 - len)" and ?chars = "map (\<lambda>r. if isprint r then r else 46) ?raw"
  have len: "length ?raw = len" "length ?label = 7" "length (?hex @ ?pad) = 36"
    using assms print_prec_X_length [of "16 * line" 4] length_places [of ?raw] by (simp_all add: asc_def)
  have start: "(replicate (1 + RAW_LINE_MAX) 0, 0) = printed []"
    by (simp add: printed_def RAW_LINE_MAX_def)
  have "os_soprintf ?label (printed []) = Some (printed ?label)" "dump_hex 0 ?raw (printed ?label) = Some (printed (?label @ ?hex))"
    "dump_pad len (16 - len) (printed (?label @ ?hex)) = Some (printed (?label @ ?hex @ ?pad))"
    "os_soprintf (asc '' ; '') (printed (?label @ ?hex @ ?pad)) = Some (printed (?label @ ?hex @ ?pad @ asc '' ; ''))"
    "dump_chars ?raw (printed (?label @ ?hex @ ?pad @ asc '' ; '')) = Some (printed (?label @ ?hex @ ?pad @ asc '' ; '' @ ?chars))"
    "os_soprintf [10] (printed (?label @ ?hex @ ?pad @ asc '' ; '' @ ?chars)) = Some (printed (?label @ ?hex @ ?pad @ asc '' ; '' @ ?chars @ [10]))"
    using len assms(2) os_soprintf_room [of "[]" ?label] dump_hex_room [of ?label 0 ?raw] dump_pad_room [of "?label @ ?hex" len "16 - len"]
      os_soprintf_room [of "?label @ ?hex @ ?pad" "asc '' ; ''"] dump_chars_room [of "?label @ ?hex @ ?pad @ asc '' ; ''" ?raw]
      os_soprintf_room [of "?label @ ?hex @ ?pad @ asc '' ; '' @ ?chars" "[10]"] by (simp_all add: asc_def)
  then have "os_dump_line line raw len = Some (takeWhile (\<lambda>ch. ch \<noteq> 0) (fst (printed (line_text line ?raw))))"
    unfolding os_dump_line_def start using assms(1) len(1) by (simp add: RAW_LINE_BYTES_def line_text_def printed_def)
  moreover have "takeWhile (\<lambda>ch. ch \<noteq> 0) (t @ replicate n 0) = t" if "0 \<notin> set t" for t :: "u8 list" and n
    using that by (subst takeWhile_append2) (auto simp: takeWhile_eq_Nil_iff)
  ultimately show ?thesis
    by (simp add: printed_def line_text_nonzero)
qed

section \<open>Reading a dump back\<close>

lemma dump_lines_text:
  "16 * (i + n) \<le> length raw \<Longrightarrow> i + n \<le> 4096 \<Longrightarrow>
     dump_lines n i raw = Some (map (\<lambda>k. line_text k (take 16 (drop (16 * k) raw))) [i..<i + n])"
proof (induction n arbitrary: i)
  case (Suc n)
  have "[i..<i + Suc n] = i # [i + 1..<i + 1 + n]"
    by (simp add: upt_conv_Cons)
  then show ?case
    using Suc os_dump_line_text [of 16 "drop (16 * i) raw" i] by (simp add: RAW_LINE_BYTES_def mult.commute)
qed simp

lemma dump_line_count: "len < 2 ^ 31 \<Longrightarrow> unat (os_align (word_of_nat len) (word_of_nat RAW_LINE_BYTES)) div RAW_LINE_BYTES = (len + 15) div 16"
proof -
  assume len: "len < 2 ^ 31"
  then have n: "unat (word_of_nat len :: u32) = len"
    by (simp add: unat_of_nat)
  have "unat (word_of_nat len + 2 ^ 4 - 1 :: u32) = len + 15"
    using unat_align_top [of 4 "word_of_nat len"] len n by simp
  then have "unat (os_align (word_of_nat len) (2 ^ 4)) = (len + 15) div 16 * 16"
    unfolding os_align_eq_down os_align_down_pow2 by simp
  then show ?thesis
    by (simp add: RAW_LINE_BYTES_def)
qed

lemma line_count_bounds:
  fixes len :: nat
  assumes "0 < len" and "len \<le> 65520"
  defines "n \<equiv> (len + 15) div 16"
  shows "0 < n" "16 * (n - 1) < len" "len \<le> 16 * (n - 1) + 16" "n < 4096"
proof -
  have "len + 15 < 16 * n + 16" "16 * n \<le> len + 15"
    unfolding n_def using div_times_less_eq_dividend [of "len + 15" 16] dividend_less_div_times [of 16 "len + 15"] by linarith+
  then show "0 < n" "16 * (n - 1) < len" "len \<le> 16 * (n - 1) + 16" "n < 4096"
    using assms(1,2) by linarith+
qed

text \<open>The lines of a dump: the last one carries the number of lines in its label, the others their own index.\<close>

lemma os_dump_buffer_text:
  assumes "0 < length raw" and "length raw \<le> 65520"
  defines "n \<equiv> (length raw + 15) div 16"
  shows "os_dump_buffer raw (length raw) = Some (RAW_LINE_HEADER #
    map (\<lambda>k. line_text (if k = n - 1 then n else k) (take 16 (drop (16 * k) raw))) [0..<n])"
proof -
  define m where "m = n - 1"
  have n: "n = Suc m" "16 * m < length raw" "length raw \<le> 16 * m + 16" "n < 4096"
    using line_count_bounds [OF assms(1,2)] unfolding n_def m_def by linarith+
  define tail where "tail = (if length raw mod 16 \<noteq> 0 then length raw mod 16 else 16)"
  obtain t where t: "length raw = t + 16 * m" "0 < t" "t \<le> 16"
    using n(2,3) by (metis add.commute add_diff_inverse_nat add_le_cancel_left less_imp_not_less zero_less_diff)
  have tail: "tail = length raw - 16 * m"
    using t(2,3) by (cases "t = 16") (auto simp: tail_def t(1))
  have c: "unat (os_align (word_of_nat (length raw)) (word_of_nat RAW_LINE_BYTES)) div RAW_LINE_BYTES = Suc m"
    using dump_line_count [of "length raw"] assms(2) n(1) by (simp add: n_def)
  have l: "os_dump_line (Suc m) (drop (16 * m) raw) tail = Some (line_text (Suc m) (take 16 (drop (16 * m) raw)))"
    using os_dump_line_text [of tail "drop (16 * m) raw" "Suc m"] n tail by simp
  have "dump_lines m 0 raw = Some (map (\<lambda>k. line_text k (take 16 (drop (16 * k) raw))) [0..<m])"
    using dump_lines_text [of 0 m raw] n by simp
  moreover have "map (\<lambda>k. line_text (if k = n - 1 then n else k) (take 16 (drop (16 * k) raw))) [0..<m]
      = map (\<lambda>k. line_text k (take 16 (drop (16 * k) raw))) [0..<m]"
    by (rule map_cong) (auto simp: m_def)
  ultimately show ?thesis
    using l n(1) unfolding os_dump_buffer_def c Let_def unfolding RAW_LINE_BYTES_def tail_def [symmetric]
    by (simp add: mult.commute [of _ "16 :: nat"])
qed

definition dump_pos :: "nat \<Rightarrow> nat" where
  "dump_pos j = 8 + 2 * j + j div 4"

lemma hex_text_append: "hex_text i (xs @ ys) = hex_text i xs @ hex_text (i + length xs) ys"
  by (induction i xs rule: hex_text.induct) simp_all

lemma digit_hex_X: "d < 16 \<Longrightarrow> os_digitchar2int (sint (hex_X d)) = Ret (int d)"
proof -
  assume "d < 16"
  moreover have "\<forall>d \<in> set [0..<16]. os_digitchar2int (sint (hex_X d)) = Ret (int d)"
    by code_simp
  ultimately show ?thesis
    by simp
qed

lemma read_byte: "os_digitstring2number (print_prec_X 2 (unat (b :: u8)) @ rest) 2 16 = Ret (uint b)"
proof -
  have b: "unat b < 256"
    using unsigned_less [of b, where 'a = nat] by simp
  have "print_prec_X 2 (unat b) = [hex_X (unat b div 16), hex_X (unat b mod 16)]"
    using b by (auto simp: print_prec_X_def print_X.simps [of "unat b"] print_X.simps [of "unat b div 16"] hex_X_def)
  moreover have "int (unat b div 16) * 16 + int (unat b mod 16) = uint b"
    by (metis div_mult_mod_eq of_nat_add of_nat_mult of_nat_numeral uint_nat)
  ultimately show ?thesis
    using b by (simp add: os_digitstring2number_def digit_hex_X less_mult_imp_div_less)
qed

lemma drop_prefix: "drop (length p) (p @ q) = q"
  by simp

lemma line_text_byte:
  assumes "j < length raw" and "length raw \<le> 16" and "line < 4096"
  shows "os_digitstring2number (drop (dump_pos j) (line_text line raw)) 2 16 = Ret (uint (raw ! j))"
proof -
  let ?label = "print_prec_X 4 (16 * line) @ asc ''H :''"
  have split: "hex_text 0 raw = (hex_text 0 (take j raw) @ gap j) @ print_prec_X 2 (unat (raw ! j)) @ hex_text (j + 1) (drop (Suc j) raw)"
  proof -
    have "hex_text 0 raw = hex_text 0 (take j raw @ raw ! j # drop (Suc j) raw)"
      by (rule arg_cong [OF id_take_nth_drop [OF assms(1)]])
    also have "\<dots> = (hex_text 0 (take j raw) @ gap j) @ print_prec_X 2 (unat (raw ! j)) @ hex_text (j + 1) (drop (Suc j) raw)"
      using assms(1) unfolding hex_text_append by simp
    finally show ?thesis .
  qed
  have "length (hex_text 0 (take j raw) @ gap j) = 2 * j + (j + 4) div 4"
    using length_hex_text [of 0 "take j raw"] length_gap_div [of j] assms(1) by simp
  moreover have "length ?label = 7"
    using assms(3) print_prec_X_length [of "16 * line" 4] by (simp add: asc_def)
  ultimately have len: "length (?label @ hex_text 0 (take j raw) @ gap j) = dump_pos j"
    by (simp add: dump_pos_def)
  have "line_text line raw = (?label @ hex_text 0 (take j raw) @ gap j) @ print_prec_X 2 (unat (raw ! j)) @ hex_text (j + 1) (drop (Suc j) raw)
      @ pad_text (length raw) (16 - length raw) @ asc '' ; '' @ map (\<lambda>r. if isprint r then r else 46) raw @ [10]"
    by (simp only: line_text_def split append.assoc)
  then show ?thesis
    unfolding len [symmetric] by (simp only: drop_prefix read_byte)
qed

text \<open>C21: a dump loses nothing. For at least one and at most 65520 bytes \<open>os_dump_buffer\<close> prints the header and one complete line for every sixteen
  bytes, and reading the two hexadecimal digits at the place of a byte with \<open>os_digitstring2number\<close> gives the byte.\<close>

theorem os_dump_roundtrip:
  assumes "0 < length raw" and "length raw \<le> 65520"
  shows "\<exists>ls. os_dump_buffer raw (length raw) = Some (RAW_LINE_HEADER # ls) \<and> length ls = (length raw + 15) div 16
    \<and> (\<forall>l \<in> set ls. last l = 10)
    \<and> (\<forall>i < length raw. os_digitstring2number (drop (dump_pos (i mod 16)) (ls ! (i div 16))) 2 16 = Ret (uint (raw ! i)))"
proof -
  define n where "n = (length raw + 15) div 16"
  define ls where "ls = map (\<lambda>k. line_text (if k = n - 1 then n else k) (take 16 (drop (16 * k) raw))) [0..<n]"
  have n: "n < 4096" and k: "i div 16 < n" if "i < length raw" for i
    using that assms(2) unfolding n_def by (simp_all add: div_less_mono less_mult_imp_div_less)
  have "os_digitstring2number (drop (dump_pos (i mod 16)) (ls ! (i div 16))) 2 16 = Ret (uint (raw ! i))" if i: "i < length raw" for i
  proof -
    let ?raw = "take 16 (drop (16 * (i div 16)) raw)"
    have "16 * (i div 16) + i mod 16 = i"
      by simp
    then have "i mod 16 < length raw - 16 * (i div 16)" "16 * (i div 16) \<le> length raw"
      using i by linarith+
    then have "i mod 16 < length ?raw" "?raw ! (i mod 16) = raw ! i"
      by simp_all
    then show ?thesis
      using line_text_byte [of "i mod 16" ?raw] n [OF i] k [OF i] by (simp add: ls_def)
  qed
  then show ?thesis
    using os_dump_buffer_text [OF assms] by (intro exI [of _ ls]) (auto simp: ls_def n_def [symmetric] line_text_def)
qed

theorem os_dump_roundtrip_witness:
  "\<exists>ls. os_dump_buffer [1, 0xab, 65] 3 = Some (RAW_LINE_HEADER # ls) \<and> os_digitstring2number (drop (dump_pos 1) (ls ! 0)) 2 16 = Ret 0xab"
proof -
  have l: "length [1, 0xab, 65 :: u8] = 3"
    by simp
  from os_dump_roundtrip [of "[1, 0xab, 65]", unfolded l] show ?thesis
    by (auto dest!: spec [of _ "1 :: nat"])
qed

text \<open>The label of the last line is not its own: it says where the next line would begin.\<close>

theorem os_dump_last_label:
  assumes "0 < length raw" and "length raw \<le> 65520"
  shows "\<exists>ls. os_dump_buffer raw (length raw) = Some ls \<and> take 4 (last ls) = print_prec_X 4 (16 * ((length raw + 15) div 16))"
proof -
  define n where "n = (length raw + 15) div 16"
  have n: "0 < n" "n < 4096"
    using line_count_bounds [OF assms] unfolding n_def by simp_all
  have "take 4 (line_text n r) = print_prec_X 4 (16 * n)" for r
    using print_prec_X_length [of "16 * n" 4] n(2) by (simp add: line_text_def)
  then show ?thesis
    using os_dump_buffer_text [OF assms] n(1) unfolding n_def [symmetric] by (auto simp: last_map)
qed

text \<open>Nothing to dump: sixteen bytes behind the data are printed.\<close>

theorem os_dump_empty: "os_dump_buffer [] 0 = None"
  by (simp add: os_dump_buffer_def dump_line_count RAW_LINE_BYTES_def os_dump_line_def os_align_def)

end
