(* ===== verification/Os_Sfile.thy ===== *)
theory Os_Sfile
  imports Os_String
begin

text \<open>
  The directory scanner of \<open>utils/sfile.h\<close>: every file of a directory that the filter lets through is
  read line by line, the lines are cleaned up with the helpers of \<open>utils/string.h\<close>, and each line
  that is neither blank nor a note is given to a callback, which may stop the scan.

  A directory is the list of what \<open>readdir\<close> returns; the callback threads a state of any type.
\<close>

definition OS_LINE_LEN :: nat where "OS_LINE_LEN = 1023"

text \<open>
  \<open>fgets(line, OS_LINE_LEN, stream)\<close> takes bytes up to and including a newline, at most
  \<open>OS_LINE_LEN - 1\<close>; the loop ends when a read has met the end of the file.
\<close>

fun fgets_split :: "nat \<Rightarrow> u8 list \<Rightarrow> u8 list \<times> u8 list \<times> bool" where
  "fgets_split 0 bs = ([], bs, False)"
| "fgets_split (Suc n) [] = ([], [], True)"
| "fgets_split (Suc n) (b # bs) =
     (if b = 10 then ([b], bs, False)
      else let (l, rest, eof) = fgets_split n bs in (b # l, rest, eof))"

lemma fgets_split_less: "fgets_split n bs = (l, rest, False) \<Longrightarrow> 0 < n \<Longrightarrow> length rest < length bs"
proof (induction n bs arbitrary: l rest rule: fgets_split.induct)
  case (3 n b bs)
  show ?case
  proof (cases "b = 10 \<or> n = 0")
    case True
    then show ?thesis
      using 3(2) by (auto split: if_splits)
  next
    case False
    then show ?thesis
      using 3 by (auto split: prod.splits)
  qed
qed auto

function stream_lines :: "u8 list \<Rightarrow> u8 list list" where
  "stream_lines bs = (case fgets_split (OS_LINE_LEN - 1) bs of
      (l, rest, eof) \<Rightarrow> takeWhile (\<lambda>c. c \<noteq> 0) l # (if eof then [] else stream_lines rest))"
  by pat_completeness auto

termination stream_lines
  by (relation "measure length") (auto simp: OS_LINE_LEN_def intro: fgets_split_less [OF sym])

declare stream_lines.simps [simp del]

definition sf_clean_line :: "u8 list \<Rightarrow> u8 list" where
  "sf_clean_line line = string_reduce None (string_replace None 32 (string_strim_both_ends None line))"

fun sf_lines :: "(u8 list \<Rightarrow> 's \<Rightarrow> u32 \<times> 's) \<Rightarrow> u8 list list \<Rightarrow> 's \<Rightarrow> u32 \<times> 's" where
  "sf_lines line_handle [] s = (mv2_OK, s)"
| "sf_lines line_handle (l # ls) s =
     (let line = sf_clean_line l
      in if is_blank_line line then sf_lines line_handle ls s
         else if is_notes_line_deft line then sf_lines line_handle ls s
         else case line_handle line s of
           (mv, s) \<Rightarrow> if mv2_is_break mv then (mv, s) else sf_lines line_handle ls s)"

text \<open>
  What a file gives: it cannot be opened, it is read to its end, or reading fails behind the bytes named. The last is also what a directory
  does that is opened like a file.
\<close>

datatype file_data = Fopen_error int | Contents "u8 list" | Read_error "u8 list"

text \<open>
  \<open>os_sfscan_file_handle\<close>. When the file cannot be opened, only the result part
  of the multi-value is stored and the control part is what the stack holds (\<open>junk\<close>). The loop tests \<open>feof\<close> only: after a read error it
  goes on for ever with empty lines, \<open>Hang\<close>; the line in which the error comes is not delivered.
\<close>

definition os_sfscan_file_handle ::
    "u32 \<Rightarrow> (u8 list \<Rightarrow> u8 list \<Rightarrow> 's \<Rightarrow> u32 \<times> 's) \<Rightarrow> u8 list \<Rightarrow> file_data \<Rightarrow> 's \<Rightarrow> (u32 \<times> 's) outcome" where
  "os_sfscan_file_handle junk line_handle filename content s = (case content of
      Fopen_error e \<Rightarrow> Ret (mv2_return (mv2_control junk) e, s)
    | Contents bs \<Rightarrow> Ret (sf_lines (line_handle filename) (stream_lines bs) s)
    | Read_error bs \<Rightarrow> (case sf_lines (line_handle filename) (butlast (stream_lines bs)) s of
        (mv, s) \<Rightarrow> if mv2_is_break mv then Ret (mv, s) else Hang))"

record dirent =
  d_name :: "u8 list"
  d_isdir :: bool
  d_content :: file_data

text \<open>
  The recursion for a subdirectory is on the same \<open>path\<close>, so it never gets past the first one:
  \<open>Hang\<close>. \<open>stat\<close> is given the bare name, so \<open>d_isdir\<close> is about that name in the working directory.
\<close>

fun sfscan_dir_loop :: "bool \<Rightarrow> (u8 list \<Rightarrow> bool) \<Rightarrow> u32 \<Rightarrow> (u8 list \<Rightarrow> u8 list \<Rightarrow> 's \<Rightarrow> u32 \<times> 's)
    \<Rightarrow> dirent list \<Rightarrow> 's \<Rightarrow> (int \<times> 's) outcome" where
  "sfscan_dir_loop recur file_filter junk line_handle [] s = Ret (0, s)"
| "sfscan_dir_loop recur file_filter junk line_handle (f # fs) s =
     (if d_name f = [46] \<or> d_name f = [46, 46] then sfscan_dir_loop recur file_filter junk line_handle fs s
      else if d_isdir f then (if recur then Hang else sfscan_dir_loop recur file_filter junk line_handle fs s)
      else if file_filter (d_name f) then sfscan_dir_loop recur file_filter junk line_handle fs s
      else obind (os_sfscan_file_handle junk line_handle (d_name f) (d_content f) s) (\<lambda>(mv, s).
        if mv2_is_break mv then Ret (mv2_result mv, s)
        else sfscan_dir_loop recur file_filter junk line_handle fs s))"

text \<open>\<open>Inl e\<close> is a directory that cannot be opened.\<close>

definition os_sfscan_dir :: "int + dirent list \<Rightarrow> bool \<Rightarrow> (u8 list \<Rightarrow> bool) \<Rightarrow> u32
    \<Rightarrow> (u8 list \<Rightarrow> u8 list \<Rightarrow> 's \<Rightarrow> u32 \<times> 's) \<Rightarrow> 's \<Rightarrow> (int \<times> 's) outcome" where
  "os_sfscan_dir dir recur file_filter junk line_handle s = (case dir of
      Inl e \<Rightarrow> Ret (e, s)
    | Inr fs \<Rightarrow> sfscan_dir_loop recur file_filter junk line_handle fs s)"

subsection \<open>Reading a clean file\<close>

lemma fgets_split_line:
  "10 \<notin> set l \<Longrightarrow> length l < n \<Longrightarrow> fgets_split n (l @ 10 # rest) = (l @ [10], rest, False)"
proof (induction l arbitrary: n)
  case Nil
  then show ?case by (cases n) simp_all
next
  case (Cons b l)
  then show ?case by (cases n) auto
qed

text \<open>A file of lines that end in a newline is read as these lines and an empty one.\<close>

lemma stream_lines_concat:
  assumes "\<And>l. l \<in> set ls \<Longrightarrow> 10 \<notin> set l \<and> 0 \<notin> set l \<and> length l < OS_LINE_LEN - 1"
  shows "stream_lines (concat (map (\<lambda>l. l @ [10]) ls)) = map (\<lambda>l. l @ [10]) ls @ [[]]"
  using assms
proof (induction ls)
  case Nil
  show ?case
    by (simp add: stream_lines.simps OS_LINE_LEN_def numeral_eq_Suc)
next
  case (Cons l ls)
  then have "fgets_split (OS_LINE_LEN - 1) (l @ 10 # concat (map (\<lambda>l. l @ [10]) ls))
      = (l @ [10], concat (map (\<lambda>l. l @ [10]) ls), False)"
    by (intro fgets_split_line) simp_all
  moreover have "takeWhile (\<lambda>c. c \<noteq> 0) (l @ [10]) = l @ [10]"
    using Cons.prems [of l] by (subst takeWhile_eq_all_conv) auto
  ultimately show ?case
    using Cons by (subst stream_lines.simps) simp
qed

text \<open>A line that is already reduced, with nothing to trim, is only stripped of its newline.\<close>

lemma sf_clean_line_id:
  assumes "l \<noteq> []" "\<not> char_is None (hd l)" "reduced None l" "\<And>c. c \<in> set l \<Longrightarrow> char_is None c \<Longrightarrow> c = 32"
  shows "sf_clean_line (l @ [10]) = l"
proof -
  have last: "\<not> char_is None (last l)"
    using assms(1,3) by (induction "None :: (u8 \<Rightarrow> bool) option" l rule: reduced.induct) auto
  have "string_strim_right None (l @ [10]) = string_strim_right None l"
    by (simp add: string_strim_right_def string_strim_left_dropWhile char_is_def blanks_def)
  then have "string_strim_both_ends None (l @ [10]) = l"
    using string_strim_both_ends_id [OF assms(1,2) last] by (simp add: string_strim_both_ends_def)
  moreover have "string_replace None 32 l = l"
    using assms(4) by (simp add: string_replace_map map_idI)
  ultimately show ?thesis
    by (simp add: sf_clean_line_def string_reduce_id [OF assms(3)])
qed

subsection \<open>What every callback keeps, the scan keeps\<close>

lemma set_reduce_loop: "set (reduce_loop IS rec s) \<subseteq> set s \<union> set_option rec"
  by (induction IS rec s rule: reduce_loop.induct) (auto split: option.splits)

lemma set_sf_clean_line: "set (sf_clean_line l) \<subseteq> insert 32 (set l)"
proof -
  have "set (string_strim_both_ends None l) \<subseteq> set l"
    by (auto simp: string_strim_both_ends_def string_strim_right_def string_strim_left_dropWhile dest!: set_dropWhileD)
  then show ?thesis
    using set_reduce_loop [of None None "string_replace None 32 (string_strim_both_ends None l)"]
    by (auto simp: sf_clean_line_def string_reduce_def string_replace_map)
qed

lemma stream_lines_no_nul: "l \<in> set (stream_lines bs) \<Longrightarrow> 0 \<notin> set l"
proof (induction bs rule: stream_lines.induct)
  case (1 bs)
  obtain w rest eof where w: "fgets_split (OS_LINE_LEN - 1) bs = (w, rest, eof)"
    by (cases "fgets_split (OS_LINE_LEN - 1) bs")
  then show ?case
    using 1 by (auto simp: stream_lines.simps [of bs] dest: set_takeWhileD split: if_splits)
qed

text \<open>File names as \<open>readdir\<close> returns them have no NUL byte.\<close>

definition dir_ok :: "int + dirent list \<Rightarrow> bool" where
  "dir_ok dir = (case dir of Inl e \<Rightarrow> True | Inr fs \<Rightarrow> \<forall>f \<in> set fs. 0 \<notin> set (d_name f))"

locale line_invariant =
  fixes line_handle :: "u8 list \<Rightarrow> u8 list \<Rightarrow> 's \<Rightarrow> u32 \<times> 's" and P :: "'s \<Rightarrow> bool"
  assumes line_keeps: "0 \<notin> set filename \<Longrightarrow> 0 \<notin> set line \<Longrightarrow> P s \<Longrightarrow> P (snd (line_handle filename line s))"
begin

lemma lines_keep:
  "0 \<notin> set filename \<Longrightarrow> (\<And>l. l \<in> set ls \<Longrightarrow> 0 \<notin> set l) \<Longrightarrow> P s \<Longrightarrow> P (snd (sf_lines (line_handle filename) ls s))"
proof (induction ls arbitrary: s)
  case (Cons l ls)
  have "0 \<notin> set (sf_clean_line l)"
    using set_sf_clean_line [of l] Cons.prems(2) [of l] by auto
  then have "P (snd (line_handle filename (sf_clean_line l) s))"
    using Cons.prems line_keeps by blast
  then show ?case
    using Cons by (auto simp: Let_def split: prod.split)
qed simp

lemma file_keeps:
  assumes "0 \<notin> set filename" "P s" "os_sfscan_file_handle junk line_handle filename content s = Ret (mv, s')"
  shows "P s'"
proof (cases content)
  case (Contents bs)
  then show ?thesis
    using lines_keep [OF assms(1) _ assms(2), of "stream_lines bs"] stream_lines_no_nul assms(3) by (fastforce simp: os_sfscan_file_handle_def)
next
  case (Read_error bs)
  then show ?thesis
    using lines_keep [OF assms(1) _ assms(2), of "butlast (stream_lines bs)"] stream_lines_no_nul in_set_butlastD assms(3)
    by (fastforce simp: os_sfscan_file_handle_def split: prod.splits if_splits)
qed (use assms in \<open>simp add: os_sfscan_file_handle_def\<close>)

lemma dir_loop_keeps:
  "(\<And>f. f \<in> set fs \<Longrightarrow> 0 \<notin> set (d_name f)) \<Longrightarrow> P s \<Longrightarrow> sfscan_dir_loop recur file_filter junk line_handle fs s = Ret (r, s') \<Longrightarrow> P s'"
proof (induction fs arbitrary: s)
  case (Cons f fs)
  have "P t" if "os_sfscan_file_handle junk line_handle (d_name f) (d_content f) s = Ret (mv, t)" for mv t
    using Cons.prems file_keeps that by (meson list.set_intros(1))
  then show ?case
    using Cons.prems Cons.IH by (auto simp: obind_eq_Ret split: if_splits)
qed simp

lemma scan_keeps:
  assumes "dir_ok dir" "P s" "os_sfscan_dir dir recur file_filter junk line_handle s = Ret (r, s')"
  shows "P s'"
proof (cases dir)
  case (Inr fs)
  then show ?thesis
    using dir_loop_keeps [of fs s recur file_filter junk r s'] assms by (simp add: os_sfscan_dir_def dir_ok_def)
qed (use assms in \<open>simp add: os_sfscan_dir_def\<close>)

end

text \<open>Without recursion the scan returns, if no file gives a read error; with one it need not.\<close>

definition dir_readable :: "int + dirent list \<Rightarrow> bool" where
  "dir_readable dir = (case dir of Inl e \<Rightarrow> True | Inr fs \<Rightarrow> \<forall>f \<in> set fs. \<forall>bs. d_content f \<noteq> Read_error bs)"

lemma file_handle_returns:
  "(\<And>bs. content \<noteq> Read_error bs) \<Longrightarrow> \<exists>mv s'. os_sfscan_file_handle junk line_handle filename content s = Ret (mv, s')"
  by (cases content) (auto simp: os_sfscan_file_handle_def)

lemma sfscan_dir_returns:
  assumes "dir_readable dir"
  shows "\<exists>r s'. os_sfscan_dir dir False file_filter junk line_handle s = Ret (r, s')"
proof -
  have "\<exists>r s'. sfscan_dir_loop False file_filter junk line_handle fs s = Ret (r, s')" if "\<forall>f \<in> set fs. \<forall>bs. d_content f \<noteq> Read_error bs" for fs
    using that
  proof (induction fs arbitrary: s)
    case (Cons f fs)
    obtain mv t where "os_sfscan_file_handle junk line_handle (d_name f) (d_content f) s = Ret (mv, t)"
      using file_handle_returns [of "d_content f"] Cons.prems by fastforce
    then show ?case
      using Cons by auto
  qed simp
  then show ?thesis
    using assms by (auto simp: os_sfscan_dir_def dir_readable_def split: sum.split)
qed

lemma read_error_hangs:
  "d_name f \<notin> {[46], [46, 46]} \<Longrightarrow> \<not> d_isdir f \<Longrightarrow> \<not> file_filter (d_name f) \<Longrightarrow> d_content f = Read_error [] \<Longrightarrow>
   os_sfscan_dir (Inr (f # fs)) recur file_filter junk line_handle s = Hang"
  by (simp add: os_sfscan_dir_def os_sfscan_file_handle_def stream_lines.simps OS_LINE_LEN_def numeral_eq_Suc)

end
