(* ===== verification/Os_Appkey.thy ===== *)
theory Os_Appkey
  imports Os_Sfile Os_Cmd
begin

text \<open>
  The settings store of \<open>autelan-lib/src/appkey/appkey.c\<close>: a table in shared memory with the values
  of named keys, filled from the files \<open><app>.key\<close> of \<open>/etc/appkey\<close>. A program resolves a name once
  with \<open>appkey_getbyname\<close> and reads or writes the value through the identifier it got, which packs
  the index and the byte offset of the entry into 16 bits each.

  Names are the bytes before the terminating NUL. An entry takes 68 bytes (two arrays of 32 and a
  32-bit value), the header before the first one 16.
\<close>

subsection \<open>The table\<close>

record appkey =
  ak_app :: "u8 list"
  ak_name :: "u8 list"
  ak_value :: u32

record appkey_hdr =
  hd_protect :: u32
  hd_inited :: bool
  hd_count :: int
  hd_limit :: int
  hd_keys :: "appkey list"
  hd_protect1 :: u32

definition INVALID_APPKEY :: u32 where "INVALID_APPKEY = 0"
definition APPKEY_LIMIT :: u32 where "APPKEY_LIMIT = 1023"
definition APP_NAMELEN :: nat where "APP_NAMELEN = 31"
definition APP_KEY_NAMELEN :: nat where "APP_KEY_NAMELEN = 31"
definition OS_PROTECTED :: u32 where "OS_PROTECTED = 0x2012dead"

definition ak_make :: "int \<Rightarrow> int \<Rightarrow> u32" where
  "ak_make idx offset = push_bit 16 (ucast (word_of_int idx :: u16)) OR ucast (word_of_int offset :: u16)"

definition ak_idx :: "u32 \<Rightarrow> int" where
  "ak_idx akid = uint (ucast (drop_bit 16 akid) :: u16)"

definition ak_offset :: "u32 \<Rightarrow> int" where
  "ak_offset akid = uint (ucast akid :: u16)"

text \<open>The distance of an entry from the header.\<close>

definition getoffset :: "int \<Rightarrow> int" where
  "getoffset idx = 16 + 68 * idx"

text \<open>A lookup returns the index of the entry, \<open>None\<close> for NULL.\<close>

definition getbyid :: "u32 \<Rightarrow> appkey_hdr \<Rightarrow> int option" where
  "getbyid akid h =
     (if is_good_enum (ak_idx akid) (hd_count h) = False then None
      else if ak_offset akid \<noteq> getoffset (ak_idx akid) then None
      else Some (ak_idx akid))"

text \<open>\<open>os_stracmp\<close> compares at most as many bytes as the array of the entry has.\<close>

definition stracmp_eq :: "nat \<Rightarrow> u8 list \<Rightarrow> u8 list \<Rightarrow> bool" where
  "stracmp_eq n a b \<longleftrightarrow> take n (a @ [0]) = take n (b @ [0])"

fun getbyname_loop :: "u8 list \<Rightarrow> u8 list \<Rightarrow> appkey list \<Rightarrow> int \<Rightarrow> int option" where
  "getbyname_loop app key [] i = None"
| "getbyname_loop app key (ak # aks) i =
     (if stracmp_eq (1 + APP_NAMELEN) (ak_app ak) app \<and> stracmp_eq (1 + APP_KEY_NAMELEN) (ak_name ak) key then Some i
      else getbyname_loop app key aks (i + 1))"

definition getbyname :: "u8 list \<Rightarrow> u8 list \<Rightarrow> appkey_hdr \<Rightarrow> int option" where
  "getbyname app key h = getbyname_loop app key (take (nat (hd_count h)) (hd_keys h)) 0"

text \<open>\<open>os_strdcpy\<close> into the array: what fits before the terminator.\<close>

definition ak_new :: "u8 list \<Rightarrow> u8 list \<Rightarrow> appkey_hdr \<Rightarrow> int option \<times> appkey_hdr" where
  "ak_new app key h =
     (if hd_count h < hd_limit h then
        let idx = hd_count h;
            ak = (hd_keys h ! nat idx)\<lparr>ak_app := strlcpy_loop app APP_NAMELEN, ak_name := strlcpy_loop key APP_KEY_NAMELEN\<rparr>
        in (Some idx, h\<lparr>hd_count := hd_count h + 1, hd_keys := (hd_keys h)[nat idx := ak]\<rparr>)
      else (None, h))"

definition ak_store :: "int \<Rightarrow> u32 \<Rightarrow> appkey_hdr \<Rightarrow> appkey_hdr" where
  "ak_store idx v h = h\<lparr>hd_keys := (hd_keys h)[nat idx := (hd_keys h ! nat idx)\<lparr>ak_value := v\<rparr>]\<rparr>"

subsection \<open>Operations of a client\<close>

text \<open>A NULL argument is \<open>None\<close>.\<close>

definition appkey_getbyname :: "u8 list option \<Rightarrow> u8 list option \<Rightarrow> appkey_hdr \<Rightarrow> u32 outcome" where
  "appkey_getbyname app key h = (case app of
      None \<Rightarrow> os_assert_value INVALID_APPKEY
    | Some app \<Rightarrow> (case key of
        None \<Rightarrow> os_assert_value INVALID_APPKEY
      | Some key \<Rightarrow> (case getbyname app key h of
          None \<Rightarrow> Ret INVALID_APPKEY
        | Some idx \<Rightarrow> Ret (ak_make idx (getoffset idx)))))"

text \<open>\<open>pvalue\<close> is the pointed-to value, \<open>None\<close> for NULL.\<close>

definition appkey_get_into :: "u32 \<Rightarrow> u32 option \<Rightarrow> appkey_hdr \<Rightarrow> int \<times> u32 option" where
  "appkey_get_into akid pvalue h =
     (let ak = getbyid akid h
      in case pvalue of
           None \<Rightarrow> (err EKEYNULL, None)
         | Some v \<Rightarrow> (case ak of
             None \<Rightarrow> (err ENOEXIST, Some v)
           | Some idx \<Rightarrow> (0, Some (ak_value (hd_keys h ! nat idx)))))"

definition appkey_get :: "u32 \<Rightarrow> u32 \<Rightarrow> appkey_hdr \<Rightarrow> u32" where
  "appkey_get akid deft h = (case snd (appkey_get_into akid (Some deft) h) of None \<Rightarrow> deft | Some v \<Rightarrow> v)"

definition appkey_set :: "u32 \<Rightarrow> u32 \<Rightarrow> appkey_hdr \<Rightarrow> int \<times> appkey_hdr" where
  "appkey_set akid v h = (case getbyid akid h of
      None \<Rightarrow> (err ENOEXIST, h)
    | Some idx \<Rightarrow> (0, ak_store idx v h))"

subsection \<open>The C library's scanners\<close>

definition isspace :: "u8 \<Rightarrow> bool" where
  "isspace c \<longleftrightarrow> c = 32 \<or> 9 \<le> c \<and> c \<le> 13"

text \<open>\<open>%[^.]\<close> and \<open>%s\<close>; each fails without a byte to store.\<close>

definition scan_not_dot :: "u8 list \<Rightarrow> u8 list option" where
  "scan_not_dot bs = (let w = takeWhile (\<lambda>c. c \<noteq> 46) bs in if w = [] then None else Some w)"

definition scan_word :: "u8 list \<Rightarrow> (u8 list \<times> u8 list) option" where
  "scan_word bs = (let bs = dropWhile isspace bs; w = takeWhile (\<lambda>c. \<not> isspace c) bs
     in if w = [] then None else Some (w, drop (length w) bs))"

text \<open>
  \<open>strtoul(var, &end, 0)\<close>: the value and what is left at \<open>end\<close>. Too large a number gives \<open>ULONG_MAX\<close>,
  a minus sign the negated value; without a digit nothing is consumed.
\<close>

definition digit_val :: "u8 \<Rightarrow> nat option" where
  "digit_val c = (if 48 \<le> c \<and> c \<le> 57 then Some (unat c - 48)
     else if 97 \<le> c \<and> c \<le> 122 then Some (unat c - 87)
     else if 65 \<le> c \<and> c \<le> 90 then Some (unat c - 55) else None)"

fun digits_of :: "nat \<Rightarrow> u8 list \<Rightarrow> nat list \<times> u8 list" where
  "digits_of base [] = ([], [])"
| "digits_of base (c # cs) = (case digit_val c of
      Some d \<Rightarrow> if d < base then (case digits_of base cs of (ds, rest) \<Rightarrow> (d # ds, rest)) else ([], c # cs)
    | None \<Rightarrow> ([], c # cs))"

definition clamp_ulong :: "bool \<Rightarrow> nat \<Rightarrow> u32" where
  "clamp_ulong neg n = (if 2 ^ 32 \<le> n then - 1 else if neg then - of_nat n else of_nat n)"

definition strtoul0 :: "u8 list \<Rightarrow> u32 \<times> u8 list" where
  "strtoul0 str =
     (let bs = dropWhile isspace str;
          neg = (take 1 bs = [45]);
          bs = (if take 1 bs = [45] \<or> take 1 bs = [43] then tl bs else bs);
          hex = (take 1 bs = [48] \<and> (take 1 (tl bs) = [120] \<or> take 1 (tl bs) = [88]) \<and> fst (digits_of 16 (drop 2 bs)) \<noteq> []);
          base = (if hex then 16 else if take 1 bs = [48] then 8 else 10);
          (ds, rest) = digits_of base (if hex then drop 2 bs else bs)
      in if ds = [] then (0, str) else (clamp_ulong neg (foldl (\<lambda>n d. n * base + d) 0 ds), rest))"

text \<open>\<open>os_strtok_foreach\<close> over \<open>'|'\<close>: the non-empty parts.\<close>

fun strtok_bar :: "u8 list \<Rightarrow> u8 list \<Rightarrow> u8 list list" where
  "strtok_bar acc [] = (if acc = [] then [] else [rev acc])"
| "strtok_bar acc (c # cs) =
     (if c = 124 then (if acc = [] then strtok_bar [] cs else rev acc # strtok_bar [] cs) else strtok_bar (c # acc) cs)"

subsection \<open>Loading the files\<close>

record akinfo =
  in_filename :: "u8 list"
  in_line :: "u8 list"
  in_app :: "u8 list"
  in_key :: "u8 list"
  in_var :: "u8 list"
  in_value :: u32

definition AKINFO_INITER :: "u8 list \<Rightarrow> u8 list \<Rightarrow> akinfo" where
  "AKINFO_INITER filename line = \<lparr>in_filename = filename, in_line = line, in_app = [], in_key = [], in_var = [], in_value = 0\<rparr>"

datatype ak_sys = AK_SYS_DEBUG

definition syskey :: "u8 list \<Rightarrow> ak_sys option" where
  "syskey key = (if key = asc ''debug'' then Some AK_SYS_DEBUG else None)"

definition syskey_debug_flag :: "u8 list \<Rightarrow> u32" where
  "syskey_debug_flag name =
     (if name = asc ''ok'' then 1 else if name = asc ''error'' then 2 else if name = asc ''trace'' then 4
      else if name = asc ''test'' then 8 else if name = asc ''consume'' then 16 else 0)"

text \<open>\<open>syskey_debug\<close> also sets the debug mask of the library itself, the last component.\<close>

definition syskey_debug :: "akinfo \<Rightarrow> u32 \<Rightarrow> akinfo \<times> u32" where
  "syskey_debug info dbg =
     (let v = fold (\<lambda>name v. v OR syskey_debug_flag name) (strtok_bar [] (in_var info)) 0
      in (info\<lparr>in_value := v\<rparr>, if stracmp_eq (1 + OS_LINE_LEN) (in_app info) (asc ''libappkey'') then v else dbg))"

definition syskey_value :: "ak_sys \<Rightarrow> akinfo \<Rightarrow> u32 \<Rightarrow> int \<times> akinfo \<times> u32" where
  "syskey_value sys info dbg =
     (if in_var info = [42] then (0, info\<lparr>in_value := 0xffffffff\<rparr>, dbg)
      else case sys of AK_SYS_DEBUG \<Rightarrow> (0, syskey_debug info dbg))"

definition load_line_app :: "akinfo \<Rightarrow> int \<times> akinfo" where
  "load_line_app info = (case scan_not_dot (in_filename info) of
      None \<Rightarrow> (err EFORMAT, info)
    | Some app \<Rightarrow>
        let info = info\<lparr>in_app := app\<rparr>
        in if APP_NAMELEN \<le> length app then (err ETOOBIG, info) else (0, info))"

definition load_line_kv :: "akinfo \<Rightarrow> int \<times> akinfo" where
  "load_line_kv info = (case scan_word (in_line info) of
      None \<Rightarrow> (err EFORMAT, info)
    | Some (key, rest) \<Rightarrow> (case scan_word rest of
        None \<Rightarrow> (err EFORMAT, info\<lparr>in_key := key\<rparr>)
      | Some (var, _) \<Rightarrow>
          let info = info\<lparr>in_key := key, in_var := var\<rparr>
          in if APP_KEY_NAMELEN \<le> length key then (err ETOOBIG, info) else (0, info)))"

definition load_line_value :: "akinfo \<Rightarrow> u32 \<Rightarrow> int \<times> akinfo \<times> u32" where
  "load_line_value info dbg = (case strtoul0 (in_var info) of
      (v, rest) \<Rightarrow>
        if rest = [] then (0, info\<lparr>in_value := v\<rparr>, dbg)
        else (case syskey (in_key info) of
            None \<Rightarrow> (err EFORMAT, info, dbg)
          | Some sys \<Rightarrow> syskey_value sys info dbg))"

definition load_line :: "u8 list \<Rightarrow> u8 list \<Rightarrow> appkey_hdr \<times> u32 \<Rightarrow> u32 \<times> appkey_hdr \<times> u32" where
  "load_line filename line s = (case s of (h, dbg) \<Rightarrow>
     let (e, info) = load_line_app (AKINFO_INITER filename line)
     in if e < 0 then (mv2_GO e, h, dbg)
        else let (e, info) = load_line_kv info
        in if e < 0 then (mv2_GO e, h, dbg)
           else let (e, info, dbg) = load_line_value info dbg
           in if e < 0 then (mv2_GO e, h, dbg)
              else let (ak, h) = (case getbyname (in_app info) (in_key info) h of
                       Some idx \<Rightarrow> (Some idx, h)
                     | None \<Rightarrow> ak_new (in_app info) (in_key info) h)
              in (case ak of
                    None \<Rightarrow> (mv2_BREAK (err ELIMIT), h, dbg)
                  | Some idx \<Rightarrow> (mv2_OK, ak_store idx (in_value info) h, dbg)))"

definition filefilter :: "u8 list \<Rightarrow> bool" where
  "filefilter filename \<longleftrightarrow> dropWhile (\<lambda>c. c \<noteq> 46) filename \<noteq> asc ''.key''"

definition ak_load :: "int + dirent list \<Rightarrow> u32 \<Rightarrow> appkey_hdr \<times> u32 \<Rightarrow> (int \<times> appkey_hdr \<times> u32) outcome" where
  "ak_load dir junk s = obind (os_sfscan_dir dir False filefilter junk load_line s)
     (\<lambda>(ret, s). Ret (if ret < 0 then ret else 0, s))"

text \<open>\<open>appkey_reload\<close> prints the table, the second component.\<close>

definition appkey_reload :: "int + dirent list \<Rightarrow> u32 \<Rightarrow> appkey_hdr \<times> u32 \<Rightarrow> (int \<times> appkey list \<times> appkey_hdr \<times> u32) outcome" where
  "appkey_reload dir junk s = obind (ak_load dir junk s)
     (\<lambda>(_, h, dbg). Ret (0, take (nat (hd_count h)) (hd_keys h), h, dbg))"

definition ak_init :: "u32 \<Rightarrow> int + dirent list \<Rightarrow> u32 \<Rightarrow> appkey_hdr \<times> u32 \<Rightarrow> (int \<times> appkey_hdr \<times> u32) outcome" where
  "ak_init limit dir junk s = (case s of (h, dbg) \<Rightarrow>
     if hd_inited h = False
     then obind (ak_load dir junk (h\<lparr>hd_inited := True, hd_limit := sint limit, hd_protect := OS_PROTECTED,
            hd_protect1 := OS_PROTECTED\<rparr>, dbg)) (\<lambda>(_, s). Ret (0, s))
     else Ret (0, h, dbg))"

text \<open>Shared memory comes zeroed, with room for \<open>limit\<close> entries.\<close>

definition ak_shm :: "nat \<Rightarrow> appkey_hdr" where
  "ak_shm limit = \<lparr>hd_protect = 0, hd_inited = False, hd_count = 0, hd_limit = 0,
     hd_keys = replicate limit \<lparr>ak_app = [], ak_name = [], ak_value = 0\<rparr>, hd_protect1 = 0\<rparr>"

text \<open>
  The constructor. \<open>os_sfgeti\<close> passes the mode as the file name and the name as the mode of
  \<open>fopen\<close>, which fails for a mode that starts with \<open>'/'\<close>, so the limit is always \<open>APPKEY_LIMIT\<close>. \<open>shm\<close>
  is the attached segment, \<open>None\<close> when it cannot be attached: the positive \<open>errno\<close> passes the test
  for failure and the invalid address is used.
\<close>

definition appkey_init :: "appkey_hdr option \<Rightarrow> int + dirent list \<Rightarrow> u32 \<Rightarrow> (appkey_hdr \<times> u32) outcome" where
  "appkey_init shm dir junk = (case shm of
      None \<Rightarrow> Abort
    | Some h \<Rightarrow> obind (ak_init APPKEY_LIMIT dir junk (h, 2)) (\<lambda>(_, s). Ret s))"

subsection \<open>The command\<close>

definition appkey_commands :: "unit command_item list" where
  "appkey_commands = [command [asc ''-reload''] ()]"

definition appkey_main :: "u8 list list \<Rightarrow> int + dirent list \<Rightarrow> u32 \<Rightarrow> appkey_hdr \<times> u32 \<Rightarrow> (int \<times> appkey_hdr \<times> u32) outcome" where
  "appkey_main argv dir junk s = (case os_do_command argv (COMMAND_CTRL_INITER appkey_commands) of
      Run _ \<Rightarrow> obind (appkey_reload dir junk s) (\<lambda>(_, _, s). Ret (0, s))
    | ShowHelp _ \<Rightarrow> Ret (err EFORMAT, s))"

subsection \<open>The table as a map\<close>

text \<open>
  A good table counts its entries, and the names in use are short, free of NUL bytes and pairwise
  different. Then it is a map from pairs of names to values.
\<close>

definition ak_used :: "appkey_hdr \<Rightarrow> appkey list" where
  "ak_used h = take (nat (hd_count h)) (hd_keys h)"

definition ak_names :: "appkey \<Rightarrow> u8 list \<times> u8 list" where
  "ak_names ak = (ak_app ak, ak_name ak)"

definition good_name :: "u8 list \<Rightarrow> bool" where
  "good_name s \<longleftrightarrow> length s < 31 \<and> 0 \<notin> set s"

definition ak_ok :: "appkey_hdr \<Rightarrow> bool" where
  "ak_ok h \<longleftrightarrow> 0 \<le> hd_count h \<and> hd_count h \<le> hd_limit h \<and> int (length (hd_keys h)) = hd_limit h \<and> hd_limit h < 2 ^ 15
    \<and> distinct (map ak_names (ak_used h)) \<and> (\<forall>ak \<in> set (ak_used h). good_name (ak_app ak) \<and> good_name (ak_name ak))"

definition ak_map :: "appkey_hdr \<Rightarrow> u8 list \<times> u8 list \<Rightarrow> u32 option" where
  "ak_map h = map_of (map (\<lambda>ak. (ak_names ak, ak_value ak)) (ak_used h))"

lemma stracmp_eq_good: "good_name s \<Longrightarrow> 0 \<notin> set t \<Longrightarrow> stracmp_eq 32 s t \<longleftrightarrow> s = t"
proof
  assume s: "good_name s" "0 \<notin> set t" and "stracmp_eq 32 s t"
  then have e: "s @ [0] = take 32 (t @ [0])"
    by (simp add: stracmp_eq_def good_name_def del: take_append)
  show "s = t"
  proof (cases "length t < 32")
    case True
    then show ?thesis
      using e by simp
  next
    case False
    then have "s @ [0] = take 32 t"
      using e by simp
    then have "0 \<in> set (take 32 t)"
      by (metis in_set_conv_decomp)
    then show ?thesis
      using s(2) in_set_takeD by fastforce
  qed
qed (simp add: stracmp_eq_def)

definition all_good :: "appkey list \<Rightarrow> bool" where
  "all_good aks \<longleftrightarrow> (\<forall>ak \<in> set aks. good_name (ak_app ak) \<and> good_name (ak_name ak))"

lemma name_match:
  "good_name (ak_app ak) \<Longrightarrow> good_name (ak_name ak) \<Longrightarrow> 0 \<notin> set app \<Longrightarrow> 0 \<notin> set key \<Longrightarrow>
   stracmp_eq (1 + APP_NAMELEN) (ak_app ak) app \<and> stracmp_eq (1 + APP_KEY_NAMELEN) (ak_name ak) key \<longleftrightarrow> ak_names ak = (app, key)"
  by (simp add: APP_NAMELEN_def APP_KEY_NAMELEN_def stracmp_eq_good ak_names_def)

lemma getbyname_loop_None:
  "all_good aks \<Longrightarrow> 0 \<notin> set app \<Longrightarrow> 0 \<notin> set key \<Longrightarrow> (app, key) \<notin> ak_names ` set aks \<Longrightarrow> getbyname_loop app key aks i = None"
  using name_match by (induction aks arbitrary: i) (auto simp: all_good_def)

lemma getbyname_loop_Some:
  "all_good aks \<Longrightarrow> 0 \<notin> set app \<Longrightarrow> 0 \<notin> set key \<Longrightarrow> distinct (map ak_names aks) \<Longrightarrow> n < length aks \<Longrightarrow>
   ak_names (aks ! n) = (app, key) \<Longrightarrow> getbyname_loop app key aks i = Some (i + int n)"
proof (induction aks arbitrary: i n)
  case (Cons ak aks)
  have g: "stracmp_eq (1 + APP_NAMELEN) (ak_app ak) app \<and> stracmp_eq (1 + APP_KEY_NAMELEN) (ak_name ak) key \<longleftrightarrow> ak_names ak = (app, key)"
    using Cons.prems name_match by (simp add: all_good_def)
  show ?case
  proof (cases n)
    case 0
    then show ?thesis
      using g Cons.prems(6) by simp
  next
    case (Suc m)
    then have m: "m < length aks" "ak_names (aks ! m) = (app, key)"
      using Cons.prems(5,6) by simp_all
    then have "ak_names ak \<noteq> (app, key)"
      using Cons.prems(4) nth_mem [of m aks] by (metis distinct.simps(2) image_eqI list.set_map list.simps(9))
    then show ?thesis
      using Cons.IH [of m "i + 1"] Cons.prems(1-4) m g Suc by (simp add: all_good_def)
  qed
qed simp

lemma ak_ok_alt: "ak_ok h \<longleftrightarrow> 0 \<le> hd_count h \<and> hd_count h \<le> hd_limit h \<and> int (length (hd_keys h)) = hd_limit h \<and> hd_limit h < 2 ^ 15
    \<and> distinct (map ak_names (ak_used h)) \<and> all_good (ak_used h)"
  by (simp add: ak_ok_def all_good_def)

lemma length_ak_used: "ak_ok h \<Longrightarrow> int (length (ak_used h)) = hd_count h"
  by (auto simp: ak_ok_def ak_used_def min_def)

lemma getbyname_cases:
  assumes "ak_ok h" "0 \<notin> set app" "0 \<notin> set key"
  obtains (absent) "getbyname app key h = None" "(app, key) \<notin> ak_names ` set (ak_used h)"
  | (present) n where "getbyname app key h = Some (int n)" "n < length (ak_used h)" "ak_names (ak_used h ! n) = (app, key)"
proof (cases "(app, key) \<in> ak_names ` set (ak_used h)")
  case True
  then obtain n where "n < length (ak_used h)" "ak_names (ak_used h ! n) = (app, key)"
    by (metis (no_types, lifting) imageE in_set_conv_nth)
  then show ?thesis
    using present [of n] assms getbyname_loop_Some [of "ak_used h" app key n 0] by (simp add: ak_ok_alt getbyname_def ak_used_def)
next
  case False
  then show ?thesis
    using absent assms getbyname_loop_None [of "ak_used h" app key 0] by (simp add: ak_ok_alt getbyname_def ak_used_def)
qed

lemma ak_map_nth: "ak_ok h \<Longrightarrow> n < length (ak_used h) \<Longrightarrow> ak_map h (ak_names (ak_used h ! n)) = Some (ak_value (ak_used h ! n))"
proof -
  assume h: "ak_ok h" "n < length (ak_used h)"
  have "distinct (map fst (map (\<lambda>ak. (ak_names ak, ak_value ak)) (ak_used h)))"
    using h(1) by (simp add: ak_ok_def comp_def)
  moreover have "(ak_names (ak_used h ! n), ak_value (ak_used h ! n)) \<in> set (map (\<lambda>ak. (ak_names ak, ak_value ak)) (ak_used h))"
    using h(2) by auto
  ultimately show ?thesis
    by (simp only: ak_map_def map_of_eq_Some_iff)
qed

text \<open>Storing a value in an entry in use, and adding an entry.\<close>

lemma ak_store_used: "ak_ok h \<Longrightarrow> n < length (ak_used h) \<Longrightarrow> ak_used (ak_store (int n) v h) = (ak_used h)[n := (ak_used h ! n)\<lparr>ak_value := v\<rparr>]"
  by (simp add: ak_used_def ak_store_def take_update_swap)

lemma map_of_list_update:
  "distinct (map f xs) \<Longrightarrow> n < length xs \<Longrightarrow> f x = f (xs ! n) \<Longrightarrow>
   map_of (map (\<lambda>x. (f x, g x)) (xs[n := x])) = (map_of (map (\<lambda>x. (f x, g x)) xs))(f (xs ! n) \<mapsto> g x)"
proof (induction xs arbitrary: n)
  case (Cons y ys)
  show ?case
  proof (cases n)
    case 0
    then show ?thesis
      using Cons.prems by auto
  next
    case (Suc m)
    then have "f (ys ! m) \<in> f ` set ys"
      using Cons.prems(2) by simp
    then have "f (ys ! m) \<noteq> f y"
      using Cons.prems(1) by auto
    then show ?thesis
      using Cons.IH [of m] Cons.prems Suc fun_upd_twist [of "f (ys ! m)" "f y"] by auto
  qed
qed simp

lemma ak_store_ok:
  assumes "ak_ok h" "n < length (ak_used h)"
  shows "ak_ok (ak_store (int n) v h)" "ak_map (ak_store (int n) v h) = (ak_map h)(ak_names (ak_used h ! n) \<mapsto> v)"
    "map ak_names (ak_used (ak_store (int n) v h)) = map ak_names (ak_used h)"
proof -
  let ?x = "(ak_used h ! n)\<lparr>ak_value := v\<rparr>"
  have x: "ak_names ?x = ak_names (ak_used h ! n)" "ak_value ?x = v"
    by (simp_all add: ak_names_def)
  show n: "map ak_names (ak_used (ak_store (int n) v h)) = map ak_names (ak_used h)"
    using assms x(1) by (simp add: ak_store_used map_update list_update_same_conv)
  have "all_good (ak_used (ak_store (int n) v h))"
    using assms set_update_subset_insert [of "ak_used h" n ?x] nth_mem [OF assms(2)]
    by (auto simp: ak_store_used ak_ok_alt all_good_def)
  then show "ak_ok (ak_store (int n) v h)"
    using assms n by (simp add: ak_ok_alt) (simp add: ak_store_def)
  show "ak_map (ak_store (int n) v h) = (ak_map h)(ak_names (ak_used h ! n) \<mapsto> v)"
    unfolding ak_map_def ak_store_used [OF assms] using map_of_list_update [of ak_names "ak_used h" n ?x ak_value] assms x
    by (simp add: ak_ok_alt)
qed

lemma ak_new_ok:
  assumes "ak_ok h" "hd_count h < hd_limit h" "good_name app" "good_name key" "(app, key) \<notin> ak_names ` set (ak_used h)"
  shows "\<exists>h' ak. ak_new app key h = (Some (int (length (ak_used h))), h') \<and> ak_used h' = ak_used h @ [ak]
    \<and> ak_names ak = (app, key) \<and> ak_ok h' \<and> hd_limit h' = hd_limit h"
proof -
  let ?n = "nat (hd_count h)"
  let ?ak = "(hd_keys h ! ?n)\<lparr>ak_app := app, ak_name := key\<rparr>"
  let ?h = "h\<lparr>hd_count := hd_count h + 1, hd_keys := (hd_keys h)[?n := ?ak]\<rparr>"
  have n: "?n < length (hd_keys h)" "int ?n = hd_count h" "nat (hd_count h + 1) = Suc ?n"
    using assms(1,2) by (auto simp: ak_ok_def)
  have new: "ak_new app key h = (Some (hd_count h), ?h)"
    using assms(2-4) by (simp add: ak_new_def Let_def strlcpy_loop_take APP_NAMELEN_def APP_KEY_NAMELEN_def good_name_def)
  have used: "ak_used ?h = ak_used h @ [?ak]"
    using n by (simp add: ak_used_def take_Suc_conv_app_nth)
  have names: "ak_names ?ak = (app, key)"
    by (simp add: ak_names_def)
  have "all_good (ak_used ?h)" "distinct (map ak_names (ak_used ?h))"
    unfolding used using assms(1,3-5) names by (auto simp: ak_ok_alt all_good_def)
  then have "ak_ok ?h"
    using assms(1,2) by (simp add: ak_ok_alt)
  moreover have "ak_new app key h = (Some (int (length (ak_used h))), ?h)"
    using new length_ak_used [OF assms(1)] by simp
  ultimately show ?thesis
    using used names by (intro exI [of _ ?h] exI [of _ ?ak]) simp
qed

text \<open>What loading never undoes: entries stay where they are.\<close>

definition ak_extends :: "appkey_hdr \<Rightarrow> appkey_hdr \<Rightarrow> bool" where
  "ak_extends h h' \<longleftrightarrow> ak_ok h' \<and> hd_limit h' = hd_limit h \<and> (\<exists>ns. map ak_names (ak_used h') = map ak_names (ak_used h) @ ns)"

text \<open>The tail of \<open>load_line\<close>, once the line is understood.\<close>

definition ak_put :: "u8 list \<Rightarrow> u8 list \<Rightarrow> u32 \<Rightarrow> appkey_hdr \<Rightarrow> u32 \<times> appkey_hdr" where
  "ak_put app key v h =
     (let (ak, h) = (case getbyname app key h of Some idx \<Rightarrow> (Some idx, h) | None \<Rightarrow> ak_new app key h)
      in (case ak of None \<Rightarrow> (mv2_BREAK (err ELIMIT), h) | Some idx \<Rightarrow> (mv2_OK, ak_store idx v h)))"

lemma ak_put_ok:
  assumes "ak_ok h" "good_name app" "good_name key"
  shows "if (app, key) \<notin> ak_names ` set (ak_used h) \<and> hd_count h = hd_limit h then ak_put app key v h = (mv2_BREAK (err ELIMIT), h)
    else \<exists>h'. ak_put app key v h = (mv2_OK, h') \<and> ak_extends h h' \<and> ak_map h' = (ak_map h)((app, key) \<mapsto> v)
      \<and> hd_count h' \<le> hd_count h + 1"
proof -
  have nul: "0 \<notin> set app" "0 \<notin> set key"
    using assms(2,3) by (simp_all add: good_name_def)
  from assms(1) nul show ?thesis
  proof (cases rule: getbyname_cases)
    case absent
    show ?thesis
    proof (cases "hd_count h = hd_limit h")
      case True
      then show ?thesis
        using absent by (simp add: ak_put_def ak_new_def)
    next
      case False
      then have "hd_count h < hd_limit h"
        using assms(1) by (simp add: ak_ok_def)
      then obtain h1 ak where h1: "ak_new app key h = (Some (int (length (ak_used h))), h1)" "ak_used h1 = ak_used h @ [ak]"
          "ak_names ak = (app, key)" "ak_ok h1" "hd_limit h1 = hd_limit h"
        using ak_new_ok [OF assms(1) _ assms(2,3) absent(2)] by blast
      note st = ak_store_ok [OF h1(4), of "length (ak_used h)" v]
      have "ak_map h1 = (ak_map h)((app, key) \<mapsto> ak_value ak)"
        using absent(2) h1(2,3) map_of_snoc [of "map (\<lambda>ak. (ak_names ak, ak_value ak)) (ak_used h)" "(app, key)" "ak_value ak"]
        by (simp add: ak_map_def map_of_eq_None_iff image_image)
      moreover have "hd_count h1 = hd_count h + 1"
        using length_ak_used [OF assms(1)] length_ak_used [OF h1(4)] h1(2) by simp
      moreover have "hd_limit (ak_store i v h1) = hd_limit h1" "hd_count (ak_store i v h1) = hd_count h1" for i
        by (simp_all add: ak_store_def)
      ultimately show ?thesis
        using absent(1) False h1 st by (simp add: ak_put_def ak_extends_def)
    qed
  next
    case (present n)
    have "(app, key) \<in> ak_names ` set (ak_used h)"
      using present(2,3) by (metis image_eqI nth_mem)
    moreover have "hd_limit (ak_store (int n) v h) = hd_limit h" "hd_count (ak_store (int n) v h) = hd_count h"
      by (simp_all add: ak_store_def)
    ultimately show ?thesis
      using present ak_store_ok [OF assms(1) present(2), of v] by (simp add: ak_put_def ak_extends_def)
  qed
qed

subsection \<open>Loading a line\<close>

lemma load_line_split:
  assumes "load_line_app (AKINFO_INITER filename line) = (0, i1)" "load_line_kv i1 = (0, i2)" "load_line_value i2 dbg = (0, i3, dbg')"
  shows "load_line filename line (h, dbg) = (let (mv, h) = ak_put (in_app i3) (in_key i3) (in_value i3) h in (mv, h, dbg'))"
  using assms by (simp add: load_line_def ak_put_def Let_def split: option.split prod.split)

lemma scan_word_subset: "scan_word bs = Some (w, rest) \<Longrightarrow> set w \<subseteq> set bs \<and> set rest \<subseteq> set bs"
  by (auto simp: scan_word_def Let_def dest: set_takeWhileD set_dropWhileD in_set_dropD split: if_splits)

lemma load_line_names:
  assumes "load_line_app (AKINFO_INITER filename line) = (e1, i1)" "\<not> e1 < 0" "load_line_kv i1 = (e2, i2)" "\<not> e2 < 0"
    and "load_line_value i2 dbg = (e3, i3, dbg')" "\<not> e3 < 0" "0 \<notin> set filename" "0 \<notin> set line"
  shows "e1 = 0 \<and> e2 = 0 \<and> e3 = 0 \<and> good_name (in_app i3) \<and> good_name (in_key i3)"
proof -
  obtain app where app: "scan_not_dot filename = Some app" "length app < 31" "e1 = 0" "i1 = (AKINFO_INITER filename line)\<lparr>in_app := app\<rparr>"
    using assms(1,2) by (auto simp: load_line_app_def AKINFO_INITER_def APP_NAMELEN_def Let_def split: option.splits if_splits)
  obtain key rest var rest' where kv: "scan_word line = Some (key, rest)" "scan_word rest = Some (var, rest')" "length key < 31" "e2 = 0"
      "i2 = i1\<lparr>in_key := key, in_var := var\<rparr>"
    using assms(3,4) app(4) by (auto simp: load_line_kv_def AKINFO_INITER_def APP_KEY_NAMELEN_def Let_def split: option.splits if_splits prod.splits)
  have v: "e3 = 0" "in_app i3 = in_app i2" "in_key i3 = in_key i2"
    using assms(5,6) by (auto simp: load_line_value_def syskey_value_def syskey_debug_def Let_def split: prod.splits option.splits if_splits ak_sys.splits)
  have "0 \<notin> set app"
    using app(1) assms(7) by (auto simp: scan_not_dot_def Let_def dest: set_takeWhileD split: if_splits)
  moreover have "0 \<notin> set key"
    using scan_word_subset [OF kv(1)] assms(8) by blast
  ultimately show ?thesis
    using app kv v by (simp add: good_name_def)
qed

lemma load_line_extends:
  assumes "0 \<notin> set filename" "0 \<notin> set line" "ak_ok h"
  shows "ak_extends h (fst (snd (load_line filename line (h, dbg))))"
proof -
  have refl: "ak_extends h h"
    using assms(3) by (simp add: ak_extends_def)
  obtain e1 i1 where 1: "load_line_app (AKINFO_INITER filename line) = (e1, i1)"
    by fastforce
  obtain e2 i2 where 2: "load_line_kv i1 = (e2, i2)"
    by fastforce
  obtain e3 i3 dbg' where 3: "load_line_value i2 dbg = (e3, i3, dbg')"
    by (cases "load_line_value i2 dbg") blast
  show ?thesis
  proof (cases "e1 < 0 \<or> e2 < 0 \<or> e3 < 0")
    case True
    then show ?thesis
      using refl 1 2 3 by (auto simp: load_line_def)
  next
    case False
    then have e: "e1 = 0" "e2 = 0" "e3 = 0" "good_name (in_app i3)" "good_name (in_key i3)"
      using load_line_names [OF 1 _ 2 _ 3 _ assms(1,2)] by simp_all
    have "ak_extends h (snd (ak_put (in_app i3) (in_key i3) (in_value i3) h))"
      using ak_put_ok [OF assms(3) e(4,5), of "in_value i3"] refl by (auto split: if_splits)
    then show ?thesis
      using load_line_split [of filename line i1 i2 dbg i3 dbg' h] 1 2 3 e(1-3) by (simp add: Let_def split_beta)
  qed
qed

lemma ak_extends_trans: "ak_extends a b \<Longrightarrow> ak_extends b c \<Longrightarrow> ak_extends a c"
  unfolding ak_extends_def by (metis append.assoc)

lemma ak_extends_ok: "ak_extends a b \<Longrightarrow> ak_ok b"
  by (simp add: ak_extends_def)

interpretation akl: line_invariant load_line "\<lambda>s. ak_extends h (fst s)" for h
proof
  fix filename line :: "u8 list" and s :: "appkey_hdr \<times> u32"
  assume "0 \<notin> set filename" "0 \<notin> set line" and s: "ak_extends h (fst s)"
  then have "ak_extends (fst s) (fst (snd (load_line filename line (fst s, snd s))))"
    using load_line_extends [OF _ _ ak_extends_ok [OF s]] by blast
  then show "ak_extends h (fst (snd (load_line filename line s)))"
    using ak_extends_trans [OF s] by simp
qed

lemma ak_load_extends:
  assumes "ak_ok h" "dir_ok dir" "ak_load dir junk (h, dbg) = Ret (r, h', dbg')"
  shows "ak_extends h h'"
proof -
  obtain r1 where "os_sfscan_dir dir False filefilter junk load_line (h, dbg) = Ret (r1, h', dbg')"
    using assms(3) by (auto simp: ak_load_def obind_eq_Ret)
  then show ?thesis
    using akl.scan_keeps [of dir h "(h, dbg)" False filefilter junk r1 "(h', dbg')"] assms(1,2) by (simp add: ak_extends_def)
qed

lemma ak_load_returns: "dir_readable dir \<Longrightarrow> \<exists>r s'. ak_load dir junk s = Ret (r, s')"
  using sfscan_dir_returns [of dir filefilter junk load_line s] by (auto simp: ak_load_def)

subsection \<open>Identifiers\<close>

lemma ak_make_parts:
  assumes "0 \<le> idx" "idx < 2 ^ 16"
  shows "ak_idx (ak_make idx off) = idx" "ak_offset (ak_make idx off) = off mod 2 ^ 16"
proof -
  have "ucast (drop_bit 16 (push_bit 16 (ucast (a :: u16)) OR ucast (b :: u16) :: u32)) = a \<and> ucast (push_bit 16 (ucast a) OR ucast b :: u32) = b" for a b
    by (rule conjI; rule bit_word_eqI) (auto simp: bit_simps dest: bit_imp_le_length)
  then show "ak_idx (ak_make idx off) = idx" "ak_offset (ak_make idx off) = off mod 2 ^ 16"
    using assms by (simp_all add: ak_idx_def ak_offset_def ak_make_def uint_word_of_int take_bit_int_eq_self)
qed

lemma getbyid_make:
  assumes "ak_ok h" "n < length (ak_used h)"
  shows "getbyid (ak_make (int n) (getoffset (int n))) h = (if n < 964 then Some (int n) else None)"
proof -
  have n: "int n < hd_count h" "int n < 2 ^ 16"
    using assms length_ak_used [OF assms(1)] by (simp_all add: ak_ok_def)
  have "(16 + 68 * int n) mod 2 ^ 16 = 16 + 68 * int n \<longleftrightarrow> n < 964"
  proof -
    have "(16 + 68 * int n) mod 2 ^ 16 < 2 ^ 16"
      by (rule pos_mod_bound) simp
    then show ?thesis
      by (cases "n < 964") (auto simp: mod_pos_pos_trivial)
  qed
  then show ?thesis
    using n ak_make_parts [of "int n" "getoffset (int n)"] by (simp add: getbyid_def getoffset_def is_good_enum_def is_good_value_def)
qed

lemma getbyid_invalid: "getbyid INVALID_APPKEY h = None"
  by (simp add: getbyid_def INVALID_APPKEY_def ak_offset_def ak_idx_def getoffset_def)

lemma appkey_getbyname_nth:
  assumes "ak_ok h" "n < length (ak_used h)" "ak_names (ak_used h ! n) = (app, key)"
  shows "appkey_getbyname (Some app) (Some key) h = Ret (ak_make (int n) (getoffset (int n)))"
proof -
  have "all_good (ak_used h)" "distinct (map ak_names (ak_used h))"
    using assms(1) by (simp_all add: ak_ok_alt)
  moreover have "0 \<notin> set app" "0 \<notin> set key"
    using assms nth_mem [OF assms(2)] by (auto simp: ak_ok_def good_name_def ak_names_def)
  ultimately have "getbyname app key h = Some (int n)"
    using getbyname_loop_Some [of "ak_used h" app key n 0] assms(2,3) by (simp add: getbyname_def ak_used_def)
  then show ?thesis
    by (simp add: appkey_getbyname_def)
qed

lemma appkey_get_nth:
  assumes "ak_ok h" "n < length (ak_used h)"
  shows "appkey_get (ak_make (int n) (getoffset (int n))) deft h = (if n < 964 then ak_value (ak_used h ! n) else deft)"
  using assms by (simp add: appkey_get_def appkey_get_into_def getbyid_make Let_def ak_used_def)

text \<open>C33: what a client sees of the settings table. The identifier of the \<open>n\<close>-th entry reads and writes that entry's value for
  \<open>n < 964\<close>. From entry 964 on the byte offset no longer fits its 16 bits: a read gives the caller's default and a write
  fails with \<open>-ENOEXIST\<close>, although the table has room for 1023 entries.\<close>

theorem appkey_client_view:
  assumes "ak_ok h" and "n < length (ak_used h)" and "ak_names (ak_used h ! n) = (app, key)"
  shows "\<exists>akid. appkey_getbyname (Some app) (Some key) h = Ret akid \<and>
    (if n < 964 then appkey_get akid deft h = ak_value (ak_used h ! n)
       \<and> (\<exists>h'. appkey_set akid v h = (0, h') \<and> ak_ok h' \<and> ak_map h' = (ak_map h)((app, key) \<mapsto> v) \<and> appkey_get akid deft h' = v)
     else appkey_get akid deft h = deft \<and> appkey_set akid v h = (err ENOEXIST, h))"
proof -
  let ?id = "ak_make (int n) (getoffset (int n))"
  have get: "appkey_get ?id deft h = (if n < 964 then ak_value (ak_used h ! n) else deft)"
    by (rule appkey_get_nth [OF assms(1,2)])
  have set: "appkey_set ?id v h = (if n < 964 then (0, ak_store (int n) v h) else (err ENOEXIST, h))"
    using assms by (simp add: appkey_set_def getbyid_make)
  note st = ak_store_ok [OF assms(1,2), of v] ak_store_used [OF assms(1,2), of v]
  have "appkey_get ?id deft (ak_store (int n) v h) = v" if "n < 964"
    using appkey_get_nth [OF st(1), of n deft] assms(2) that by (simp add: st(4))
  then show ?thesis
    using get set st(1,2) assms(3) appkey_getbyname_nth [OF assms] by (intro exI [of _ ?id]) simp
qed

text \<open>C34: identifiers survive a reload. Whatever the files of the directory hold, if each can be read to its end or not opened at
  all, loading them returns, keeps the table good, and an identifier that named a key before names the same key afterwards. (A read
  error, or a directory with the name of a key file, would make the scan run for ever.)\<close>

theorem appkey_id_survives_reload:
  assumes "ak_ok h" and "dir_ok dir" and "dir_readable dir" and "appkey_getbyname (Some app) (Some key) h = Ret akid"
    and "akid \<noteq> INVALID_APPKEY" and "0 \<notin> set app" and "0 \<notin> set key"
  shows "\<exists>table h' dbg'. appkey_reload dir junk (h, dbg) = Ret (0, table, h', dbg') \<and> ak_ok h'
    \<and> appkey_getbyname (Some app) (Some key) h' = Ret akid"
proof -
  obtain r h' dbg' where l: "ak_load dir junk (h, dbg) = Ret (r, h', dbg')"
    using ak_load_returns [OF assms(3), of junk "(h, dbg)"] by auto
  have ext: "ak_extends h h'"
    by (rule ak_load_extends [OF assms(1,2) l])
  from assms(1,6,7) have "appkey_getbyname (Some app) (Some key) h' = Ret akid"
  proof (cases rule: getbyname_cases)
    case absent
    then show ?thesis
      using assms(4,5) by (simp add: appkey_getbyname_def)
  next
    case (present n)
    obtain ns where ns: "map ak_names (ak_used h') = map ak_names (ak_used h) @ ns"
      using ext by (auto simp: ak_extends_def)
    have n: "n < length (ak_used h')"
      using arg_cong [OF ns, of length] present(2) by simp
    have "map ak_names (ak_used h') ! n = map ak_names (ak_used h) ! n"
      using present(2) by (simp add: ns nth_append)
    then have "ak_names (ak_used h' ! n) = (app, key)"
      using n present(2,3) by simp
    then show ?thesis
      using appkey_getbyname_nth [OF ak_extends_ok [OF ext] n] appkey_getbyname_nth [OF assms(1) present(2,3)] assms(4) by simp
  qed
  then show ?thesis
    using l ak_extends_ok [OF ext] by (simp add: appkey_reload_def)
qed

subsection \<open>Loading a file\<close>

definition key_word :: "u8 list \<Rightarrow> bool" where
  "key_word w \<longleftrightarrow> w \<noteq> [] \<and> (\<forall>c \<in> set w. \<not> isspace c \<and> c \<noteq> 0)"

text \<open>A line of a key file: the key, the spelling of the value and the value.\<close>

definition key_line :: "u8 list \<times> u8 list \<times> u32 \<Rightarrow> u8 list" where
  "key_line e = (case e of (key, var, v) \<Rightarrow> key @ 32 # var)"

definition clean_key :: "u8 list \<times> u8 list \<times> u32 \<Rightarrow> bool" where
  "clean_key e = (case e of (key, var, v) \<Rightarrow> key_word key \<and> key_word var \<and> length key < 31 \<and> hd key \<noteq> 35
     \<and> strtoul0 var = (v, []) \<and> length (key_line e) < OS_LINE_LEN - 1)"

lemma scan_word_first: "key_word w \<Longrightarrow> scan_word (w @ 32 # rest) = Some (w, 32 # rest)"
proof -
  assume w: "key_word w"
  then have "dropWhile isspace (w @ 32 # rest) = w @ 32 # rest"
    by (cases w) (simp_all add: key_word_def)
  moreover have "takeWhile (\<lambda>c. \<not> isspace c) (w @ 32 # rest) = w"
    using w by (subst takeWhile_append2) (simp_all add: key_word_def isspace_def)
  ultimately show ?thesis
    using w by (simp add: scan_word_def Let_def key_word_def)
qed

lemma scan_word_last: "key_word w \<Longrightarrow> scan_word (32 # w) = Some (w, [])"
proof -
  assume w: "key_word w"
  then have d: "dropWhile isspace (32 # w) = w"
    by (cases w) (simp_all add: key_word_def isspace_def)
  have t: "takeWhile (\<lambda>c. \<not> isspace c) w = w"
    using w by (simp add: key_word_def)
  show ?thesis
    unfolding scan_word_def Let_def d t using w by (simp add: key_word_def)
qed

definition app_file :: "u8 list \<Rightarrow> u8 list" where
  "app_file app = app @ asc ''.key''"

definition good_app :: "u8 list \<Rightarrow> bool" where
  "good_app app \<longleftrightarrow> app \<noteq> [] \<and> good_name app \<and> 46 \<notin> set app"

lemma asc_key: "asc ''.key'' = [46, 107, 101, 121]"
  by code_simp

lemma app_file_scan: "good_app app \<Longrightarrow> scan_not_dot (app_file app) = Some app" "good_app app \<Longrightarrow> \<not> filefilter (app_file app)"
proof -
  assume a: "good_app app"
  then have p: "\<forall>c \<in> set app. c \<noteq> 46"
    by (auto simp: good_app_def)
  then show "scan_not_dot (app_file app) = Some app"
    using a takeWhile_append2 [of app "\<lambda>c. c \<noteq> 46" "asc ''.key''"]
    by (simp add: scan_not_dot_def app_file_def Let_def good_app_def asc_key)
  show "\<not> filefilter (app_file app)"
    using p dropWhile_append2 [of app "\<lambda>c. c \<noteq> 46" "asc ''.key''"] by (simp add: filefilter_def app_file_def asc_key)
qed

lemma load_line_clean:
  assumes "good_app app" "clean_key (key, var, v)"
  shows "load_line (app_file app) (key_line (key, var, v)) (h, dbg) = (let (mv, h) = ak_put app key v h in (mv, h, dbg))"
proof -
  let ?i = "\<lparr>in_filename = app_file app, in_line = key_line (key, var, v), in_app = app, in_key = [], in_var = [], in_value = 0\<rparr>"
  have "load_line_app (AKINFO_INITER (app_file app) (key_line (key, var, v))) = (0, ?i)"
    using assms(1) by (simp add: load_line_app_def AKINFO_INITER_def app_file_scan Let_def APP_NAMELEN_def good_app_def good_name_def)
  moreover have "load_line_kv ?i = (0, ?i\<lparr>in_key := key, in_var := var\<rparr>)"
    using assms(2) by (simp add: load_line_kv_def key_line_def clean_key_def scan_word_first scan_word_last APP_KEY_NAMELEN_def)
  moreover have "load_line_value (?i\<lparr>in_key := key, in_var := var\<rparr>) dbg = (0, ?i\<lparr>in_key := key, in_var := var, in_value := v\<rparr>, dbg)"
    using assms(2) by (simp add: load_line_value_def clean_key_def)
  ultimately show ?thesis
    using load_line_split by simp
qed

lemma isspace_blanks: "isspace 9" "isspace 10" "isspace 13" "isspace 32"
  by (simp_all add: isspace_def)

lemma not_space_char_is: "\<not> isspace c \<Longrightarrow> c \<noteq> 0 \<Longrightarrow> \<not> char_is None c \<and> c \<noteq> 10 \<and> c \<noteq> 13 \<and> c \<noteq> 0"
  using isspace_blanks by (auto simp: char_is_def blanks_def)

lemma reduced_words: "(\<And>c. c \<in> set w \<Longrightarrow> \<not> char_is None c) \<Longrightarrow> (rest \<noteq> [] \<Longrightarrow> \<not> char_is None (hd rest)) \<Longrightarrow> rest \<noteq> [] \<Longrightarrow>
   reduced None (w @ 32 # rest) = reduced None rest"
  by (induction w; cases rest) (auto simp: reduced_Cons)

lemma reduced_word: "(\<And>c. c \<in> set w \<Longrightarrow> \<not> char_is None c) \<Longrightarrow> reduced None w"
  by (induction w) (auto simp: reduced_Cons)

lemma key_line_clean:
  assumes "clean_key e"
  shows "sf_clean_line (key_line e @ [10]) = key_line e" "\<not> is_blank_line (key_line e)" "\<not> is_notes_line_deft (key_line e)"
    "10 \<notin> set (key_line e)" "0 \<notin> set (key_line e)" "length (key_line e) < OS_LINE_LEN - 1"
proof -
  obtain key var v where e: "e = (key, var, v)"
    by (cases e)
  have c: "c \<in> set key \<union> set var \<Longrightarrow> \<not> char_is None c \<and> c \<noteq> 10 \<and> c \<noteq> 13 \<and> c \<noteq> 0" for c
    using assms not_space_char_is by (auto simp: clean_key_def e key_word_def)
  have ne: "key \<noteq> []" "var \<noteq> []" "hd key \<noteq> 35"
    using assms by (auto simp: clean_key_def e key_word_def)
  then obtain k ks where k: "key = k # ks"
    by (cases key) auto
  have "reduced None (key @ 32 # var)"
    using reduced_words [of key var] reduced_word [of var] c ne by simp
  then show "sf_clean_line (key_line e @ [10]) = key_line e"
  proof (intro sf_clean_line_id)
    show "d = 32" if "d \<in> set (key_line e)" "char_is None d" for d
      using that c [of d] by (auto simp: e key_line_def)
  qed (use c [of k] in \<open>simp_all add: e key_line_def k\<close>)
  show "10 \<notin> set (key_line e)" "0 \<notin> set (key_line e)"
    using c by (auto simp: e key_line_def)
  show "\<not> is_blank_line (key_line e)"
    using c [of k] by (simp add: e key_line_def is_blank_line_def k)
  show "\<not> is_notes_line_deft (key_line e)"
    using ne(3) by (simp add: e key_line_def is_notes_line_deft_def is_notes_line_def k os_memeq_def)
  show "length (key_line e) < OS_LINE_LEN - 1"
    using assms by (simp add: clean_key_def e)
qed

definition put_keys :: "u8 list \<Rightarrow> (u8 list \<times> u8 list \<times> u32) list \<Rightarrow> (u8 list \<times> u8 list \<Rightarrow> u32 option) \<Rightarrow> u8 list \<times> u8 list \<Rightarrow> u32 option" where
  "put_keys app es m = foldl (\<lambda>m (key, var, v). m((app, key) \<mapsto> v)) m es"

lemma sf_lines_keys:
  assumes "good_app app"
  shows "ak_ok h \<Longrightarrow> hd_count h + int (length es) \<le> hd_limit h \<Longrightarrow> \<forall>e \<in> set es. clean_key e \<Longrightarrow>
    \<exists>h'. sf_lines (load_line (app_file app)) (map (\<lambda>e. key_line e @ [10]) es @ [[]]) (h, dbg) = (mv2_OK, h', dbg)
      \<and> ak_ok h' \<and> ak_map h' = put_keys app es (ak_map h) \<and> hd_count h' \<le> hd_count h + int (length es)"
proof (induction es arbitrary: h)
  case Nil
  have "sf_clean_line [] = []"
    by (simp add: sf_clean_line_def string_strim_both_ends_def string_strim_right_def string_reduce_def)
  then show ?case
    using Nil by (simp add: is_blank_line_def put_keys_def)
next
  case (Cons e es)
  obtain key var v where e: "e = (key, var, v)"
    by (cases e)
  have c: "clean_key e" "good_name app" "good_name key"
    using Cons.prems(3) assms by (auto simp: e clean_key_def key_word_def good_name_def good_app_def)
  have room: "hd_count h < hd_limit h"
    using Cons.prems(2) by simp
  then obtain h1 where h1: "ak_put app key v h = (mv2_OK, h1)" "ak_extends h h1" "ak_map h1 = (ak_map h)((app, key) \<mapsto> v)"
      "hd_count h1 \<le> hd_count h + 1"
    using ak_put_ok [OF Cons.prems(1) c(2,3), of v] by (metis less_irrefl)
  have "hd_limit h1 = hd_limit h"
    using h1(2) by (simp add: ak_extends_def)
  then have "hd_count h1 + int (length es) \<le> hd_limit h1"
    using Cons.prems(2) h1(4) by simp
  then obtain h' where "sf_lines (load_line (app_file app)) (map (\<lambda>e. key_line e @ [10]) es @ [[]]) (h1, dbg) = (mv2_OK, h', dbg)"
      "ak_ok h'" "ak_map h' = put_keys app es (ak_map h1)" "hd_count h' \<le> hd_count h + int (length (e # es))"
    using Cons.IH [OF ak_extends_ok [OF h1(2)]] Cons.prems(3) h1(4) by fastforce
  moreover have "load_line (app_file app) (key_line e) (h, dbg) = (mv2_OK, h1, dbg)"
    using load_line_clean [OF assms, of key var v h dbg] c(1) h1(1) e by simp
  ultimately show ?case
    using key_line_clean(1-3) [OF c(1)] h1(3) by (simp add: Let_def put_keys_def e del: fun_upd_apply)
qed

definition key_file :: "u8 list \<Rightarrow> (u8 list \<times> u8 list \<times> u32) list \<Rightarrow> dirent" where
  "key_file app es = \<lparr>d_name = app_file app, d_isdir = False, d_content = Contents (concat (map (\<lambda>e. key_line e @ [10]) es))\<rparr>"

lemma app_file_not_dots: "app_file app \<noteq> [46]" "app_file app \<noteq> [46, 46]"
  by (auto simp: app_file_def asc_key append_eq_Cons_conv)

text \<open>C32: loading a key file. If the table has room for all its lines, a directory with one file \<open><app>.key\<close> of clean lines
  \<open>key value\<close> is loaded completely: the scan returns 0, the table stays good and, as a map, is the old one with the file's settings put in from the
  first line to the last. Each setting of that program then has an identifier, whose index is less than the number of entries and lines, and a read through
  it gives the setting if the index is less than 964 and the caller's default otherwise.\<close>

theorem appkey_loads_file:
  assumes "ak_ok h" and "good_app app" and "\<forall>e \<in> set es. clean_key e" and "hd_count h + int (length es) \<le> hd_limit h"
  shows "\<exists>h'. ak_load (Inr [key_file app es]) junk (h, dbg) = Ret (0, h', dbg) \<and> ak_ok h' \<and> ak_map h' = put_keys app es (ak_map h)
    \<and> (\<forall>key v. ak_map h' (app, key) = Some v \<longrightarrow>
         (\<exists>akid. appkey_getbyname (Some app) (Some key) h' = Ret akid \<and> ak_idx akid < hd_count h + int (length es)
            \<and> appkey_get akid deft h' = (if ak_idx akid < 964 then v else deft)))"
proof -
  obtain h' where h': "sf_lines (load_line (app_file app)) (map (\<lambda>e. key_line e @ [10]) es @ [[]]) (h, dbg) = (mv2_OK, h', dbg)"
      "ak_ok h'" "ak_map h' = put_keys app es (ak_map h)" "hd_count h' \<le> hd_count h + int (length es)"
    using sf_lines_keys [OF assms(2,1,4,3)] by blast
  have "stream_lines (concat (map (\<lambda>l. l @ [10]) (map key_line es))) = map (\<lambda>l. l @ [10]) (map key_line es) @ [[]]"
    using key_line_clean(4-6) assms(3) by (intro stream_lines_concat) auto
  then have load: "ak_load (Inr [key_file app es]) junk (h, dbg) = Ret (0, h', dbg)"
    using h'(1) app_file_scan(2) [OF assms(2)] app_file_not_dots
    by (simp add: ak_load_def os_sfscan_dir_def key_file_def os_sfscan_file_handle_def comp_def)
  have "\<exists>akid. appkey_getbyname (Some app) (Some key) h' = Ret akid \<and> ak_idx akid < hd_count h + int (length es)
      \<and> appkey_get akid deft h' = (if ak_idx akid < 964 then v else deft)"
    if "ak_map h' (app, key) = Some v" for key v
  proof -
    have "(app, key) \<in> ak_names ` set (ak_used h')"
      using that by (force simp: ak_map_def dest: map_of_SomeD)
    then obtain n where n: "n < length (ak_used h')" "ak_names (ak_used h' ! n) = (app, key)"
      by (metis imageE in_set_conv_nth)
    then have v: "ak_value (ak_used h' ! n) = v" "int n < hd_count h'" "int n < 2 ^ 16"
      using ak_map_nth [OF h'(2) n(1)] length_ak_used [OF h'(2)] that h'(2) by (simp_all add: ak_ok_def)
    then have "ak_idx (ak_make (int n) (getoffset (int n))) = int n"
      by (intro ak_make_parts) simp_all
    then show ?thesis
      using appkey_getbyname_nth [OF h'(2) n] appkey_get_nth [OF h'(2) n(1), of deft] v h'(4) by simp
  qed
  then show ?thesis
    using load h'(2,3) by blast
qed

subsection \<open>A sample table\<close>

definition sample_ak :: appkey_hdr where
  "sample_ak = (ak_shm 8)\<lparr>hd_inited := True, hd_limit := 8, hd_count := 1,
     hd_keys := \<lparr>ak_app = [117, 109], ak_name = [107], ak_value = 7\<rparr> # replicate 7 \<lparr>ak_app = [], ak_name = [], ak_value = 0\<rparr>\<rparr>"

lemma sample_ak_ok: "ak_ok sample_ak" "length (ak_used sample_ak) = 1" "ak_names (ak_used sample_ak ! 0) = ([117, 109], [107])"
    "ak_value (ak_used sample_ak ! 0) = 7" "hd_limit sample_ak = 8" "hd_count sample_ak = 1"
  by (simp_all add: sample_ak_def ak_ok_def ak_used_def ak_names_def ak_shm_def good_name_def)

theorem appkey_client_view_witness:
  "\<exists>akid h'. appkey_getbyname (Some [117, 109]) (Some [107]) sample_ak = Ret akid \<and> appkey_get akid 0 sample_ak = 7
    \<and> appkey_set akid 9 sample_ak = (0, h') \<and> appkey_get akid 0 h' = 9"
  using appkey_client_view [OF sample_ak_ok(1) _ sample_ak_ok(3), of 0 9] sample_ak_ok(2,4) by auto

lemma sample_key: "clean_key ([107, 50], [48, 120, 49, 48], 16)" "good_app [117, 109]"
proof -
  have "strtoul0 [48, 120, 49, 48] = (16, [])"
    by (simp add: strtoul0_def isspace_def digit_val_def clamp_ulong_def)
  then show "clean_key ([107, 50], [48, 120, 49, 48], 16)"
    by (simp add: clean_key_def key_word_def isspace_def key_line_def OS_LINE_LEN_def)
qed (simp add: good_app_def good_name_def)

definition sample_key_file :: dirent where
  "sample_key_file = key_file [117, 109] [([107, 50], [48, 120, 49, 48], 16)]"

theorem appkey_id_survives_reload_witness:
  "\<exists>table h' dbg'. appkey_reload (Inr [sample_key_file]) 0 (sample_ak, 2) = Ret (0, table, h', dbg') \<and> ak_ok h'
    \<and> appkey_getbyname (Some [117, 109]) (Some [107]) h' = Ret (ak_make 0 16)"
proof -
  have "appkey_getbyname (Some [117, 109]) (Some [107]) sample_ak = Ret (ak_make 0 16)"
    using appkey_getbyname_nth [OF sample_ak_ok(1) _ sample_ak_ok(3)] sample_ak_ok(2) by (simp add: getoffset_def)
  moreover have "ak_make 0 16 \<noteq> INVALID_APPKEY"
    by (simp add: ak_make_def INVALID_APPKEY_def)
  moreover have "dir_ok (Inr [sample_key_file])" "dir_readable (Inr [sample_key_file])"
    by (simp_all add: dir_ok_def dir_readable_def sample_key_file_def key_file_def app_file_def asc_key)
  ultimately show ?thesis
    by (intro appkey_id_survives_reload [OF sample_ak_ok(1)]) simp_all
qed

text \<open>The constructor on fresh shared memory, with one file in the directory.\<close>

theorem appkey_loads_file_witness:
  "\<exists>h' akid. appkey_init (Some (ak_shm 1023)) (Inr [sample_key_file]) 0 = Ret (h', 2) \<and> hd_limit h' = 1023
    \<and> appkey_getbyname (Some [117, 109]) (Some [107, 50]) h' = Ret akid \<and> appkey_get akid 0 h' = 16"
proof -
  let ?e = "([107, 50], [48, 120, 49, 48], 16) :: u8 list \<times> u8 list \<times> u32"
  define h where "h = (ak_shm 1023)\<lparr>hd_inited := True, hd_limit := 1023, hd_protect := OS_PROTECTED, hd_protect1 := OS_PROTECTED\<rparr>"
  have h: "ak_ok h" "hd_count h = 0" "hd_limit h = 1023"
    by (simp_all add: h_def ak_shm_def ak_ok_def ak_used_def)
  obtain h' where h': "ak_load (Inr [sample_key_file]) 0 (h, 2) = Ret (0, h', 2)"
      "ak_map h' = put_keys [117, 109] [?e] (ak_map h)"
      "\<forall>key v. ak_map h' ([117, 109], key) = Some v \<longrightarrow>
         (\<exists>akid. appkey_getbyname (Some [117, 109]) (Some key) h' = Ret akid \<and> ak_idx akid < hd_count h + int (length [?e])
            \<and> appkey_get akid 0 h' = (if ak_idx akid < 964 then v else 0))"
    using appkey_loads_file [OF h(1) sample_key(2), of "[?e]" 0 2 0] sample_key(1) h(2,3) unfolding sample_key_file_def by auto
  obtain akid where k: "appkey_getbyname (Some [117, 109]) (Some [107, 50]) h' = Ret akid" "appkey_get akid 0 h' = 16"
    using h'(3) [rule_format, of "[107, 50]" 16] h'(2) h(2) by (auto simp: put_keys_def)
  have "dir_ok (Inr [sample_key_file])"
    by (simp add: dir_ok_def sample_key_file_def key_file_def app_file_def asc_key)
  then have "hd_limit h' = 1023"
    using ak_load_extends [OF h(1) _ h'(1)] h(3) by (simp add: ak_extends_def)
  moreover have "appkey_init (Some (ak_shm 1023)) (Inr [sample_key_file]) 0 = Ret (h', 2)"
    using h'(1) unfolding h_def by (simp add: appkey_init_def ak_init_def APPKEY_LIMIT_def) (simp add: ak_shm_def)
  ultimately show ?thesis
    using k by blast
qed

end
