(* ===== verification/Part_Block.thy ===== *)
theory Part_Block
  imports Os_Crc32 Os_String
begin

text \<open>
  The partition block of \<open>partool/partool.c\<close>: a RAM copy (the cache) of a flash partition that holds
  name/value pairs as text lines behind a CRC line, and the list of the pairs. The cache is the list
  of its bytes; the pair list is in list order; names and values are C strings without the NUL.

  Outside code is a parameter: the read and write callbacks (\<open>rd\<close>, \<open>wr\<close> on a world \<open>'w\<close> that
  holds the flash), the results of the lock file's system calls, whether an allocation succeeds
  (\<open>alloc\<close>), the human-readable file of the load mode, and the byte that lies just past the cache
  (\<open>past\<close>), which \<open>part_read_line\<close> reads. Log output is left out.
\<close>

subsection \<open>The block\<close>

datatype part_mode = PART_MODE_NORMAL | PART_MODE_EMPTY | PART_MODE_CRC | PART_MODE_LOAD | PART_MODE_END

definition is_good_part_mode :: "part_mode \<Rightarrow> bool" where
  "is_good_part_mode mode \<longleftrightarrow> mode \<noteq> PART_MODE_END"

definition part_mode_string :: "part_mode \<Rightarrow> string" where
  "part_mode_string mode = (case mode of PART_MODE_NORMAL \<Rightarrow> ''normal'' | PART_MODE_EMPTY \<Rightarrow> ''empty''
     | PART_MODE_CRC \<Rightarrow> ''crc'' | PART_MODE_LOAD \<Rightarrow> ''load'' | PART_MODE_END \<Rightarrow> ''unknow'')"

definition PART_XOR :: u32 where "PART_XOR = 0x94f00d1e"
definition PART_MAX_LINE :: nat where "PART_MAX_LINE = 1023"
definition PART_COMMENT :: u8 where "PART_COMMENT = 35"
definition PART_SEPERATOR :: u8 where "PART_SEPERATOR = 9"
definition PART_CRLF :: u8 where "PART_CRLF = 10"
definition part_seperators :: "u8 list" where "part_seperators = [9, 32]"
definition PART_CACHED :: u32 where "PART_CACHED = 0x10"
definition PART_DIRTY :: u32 where "PART_DIRTY = 0x20"
definition PART_VAR_CREATE_IF_NOT_EXIT :: u32 where "PART_VAR_CREATE_IF_NOT_EXIT = 1"
definition PART_VAR_UPDATE_IF_EXIT :: u32 where "PART_VAR_UPDATE_IF_EXIT = 2"
definition PART_VAR_CREATE :: u32 where
  "PART_VAR_CREATE = PART_VAR_CREATE_IF_NOT_EXIT OR PART_VAR_UPDATE_IF_EXIT"

text \<open>A \<open>part_item\<close> is its cursor: the name and the value. Pointer fields are numbers, 0 is \<open>NULL\<close>.\<close>

type_synonym part_item = "u8 list \<times> u8 list"

record part_block =
  pb_size :: nat
  pb_cache_ptr :: nat
  pb_cache :: "u8 list"
  pb_count :: u32
  pb_list :: "part_item list"
  pb_partition :: nat
  pb_read :: nat
  pb_write :: nat
  pb_flag :: u32
  pb_xor :: u32
  pb_mode :: part_mode
  pb_lockfd :: int

definition part_block_is_good :: "part_block option \<Rightarrow> bool" where
  "part_block_is_good bo = (case bo of None \<Rightarrow> False | Some block \<Rightarrow>
     pb_cache_ptr block \<noteq> 0 \<and> pb_read block \<noteq> 0 \<and> pb_write block \<noteq> 0 \<and> pb_partition block \<noteq> 0
     \<and> pb_size block \<noteq> 0 \<and> is_good_part_mode (pb_mode block))"

definition is_cached :: "part_block \<Rightarrow> bool" where
  "is_cached block = os_hasflag (pb_flag block) PART_CACHED"

definition is_dirty :: "part_block \<Rightarrow> bool" where
  "is_dirty block = os_hasflag (pb_flag block) PART_DIRTY"

text \<open>
  \<open>part_lock\<close>: \<open>opn\<close> is the descriptor or the \<open>errno\<close> of \<open>open\<close>, \<open>flk\<close> the \<open>errno\<close> of \<open>flock\<close> (0 for
  success). A failure is returned as the positive \<open>errno\<close>.
\<close>

definition part_lock :: "int + int \<Rightarrow> int \<Rightarrow> part_block \<Rightarrow> int \<times> part_block" where
  "part_lock opn flk block = (case opn of
      Inl e \<Rightarrow> (e, block)
    | Inr fd \<Rightarrow> if flk \<noteq> 0 then (flk, block) else (0, block\<lparr>pb_lockfd := fd\<rparr>))"

definition part_unlock :: "part_block \<Rightarrow> part_block" where
  "part_unlock block = (if 0 \<le> pb_lockfd block then block\<lparr>pb_lockfd := - 1\<rparr> else block)"

subsection \<open>The CRC line\<close>

text \<open>A block has at least nine bytes: the callers pass whole partitions.\<close>

definition part_block_size :: "part_block \<Rightarrow> nat" where
  "part_block_size block = pb_size block - (1 + CRC32_STRINGLEN)"

text \<open>The bytes \<open>[part_block_begin, part_block_end)\<close>.\<close>

definition part_block_body :: "part_block \<Rightarrow> u8 list" where
  "part_block_body block = drop (1 + CRC32_STRINGLEN) (take (pb_size block) (pb_cache block))"

definition part_block_crc :: "part_block \<Rightarrow> u32" where
  "part_block_crc block = os_crc32 (take (part_block_size block) (part_block_body block))"

definition cstr :: "u8 list \<Rightarrow> u8 list" where
  "cstr bs = takeWhile (\<lambda>c. c \<noteq> 0) bs"

definition part_block_crc_read :: "part_block \<Rightarrow> u32 outcome" where
  "part_block_crc_read block =
     (let crcstring = cstr (take CRC32_STRINGLEN (pb_cache block))
      in obind (os_digitstring2number crcstring (length crcstring) 16) (\<lambda>crc. Ret (word_of_int crc)))"

text \<open>\<open>"%x"\<close> prints the number without leading zeros.\<close>

fun print_x :: "nat \<Rightarrow> u8 list" where
  "print_x n = (if n < 16 then [hex_digit n] else print_x (n div 16) @ [hex_digit (n mod 16)])"

declare print_x.simps [simp del]

definition overwrite :: "u8 list \<Rightarrow> nat \<Rightarrow> u8 list \<Rightarrow> u8 list" where
  "overwrite buf off bs = take off buf @ bs @ drop (off + length bs) buf"

definition part_block_crc_write :: "part_block \<Rightarrow> part_block" where
  "part_block_crc_write block =
     (let crcstring = print_x (unat (part_block_crc block));
          head = take CRC32_STRINGLEN (crcstring @ replicate CRC32_STRINGLEN 0)
      in block\<lparr>pb_cache := overwrite (overwrite (pb_cache block) 0 head) CRC32_STRINGLEN [PART_CRLF]\<rparr>)"

subsection \<open>Lines\<close>

text \<open>\<open>part_get_value_from_line\<close> cuts the line at the first separator: name and value, or no value.\<close>

definition part_get_value_from_line :: "u8 list \<Rightarrow> u8 list \<times> u8 list option" where
  "part_get_value_from_line line =
     (let p = dropWhile (\<lambda>c. c \<notin> set part_seperators) line
      in if p = [] then (line, None) else (takeWhile (\<lambda>c. c \<notin> set part_seperators) line, Some (tl p)))"

text \<open>
  \<open>part_read_line\<close>: \<open>begin\<close> is the bytes from the begin pointer to the end of the block (\<open>None\<close> for
  \<open>NULL\<close>); the result is the next begin pointer and the bytes copied into the line buffer. Without a
  newline the scan stops at the end pointer and the byte there decides: it belongs to the copied bytes
  unless it is a newline.
\<close>

definition part_read_line :: "u8 \<Rightarrow> u8 list option \<Rightarrow> nat \<Rightarrow> u8 list option \<times> u8 list" where
  "part_read_line past begin line_size = (case begin of
      None \<Rightarrow> (None, [])
    | Some bs \<Rightarrow>
       if bs = [] then (None, [])
       else
         let pre = takeWhile (\<lambda>c. c \<noteq> PART_CRLF) bs;
             p = dropWhile (\<lambda>c. c \<noteq> PART_CRLF) bs;
             (newline, copied) =
               (if p \<noteq> [] then (if tl p = [] then None else Some (tl p), pre)
                else if past = PART_CRLF then (None, bs)
                else (None, bs @ [past]))
         in if line_size \<le> length copied then (None, []) else (newline, copied))"

text \<open>\<open>part_write_line\<close>: the write position is an offset into the cache, \<open>None\<close> for \<open>NULL\<close>.\<close>

definition part_write_line :: "u8 list \<Rightarrow> nat option \<Rightarrow> nat \<Rightarrow> part_item \<Rightarrow> nat option \<times> u8 list" where
  "part_write_line cache begin bend c = (case begin of
      None \<Rightarrow> (None, cache)
    | Some off \<Rightarrow>
       let len = length (fst c) + 1 + length (snd c) + 1
       in if bend < off + (len + 1) then (None, cache)
          else (Some (off + len), overwrite cache off (fst c @ PART_SEPERATOR # snd c @ [PART_CRLF])))"

subsection \<open>Items\<close>

text \<open>
  \<open>alloc k v\<close> tells whether the allocations for an item with name \<open>k\<close> and value \<open>v\<close> succeed. When they
  fail in \<open>part_cursor_init\<close> on an item of the list, the item keeps pointers to freed memory, the
  old value is even freed twice: undefined behaviour, modelled as \<open>Abort\<close>.
\<close>

definition part_item_new :: "(u8 list \<Rightarrow> u8 list \<Rightarrow> bool) \<Rightarrow> u8 list \<Rightarrow> u8 list \<Rightarrow> part_item option" where
  "part_item_new alloc name value = (if alloc name value then Some (name, value) else None)"

definition part_item_insert :: "part_block \<Rightarrow> part_item option \<Rightarrow> int \<times> part_block" where
  "part_item_insert block item = (case item of
      Some it \<Rightarrow> (0, block\<lparr>pb_list := pb_list block @ [it], pb_count := pb_count block + 1\<rparr>)
    | None \<Rightarrow> (err ENOMEM, block))"

text \<open>Of equal items the callers always destroy the first one that is left.\<close>

definition part_item_remove :: "part_block \<Rightarrow> part_item \<Rightarrow> part_block" where
  "part_item_remove block item = block\<lparr>pb_list := remove1 item (pb_list block), pb_count := pb_count block - 1\<rparr>"

definition kv_item_destroy :: "part_block \<Rightarrow> part_item option \<Rightarrow> int \<times> part_block" where
  "kv_item_destroy block item = (case item of
      Some it \<Rightarrow> (let block = part_item_remove block it
                  in (0, block\<lparr>pb_flag := pb_flag block OR PART_DIRTY\<rparr>))
    | None \<Rightarrow> (err ENOEXIST, block))"

definition part_item_clean :: "part_block \<Rightarrow> part_block" where
  "part_item_clean block = fold (\<lambda>it b. snd (kv_item_destroy b (Some it))) (pb_list block) block"

definition is_separator :: "u8 \<Rightarrow> bool" where
  "is_separator ch \<longleftrightarrow> ch \<in> set (part_seperators @ [0])"

text \<open>\<open>part_xor\<close> XORs the cache word by word; the target is big-endian.\<close>

definition xor_byte :: "u32 \<Rightarrow> nat \<Rightarrow> u8" where
  "xor_byte x i = ucast (drop_bit (8 * (3 - i mod 4)) x)"

definition part_xor :: "part_block \<Rightarrow> part_block" where
  "part_xor block = (if pb_xor block \<noteq> 0
     then block\<lparr>pb_cache := map (\<lambda>(i, c). if i < pb_size block then c XOR xor_byte (pb_xor block) i else c)
                               (enumerate 0 (pb_cache block))\<rparr>
     else block)"

subsection \<open>Cache and list\<close>

text \<open>The body of the loop of \<open>part_line_read\<close> for one line.\<close>

definition part_line_read_one :: "(u8 list \<Rightarrow> u8 list \<Rightarrow> bool) \<Rightarrow> u8 list \<Rightarrow> part_block \<Rightarrow> part_block" where
  "part_line_read_one alloc line block =
     (let line = string_strim_both_ends None line
      in if take 1 line = [PART_COMMENT] then block
         else if line = [] then block
         else case part_get_value_from_line (string_reduce (Some is_separator) line) of
                (name, None) \<Rightarrow> block
              | (name, Some value) \<Rightarrow> snd (part_item_insert block (part_item_new alloc name value)))"

function part_line_read_loop ::
  "(u8 list \<Rightarrow> u8 list \<Rightarrow> bool) \<Rightarrow> u8 \<Rightarrow> u8 list option \<Rightarrow> part_block \<Rightarrow> part_block" where
  "part_line_read_loop alloc past begin block =
     (let (begin', copied) = part_read_line past begin PART_MAX_LINE;
          line = cstr copied
      in if begin' = None \<and> line = [] then block
         else part_line_read_loop alloc past begin' (part_line_read_one alloc line block))"
  by pat_completeness auto

lemma part_read_line_shorter:
  assumes "part_read_line past begin sz = (begin', copied)"
    and "\<not> (begin' = None \<and> cstr copied = [])"
  shows "(case begin' of None \<Rightarrow> 0 | Some bs \<Rightarrow> Suc (length bs)) < (case begin of None \<Rightarrow> 0 | Some bs \<Rightarrow> Suc (length bs))"
proof (cases "begin")
  case None
  with assms show ?thesis
    by (auto simp: part_read_line_def cstr_def)
next
  case (Some bs)
  have "length (tl (dropWhile (\<lambda>c. c \<noteq> PART_CRLF) bs)) < length bs" if "bs \<noteq> []"
    using that length_dropWhile_le [of "\<lambda>c. c \<noteq> PART_CRLF" bs] by (cases bs) auto
  with Some assms show ?thesis
    by (auto simp: part_read_line_def cstr_def Let_def split: if_splits)
qed

termination part_line_read_loop
  by (relation "measure (\<lambda>(_, _, begin, _). case begin of None \<Rightarrow> 0 | Some bs \<Rightarrow> Suc (length bs))")
    (simp_all add: part_read_line_shorter [OF sym])

declare part_line_read_loop.simps [simp del]

definition part_line_read :: "(u8 list \<Rightarrow> u8 list \<Rightarrow> bool) \<Rightarrow> u8 \<Rightarrow> part_block \<Rightarrow> int \<times> part_block" where
  "part_line_read alloc past block =
     (let block = part_line_read_loop alloc past (Some (part_block_body block)) block
      in (0, block\<lparr>pb_flag := (pb_flag block OR PART_CACHED) AND NOT PART_DIRTY\<rparr>))"

fun part_line_wirte_loop :: "nat \<Rightarrow> part_item list \<Rightarrow> nat option \<Rightarrow> u8 list \<Rightarrow> u8 list" where
  "part_line_wirte_loop bend [] begin cache = cache"
| "part_line_wirte_loop bend (c # cs) begin cache =
     (let (begin, cache) = part_write_line cache begin bend c in part_line_wirte_loop bend cs begin cache)"

definition part_line_wirte :: "part_block \<Rightarrow> int \<times> part_block" where
  "part_line_wirte block =
     (let block = block\<lparr>pb_cache := replicate (pb_size block) 0\<rparr>;
          block = block\<lparr>pb_cache := part_line_wirte_loop (pb_size block) (pb_list block)
                          (Some (1 + CRC32_STRINGLEN)) (pb_cache block)\<rparr>;
          block = part_block_crc_write block
      in (0, block\<lparr>pb_flag := pb_flag block AND NOT PART_DIRTY\<rparr>))"

definition part_high_read :: "(u8 list \<Rightarrow> u8 list \<Rightarrow> bool) \<Rightarrow> u8 \<Rightarrow> part_block \<Rightarrow> (int \<times> part_block) outcome" where
  "part_high_read alloc past block =
     (if pb_count block \<noteq> 0 then Ret (err ENOEMPTY, block)
      else obind (part_block_crc_read block) (\<lambda>crc_old.
        let crc_new = part_block_crc block
        in if crc_old \<noteq> crc_new then Ret (err EBADCRC, block)
           else Ret (part_line_read alloc past block)))"

definition part_high_wirte :: "part_block \<Rightarrow> int \<times> part_block" where
  "part_high_wirte block = part_line_wirte block"

subsection \<open>Partition and cache\<close>

text \<open>
  The callbacks run on the world and the block. \<open>human\<close> stands for what \<open>part_human_read\<close> finds: the
  positive \<open>errno\<close> when the file cannot be opened or read, or the bytes of the file.
\<close>

type_synonym 'w part_io = "'w \<Rightarrow> part_block \<Rightarrow> (int \<times> 'w \<times> part_block) outcome"

definition part_human_read :: "int + u8 list \<Rightarrow> part_block \<Rightarrow> int \<times> part_block" where
  "part_human_read human block = (case human of
      Inl e \<Rightarrow> (e, block)
    | Inr bs \<Rightarrow> (0, block\<lparr>pb_cache :=
                   overwrite (pb_cache block) (1 + CRC32_STRINGLEN) (take (part_block_size block) bs)\<rparr>))"

definition part_low_read :: "'w part_io \<Rightarrow> 'w part_io" where
  "part_low_read rd w block = obind (rd w block) (\<lambda>(e, w, block). Ret (e, w, part_xor block))"

definition part_low_wirte :: "'w part_io \<Rightarrow> 'w part_io" where
  "part_low_wirte wr w block = wr w block"

definition part_block_init_bynormal ::
  "(u8 list \<Rightarrow> u8 list \<Rightarrow> bool) \<Rightarrow> u8 \<Rightarrow> 'w part_io \<Rightarrow> 'w part_io" where
  "part_block_init_bynormal alloc past rd w block =
     obind (part_low_read rd w block) (\<lambda>(e, w, block).
       if e < 0 then Ret (e, w, block)
       else obind (part_high_read alloc past block) (\<lambda>(e, block). Ret (if e < 0 then e else 0, w, block)))"

definition part_block_init_byempty :: "part_block \<Rightarrow> int \<times> part_block" where
  "part_block_init_byempty block = (0, block\<lparr>pb_flag := pb_flag block OR PART_DIRTY\<rparr>)"

definition part_block_init_byload :: "int + u8 list \<Rightarrow> part_block \<Rightarrow> int \<times> part_block" where
  "part_block_init_byload human block =
     (let (e, block) = part_human_read human block
      in if e < 0 then (e, block) else (0, block\<lparr>pb_flag := pb_flag block OR PART_DIRTY\<rparr>))"

definition part_block_init_bycrc :: "'w part_io \<Rightarrow> 'w part_io" where
  "part_block_init_bycrc rd w block =
     obind (part_low_read rd w block) (\<lambda>(e, w, block). Ret (if e < 0 then e else 0, w, block))"

definition part_block_init :: "(u8 list \<Rightarrow> u8 list \<Rightarrow> bool) \<Rightarrow> u8 \<Rightarrow> 'w part_io \<Rightarrow> int + u8 list \<Rightarrow> 'w part_io" where
  "part_block_init alloc past rd human w block = (case pb_mode block of
      PART_MODE_NORMAL \<Rightarrow> part_block_init_bynormal alloc past rd w block
    | PART_MODE_EMPTY \<Rightarrow> (let (e, block) = part_block_init_byempty block in Ret (e, w, block))
    | PART_MODE_LOAD \<Rightarrow> (let (e, block) = part_block_init_byload human block in Ret (e, w, block))
    | PART_MODE_CRC \<Rightarrow> part_block_init_bycrc rd w block
    | PART_MODE_END \<Rightarrow> Ret (err EKEYBAD, w, block))"

definition part_block_flush :: "'w part_io \<Rightarrow> 'w part_io" where
  "part_block_flush wr w block =
     (if is_dirty block then
        let (e, block) = part_high_wirte block
        in if e < 0 then Ret (e, w, block)
           else obind (part_low_wirte wr w (part_xor block)) (\<lambda>(e, w, block). Ret (if e < 0 then e else 0, w, block))
      else Ret (0, w, block))"

definition part_block_free_only :: "part_block \<Rightarrow> part_block" where
  "part_block_free_only block = part_unlock (part_item_clean block)"

text \<open>Freeing leaves nothing of the block: what remains is the world.\<close>

definition part_block_free :: "'w part_io \<Rightarrow> 'w \<Rightarrow> part_block option \<Rightarrow> 'w outcome" where
  "part_block_free wr w bo = (case bo of
      None \<Rightarrow> Ret w
    | Some block \<Rightarrow> obind (part_block_flush wr w block) (\<lambda>(e, w, block).
        let block = part_block_free_only block in Ret w))"

text \<open>
  \<open>__part_block_new\<close>: \<open>mem\<close> is the success of the allocation of the zeroed block; the number 1 stands for
  its address.
\<close>

definition part_block_new :: "bool \<Rightarrow> int + int \<Rightarrow> int \<Rightarrow> part_mode \<Rightarrow> nat \<Rightarrow> nat \<Rightarrow> nat \<Rightarrow> nat \<Rightarrow> u32
    \<Rightarrow> part_block option outcome" where
  "part_block_new mem opn flk mode block_size read write part xr =
     (if \<not> mem then os_assert_value None
      else
        let block = \<lparr>pb_size = block_size, pb_cache_ptr = 1, pb_cache = replicate block_size 0, pb_count = 0,
              pb_list = [], pb_partition = part, pb_read = read, pb_write = write, pb_flag = 0,
              pb_xor = (if xr \<noteq> 0 then xr else PART_XOR), pb_mode = mode, pb_lockfd = 0\<rparr>;
            (e, block) = part_lock opn flk block
        in if e < 0 then Ret None else Ret (Some block))"

definition part_block_create :: "bool \<Rightarrow> int + int \<Rightarrow> int \<Rightarrow> (u8 list \<Rightarrow> u8 list \<Rightarrow> bool) \<Rightarrow> u8 \<Rightarrow> 'w part_io \<Rightarrow> 'w
    \<Rightarrow> part_mode \<Rightarrow> nat \<Rightarrow> nat \<Rightarrow> nat \<Rightarrow> nat \<Rightarrow> int + u8 list \<Rightarrow> u32 \<Rightarrow> ('w \<times> part_block option) outcome" where
  "part_block_create mem opn flk alloc past rd w mode block_size read write part human xr =
     (if \<not> is_good_part_mode mode then os_assert_value (w, None)
      else if 0 = block_size then os_assert_value (w, None)
      else if read = 0 then os_assert_value (w, None)
      else if write = 0 then os_assert_value (w, None)
      else if part = 0 then os_assert_value (w, None)
      else obind (part_block_new mem opn flk mode block_size read write part xr) (\<lambda>bo. case bo of
          None \<Rightarrow> Ret (w, None)
        | Some block \<Rightarrow> obind (part_block_init alloc past rd human w block) (\<lambda>(e, w, block).
            if e < 0 then Ret (w, None) else Ret (w, Some block))))"

subsection \<open>Raw access\<close>

definition part_var_rw_check :: "part_block option \<Rightarrow> u32 \<Rightarrow> bool \<Rightarrow> u32 \<Rightarrow> int outcome" where
  "part_var_rw_check bo offset buf_null sz = (case bo of
      None \<Rightarrow> Abort
    | Some block \<Rightarrow>
       if \<not> part_block_is_good bo then os_assert_value (err EKEYBAD)
       else if word_of_nat (pb_size block) \<le> offset then os_assert_value (err EINVAL1)
       else if buf_null then os_assert_value (err EINVAL2)
       else if word_of_nat (pb_size block) < offset + sz then os_assert_value (err EINVAL4)
       else Ret 0)"

definition part_block_read :: "part_block option \<Rightarrow> u32 \<Rightarrow> bool \<Rightarrow> u32 \<Rightarrow> (int \<times> u8 list) outcome" where
  "part_block_read bo offset buf_null sz =
     obind (part_var_rw_check bo offset buf_null sz) (\<lambda>e. if e \<noteq> 0 then Ret (e, [])
       else Ret (sint sz, take (unat sz) (drop (unat offset) (pb_cache (the bo)))))"

definition part_block_write :: "part_block option \<Rightarrow> u32 \<Rightarrow> u8 list option \<Rightarrow> u32 \<Rightarrow> (int \<times> part_block) outcome" where
  "part_block_write bo offset buf sz =
     obind (part_var_rw_check bo offset (buf = None) sz) (\<lambda>e. if e \<noteq> 0 then Ret (e, the bo)
       else Ret (sint sz, (the bo)\<lparr>pb_cache :=
              overwrite (pb_cache (the bo)) (unat offset) (take (unat sz) (the buf))\<rparr>))"

definition part_block_crc_get :: "part_block option \<Rightarrow> (int \<times> u32 \<times> u32) outcome" where
  "part_block_crc_get bo =
     (if \<not> part_block_is_good bo then Abort
      else obind (part_block_crc_read (the bo)) (\<lambda>crc_part. Ret (0, crc_part, part_block_crc (the bo))))"

subsection \<open>Variables\<close>

text \<open>
  A callback of \<open>part_var_foreach\<close> gets the block, the cursor and its data and may change block and data. It
  may destroy the item it is given, no other, so the items visited are those of the list at the start.
\<close>

type_synonym 'd part_foreach = "part_block \<Rightarrow> part_item \<Rightarrow> 'd \<Rightarrow> u32 \<times> part_block \<times> 'd"

fun part_var_foreach_loop :: "'d part_foreach \<Rightarrow> part_item list \<Rightarrow> u32 \<Rightarrow> part_block \<Rightarrow> 'd \<Rightarrow> int \<times> part_block \<times> 'd" where
  "part_var_foreach_loop f [] mv block d = (mv2_result mv, block, d)"
| "part_var_foreach_loop f (c # cs) mv block d =
     (let (mv, block, d) = f block c d
      in if mv2_is_break mv then (mv2_result mv, block, d) else part_var_foreach_loop f cs mv block d)"

definition part_var_foreach :: "'d part_foreach \<Rightarrow> part_block option \<Rightarrow> 'd \<Rightarrow> (int \<times> part_block \<times> 'd) outcome" where
  "part_var_foreach f bo d =
     (if \<not> part_block_is_good bo then Abort
      else Ret (part_var_foreach_loop f (pb_list (the bo)) 0 (the bo) d))"

definition kv_foreach_byname_prefix_cb :: "u8 list \<Rightarrow> 'd part_foreach \<Rightarrow> 'd part_foreach" where
  "kv_foreach_byname_prefix_cb name f block c d =
     (if length name \<le> length (fst c) \<and> os_memeq (fst c) name (length name)
      then f block c d else (mv2_OK, block, d))"

definition part_var_foreach_byname_prefix ::
  "'d part_foreach \<Rightarrow> part_block option \<Rightarrow> u8 list option \<Rightarrow> 'd \<Rightarrow> (int \<times> part_block \<times> 'd) outcome" where
  "part_var_foreach_byname_prefix f bo name d =
     (if name = None then Abort else part_var_foreach (kv_foreach_byname_prefix_cb (the name) f) bo d)"

definition part_var_find_item :: "part_block \<Rightarrow> u8 list \<Rightarrow> part_item option" where
  "part_var_find_item block name = List.find (\<lambda>c. name = fst c) (pb_list block)"

definition part_var_find :: "part_block option \<Rightarrow> u8 list option \<Rightarrow> (int \<times> part_item option) outcome" where
  "part_var_find bo name =
     (if \<not> part_block_is_good bo then Abort
      else if name = None then Abort
      else case part_var_find_item (the bo) (the name) of
             None \<Rightarrow> Ret (err ENOEXIST, None)
           | Some item \<Rightarrow> Ret (0, Some item))"

fun replace_first :: "u8 list \<Rightarrow> part_item \<Rightarrow> part_item list \<Rightarrow> part_item list" where
  "replace_first name c' [] = []"
| "replace_first name c' (c # cs) = (if name = fst c then c' # cs else c # replace_first name c' cs)"

text \<open>When an allocation fails while an existing item is updated, \<open>part_cursor_init\<close> has freed both strings without clearing the
  pointers: without memory for the name it frees the value a second time, without memory for the value it returns
  \<open>-ENOMEM\<close> with a freed name in the list. Both are undefined behaviour, and \<open>Abort\<close> here.\<close>

definition part_var_create_flag :: "(u8 list \<Rightarrow> u8 list \<Rightarrow> bool) \<Rightarrow> part_block option \<Rightarrow> u8 list option \<Rightarrow> u8 list option
    \<Rightarrow> u32 \<Rightarrow> (int \<times> part_block) outcome" where
  "part_var_create_flag alloc bo name value flag =
     (if \<not> part_block_is_good bo then Abort
      else if name = None then Abort
      else if value = None then Abort
      else if 0 = (PART_VAR_CREATE AND flag) then Abort
      else
        let block = the bo in
        case part_var_find_item block (the name) of
          Some item \<Rightarrow>
            if os_hasflag flag PART_VAR_UPDATE_IF_EXIT then
              let block = block\<lparr>pb_flag := pb_flag block OR PART_DIRTY\<rparr>
              in if alloc (the name) (the value)
                 then Ret (0, block\<lparr>pb_list := replace_first (the name) (the name, the value) (pb_list block)\<rparr>)
                 else Abort
            else if os_hasflag flag PART_VAR_CREATE_IF_NOT_EXIT then Ret (err EEXIST, block)
            else Abort
        | None \<Rightarrow>
            if os_hasflag flag PART_VAR_CREATE_IF_NOT_EXIT then
              let block = block\<lparr>pb_flag := pb_flag block OR PART_DIRTY\<rparr>
              in Ret (part_item_insert block (part_item_new alloc (the name) (the value)))
            else if os_hasflag flag PART_VAR_UPDATE_IF_EXIT then Ret (err ENOEXIST, block)
            else Abort)"

definition part_var_create :: "(u8 list \<Rightarrow> u8 list \<Rightarrow> bool) \<Rightarrow> part_block option \<Rightarrow> u8 list option \<Rightarrow> u8 list option
    \<Rightarrow> (int \<times> part_block) outcome" where
  "part_var_create alloc bo name value = part_var_create_flag alloc bo name value PART_VAR_CREATE_IF_NOT_EXIT"

definition part_var_update :: "(u8 list \<Rightarrow> u8 list \<Rightarrow> bool) \<Rightarrow> part_block option \<Rightarrow> u8 list option \<Rightarrow> u8 list option
    \<Rightarrow> (int \<times> part_block) outcome" where
  "part_var_update alloc bo name value = part_var_create_flag alloc bo name value PART_VAR_UPDATE_IF_EXIT"

definition part_var_new :: "(u8 list \<Rightarrow> u8 list \<Rightarrow> bool) \<Rightarrow> part_block option \<Rightarrow> u8 list option \<Rightarrow> u8 list option
    \<Rightarrow> (int \<times> part_block) outcome" where
  "part_var_new alloc bo name value = part_var_create_flag alloc bo name value
     (PART_VAR_CREATE_IF_NOT_EXIT OR PART_VAR_UPDATE_IF_EXIT)"

definition part_var_delete :: "part_block option \<Rightarrow> u8 list option \<Rightarrow> (int \<times> part_block) outcome" where
  "part_var_delete bo name =
     (if \<not> part_block_is_good bo then Abort
      else if name = None then Abort
      else Ret (kv_item_destroy (the bo) (part_var_find_item (the bo) (the name))))"

definition part_var_delete_byname_prefix_cb :: "unit part_foreach" where
  "part_var_delete_byname_prefix_cb block c d =
     (let (e, block) = kv_item_destroy block (Some c) in (mv2_GO e, block, d))"

definition part_var_delete_byname_prefix :: "part_block option \<Rightarrow> u8 list option \<Rightarrow> (int \<times> part_block) outcome" where
  "part_var_delete_byname_prefix bo name =
     obind (part_var_foreach_byname_prefix part_var_delete_byname_prefix_cb bo name ()) (\<lambda>(e, block, _). Ret (e, block))"

end
