(* ===== verification/Part_Codec.thy ===== *)
theory Part_Codec
  imports Part_Block
begin

text \<open>
  Cache and list of a partition block describe the same pairs: writing a list of clean pairs into the
  cache and reading it back gives the same list, and the CRC line written is the one that the reader
  recomputes. The XOR with the block key is an involution.
\<close>

subsection \<open>The CRC string\<close>

lemma os_digits_loop_append:
  "os_digits_loop (xs @ ys) base n = obind (os_digits_loop xs base n) (os_digits_loop ys base)"
proof (induction xs arbitrary: n)
  case (Cons c xs)
  then show ?case
    by (cases "os_digitchar2int (sint c)") simp_all
qed simp

lemma os_digits_loop_print_x: "os_digits_loop (print_x n) 16 0 = Ret (int n)"
proof (induction n rule: print_x.induct)
  case (1 n)
  show ?case
  proof (cases "n < 16")
    case True
    then show ?thesis
      by (subst print_x.simps) (simp add: digit_hex)
  next
    case False
    have "int (n div 16) * 16 + int (n mod 16) = int n"
      by (metis div_mult_mod_eq of_nat_add of_nat_mult of_nat_numeral)
    with False 1 show ?thesis
      by (subst print_x.simps) (simp add: os_digits_loop_append digit_hex)
  qed
qed

lemma hex_digit_nonzero: "d < 16 \<Longrightarrow> hex_digit d \<noteq> 0"
proof -
  assume "d < 16"
  moreover have "\<forall>d \<in> set [0..<16]. hex_digit d \<noteq> 0"
    by code_simp
  ultimately show ?thesis by simp
qed

lemma print_x_nonzero: "c \<in> set (print_x n) \<Longrightarrow> c \<noteq> 0"
proof (induction n rule: print_x.induct)
  case (1 n)
  then show ?case
    by (cases "n < 16") (auto simp: print_x.simps [of n] hex_digit_nonzero)
qed

lemma length_print_x: "n < 16 ^ k \<Longrightarrow> 0 < k \<Longrightarrow> length (print_x n) \<le> k"
proof (induction n arbitrary: k rule: print_x.induct)
  case (1 n)
  show ?case
  proof (cases "n < 16")
    case True
    with 1 show ?thesis by (simp add: print_x.simps)
  next
    case False
    then obtain j where k: "k = Suc j" "0 < j"
      using 1 by (cases k; cases "k - 1") auto
    then have "n div 16 < 16 ^ j"
      using "1.prems" by (simp add: less_mult_imp_div_less mult.commute)
    with 1 False k show ?thesis
      by (subst print_x.simps) simp
  qed
qed

lemma cstr_pad: "(\<And>c. c \<in> set xs \<Longrightarrow> c \<noteq> 0) \<Longrightarrow> cstr (xs @ replicate n 0) = xs"
  unfolding cstr_def by (subst takeWhile_append2) simp_all

lemma cstr_id: "0 \<notin> set xs \<Longrightarrow> cstr xs = xs"
  by (auto simp: cstr_def takeWhile_eq_all_conv)

text \<open>The nine bytes of the CRC line of a block.\<close>

definition crc_head :: "u32 \<Rightarrow> u8 list" where
  "crc_head crc = take 8 (print_x (unat crc) @ replicate 8 0)"

lemma length_crc_head [simp]: "length (crc_head crc) = 8"
  by (simp add: crc_head_def)

lemma crc_head_digits: "os_digitstring2number (cstr (crc_head crc)) (length (cstr (crc_head crc))) 16 = Ret (uint crc)"
proof -
  have "unat crc < 16 ^ 8"
    using unat_bound [of crc] by simp
  then have "length (print_x (unat crc)) \<le> 8"
    by (rule length_print_x) simp
  then have "crc_head crc = print_x (unat crc) @ replicate (8 - length (print_x (unat crc))) 0"
    by (simp add: crc_head_def)
  then have "cstr (crc_head crc) = print_x (unat crc)"
    using print_x_nonzero by (simp add: cstr_pad)
  then show ?thesis
    by (simp add: os_digitstring2number_def os_digits_loop_print_x)
qed

subsection \<open>Writing the lines\<close>

definition line_of :: "part_item \<Rightarrow> u8 list" where
  "line_of c = fst c @ PART_SEPERATOR # snd c @ [PART_CRLF]"

definition lines_of :: "part_item list \<Rightarrow> u8 list" where
  "lines_of cs = concat (map line_of cs)"

lemma lines_of_simps [simp]: "lines_of [] = []" "lines_of (c # cs) = line_of c @ lines_of cs"
  by (simp_all add: lines_of_def)

lemma length_line_of: "length (line_of c) = length (fst c) + 1 + length (snd c) + 1"
  by (simp add: line_of_def)

lemma overwrite_overwrite:
  "off + length xs + length ys \<le> length buf \<Longrightarrow>
   overwrite (overwrite buf off xs) (off + length xs) ys = overwrite buf off (xs @ ys)"
  by (simp add: overwrite_def ac_simps)

lemma length_overwrite: "off + length xs \<le> length buf \<Longrightarrow> length (overwrite buf off xs) = length buf"
  by (simp add: overwrite_def)

lemma part_line_wirte_loop_lines:
  "length cache = bend \<Longrightarrow> off + length (lines_of cs) < bend \<Longrightarrow>
   part_line_wirte_loop bend cs (Some off) cache = overwrite cache off (lines_of cs)"
proof (induction cs arbitrary: off cache)
  case Nil
  then show ?case by (simp add: overwrite_def)
next
  case (Cons c cs)
  have "part_write_line cache (Some off) bend c = (Some (off + length (line_of c)), overwrite cache off (line_of c))"
    using Cons.prems(2) by (simp add: part_write_line_def length_line_of line_of_def)
  then show ?case
    using Cons.prems Cons.IH [of "overwrite cache off (line_of c)" "off + length (line_of c)"]
    by (simp add: length_overwrite overwrite_overwrite add.assoc)
qed

text \<open>The image of a list of pairs that fits: CRC line, lines, zeros.\<close>

definition fits :: "nat \<Rightarrow> part_item list \<Rightarrow> bool" where
  "fits n cs \<longleftrightarrow> 9 + length (lines_of cs) < n"

definition payload :: "nat \<Rightarrow> part_item list \<Rightarrow> u8 list" where
  "payload n cs = lines_of cs @ replicate (n - 9 - length (lines_of cs)) 0"

definition image :: "nat \<Rightarrow> part_item list \<Rightarrow> u8 list" where
  "image n cs = crc_head (os_crc32 (payload n cs)) @ PART_CRLF # payload n cs"

lemma length_image: "fits n cs \<Longrightarrow> length (image n cs) = n"
  by (simp add: fits_def image_def payload_def)

lemma length_payload: "fits n cs \<Longrightarrow> length (payload n cs) = n - 9"
  by (simp add: fits_def payload_def)

lemma part_line_wirte_image:
  assumes "fits (pb_size block) (pb_list block)"
  shows "part_line_wirte block = (0, block\<lparr>pb_cache := image (pb_size block) (pb_list block),
           pb_flag := pb_flag block AND NOT PART_DIRTY\<rparr>)"
proof -
  define n cs where "n = pb_size block" and "cs = pb_list block"
  have f: "9 + length (lines_of cs) < n"
    using assms by (simp add: fits_def n_def cs_def)
  have "part_line_wirte_loop n cs (Some 9) (replicate n 0) = overwrite (replicate n 0) 9 (lines_of cs)"
    using f by (intro part_line_wirte_loop_lines) simp_all
  also have "\<dots> = replicate 9 0 @ payload n cs"
    using f by (simp add: overwrite_def payload_def min_def)
  finally have loop: "part_line_wirte_loop n cs (Some 9) (replicate n 0) = replicate 9 0 @ payload n cs" .
  define b where "b = block\<lparr>pb_cache := replicate 9 0 @ payload n cs\<rparr>"
  have len: "length (payload n cs) = n - 9"
    using assms by (intro length_payload) (simp add: n_def cs_def)
  have "part_block_body b = payload n cs"
    using f len by (simp add: part_block_body_def b_def CRC32_STRINGLEN_def n_def [symmetric])
  then have crc: "part_block_crc b = os_crc32 (payload n cs)"
    using len by (simp add: part_block_crc_def part_block_size_def b_def n_def [symmetric] CRC32_STRINGLEN_def)
  have "take 8 (print_x (unat (part_block_crc b)) @ replicate 8 0) = crc_head (part_block_crc b)"
    by (simp add: crc_head_def)
  then have "pb_cache (part_block_crc_write b) = image n cs"
    using len f unfolding part_block_crc_write_def Let_def CRC32_STRINGLEN_def crc image_def
    by (simp add: overwrite_def b_def numeral_eq_Suc)
  moreover have "part_block_crc_write b = b\<lparr>pb_cache := pb_cache (part_block_crc_write b)\<rparr>"
    by (simp add: part_block_crc_write_def Let_def)
  ultimately have "part_block_crc_write b = block\<lparr>pb_cache := image n cs\<rparr>"
    by (simp add: b_def)
  then show ?thesis
    using loop by (simp add: part_line_wirte_def Let_def CRC32_STRINGLEN_def n_def [symmetric] cs_def [symmetric] b_def)
qed

subsection \<open>Reading the lines\<close>

text \<open>
  A pair is clean when its line survives the clean-up of the reader: no NUL or newline, a name without
  blanks that does not look like a comment, a value that neither starts nor ends with a blank and has
  no two separators in a row, and a line shorter than the line buffer.
\<close>

definition name_clean :: "u8 list \<Rightarrow> bool" where
  "name_clean k \<longleftrightarrow> k \<noteq> [] \<and> (\<forall>c\<in>set k. c \<notin> {0, 9, 10, 32}) \<and> hd k \<noteq> 13 \<and> hd k \<noteq> PART_COMMENT"

definition value_clean :: "u8 list \<Rightarrow> bool" where
  "value_clean v \<longleftrightarrow> v \<noteq> [] \<and> (\<forall>c\<in>set v. c \<noteq> 0 \<and> c \<noteq> 10) \<and> \<not> is_separator (hd v)
     \<and> \<not> char_is None (last v) \<and> reduced (Some is_separator) v"

definition item_clean :: "part_item \<Rightarrow> bool" where
  "item_clean c \<longleftrightarrow> name_clean (fst c) \<and> value_clean (snd c) \<and> length (fst c) + 1 + length (snd c) < PART_MAX_LINE"

lemma is_separator_iff: "is_separator c \<longleftrightarrow> c = 0 \<or> c = 9 \<or> c = 32"
  by (auto simp: is_separator_def part_seperators_def)

lemma name_chars: "name_clean k \<Longrightarrow> c \<in> set k \<Longrightarrow> \<not> is_separator c \<and> c \<noteq> PART_CRLF \<and> c \<noteq> 0"
  by (auto simp: name_clean_def is_separator_iff PART_CRLF_def)

lemma reduced_prefix:
  "(\<And>c. c \<in> set k \<Longrightarrow> \<not> char_is IS c) \<Longrightarrow> reduced IS (k @ s) = reduced IS s"
  by (induction k) (simp_all add: reduced_Cons)

lemma clean_line_reduced:
  "name_clean k \<Longrightarrow> value_clean v \<Longrightarrow> reduced (Some is_separator) (k @ PART_SEPERATOR # v)"
  by (subst reduced_prefix) (auto simp: char_is_def name_chars value_clean_def neq_Nil_conv)

lemma clean_line_trimmed:
  assumes "name_clean k" and "value_clean v"
  shows "string_strim_both_ends None (k @ PART_SEPERATOR # v) = k @ PART_SEPERATOR # v"
proof (rule string_strim_both_ends_id)
  have "hd k \<in> set k" "hd k \<noteq> 13"
    using assms(1) by (auto simp: name_clean_def)
  then show "\<not> char_is None (hd (k @ PART_SEPERATOR # v))"
    using assms(1) by (auto simp: name_clean_def char_is_def blanks_def)
qed (use assms in \<open>auto simp: value_clean_def\<close>)

lemma part_get_value_clean:
  "name_clean k \<Longrightarrow> part_get_value_from_line (k @ PART_SEPERATOR # v) = (k, Some v)"
proof -
  assume k: "name_clean k"
  have c: "c \<notin> set part_seperators" if "c \<in> set k" for c
    using name_chars [OF k that] by (auto simp: is_separator_def)
  have "dropWhile (\<lambda>c. c \<notin> set part_seperators) (k @ PART_SEPERATOR # v) = PART_SEPERATOR # v"
    using c by (subst dropWhile_append2) (auto simp: part_seperators_def PART_SEPERATOR_def)
  moreover have "takeWhile (\<lambda>c. c \<notin> set part_seperators) (k @ PART_SEPERATOR # v) = k"
    using c by (subst takeWhile_append2) (auto simp: part_seperators_def PART_SEPERATOR_def)
  ultimately show ?thesis
    by (simp add: part_get_value_from_line_def Let_def)
qed

lemma part_line_read_one_clean:
  assumes "item_clean (k, v)" and "alloc k v"
  shows "part_line_read_one alloc (k @ PART_SEPERATOR # v) block =
    block\<lparr>pb_list := pb_list block @ [(k, v)], pb_count := pb_count block + 1\<rparr>"
proof -
  have c: "name_clean k" "value_clean v"
    using assms(1) by (simp_all add: item_clean_def)
  then have "take 1 (k @ PART_SEPERATOR # v) \<noteq> [PART_COMMENT]"
    by (cases k) (auto simp: name_clean_def)
  with c show ?thesis
    using assms(2)
    by (simp add: part_line_read_one_def clean_line_trimmed string_reduce_id clean_line_reduced
        part_get_value_clean part_item_new_def part_item_insert_def Let_def)
qed

lemma part_read_line_clean:
  assumes "item_clean (k, v)" and "rest \<noteq> []"
  shows "part_read_line past (Some (line_of (k, v) @ rest)) PART_MAX_LINE = (Some rest, k @ PART_SEPERATOR # v)"
    and "cstr (k @ PART_SEPERATOR # v) = k @ PART_SEPERATOR # v"
proof -
  have c: "name_clean k" "value_clean v" "length k + 1 + length v < PART_MAX_LINE"
    using assms(1) by (simp_all add: item_clean_def)
  define l where "l = k @ PART_SEPERATOR # v"
  have l: "c \<noteq> PART_CRLF \<and> c \<noteq> 0" if "c \<in> set l" for c
    using that name_chars [OF c(1)] c(2) by (auto simp: l_def value_clean_def PART_SEPERATOR_def PART_CRLF_def)
  have bs: "line_of (k, v) @ rest = l @ PART_CRLF # rest"
    by (simp add: line_of_def l_def)
  have "takeWhile (\<lambda>c. c \<noteq> PART_CRLF) (l @ PART_CRLF # rest) = l"
    "dropWhile (\<lambda>c. c \<noteq> PART_CRLF) (l @ PART_CRLF # rest) = PART_CRLF # rest"
    using l by (subst takeWhile_append2; simp) (subst dropWhile_append2, use l in simp_all)
  then show "part_read_line past (Some (line_of (k, v) @ rest)) PART_MAX_LINE = (Some rest, k @ PART_SEPERATOR # v)"
    using assms(2) c(3) unfolding bs by (simp add: part_read_line_def l_def [symmetric] Let_def) (simp add: l_def)
  show "cstr (k @ PART_SEPERATOR # v) = k @ PART_SEPERATOR # v"
    using l by (intro cstr_id) (auto simp: l_def)
qed

lemma part_line_read_loop_zeros:
  "part_line_read_loop alloc past (Some (replicate m 0)) block = block"
proof -
  have "takeWhile (\<lambda>c. c \<noteq> PART_CRLF) (replicate m 0) = replicate m 0"
    "dropWhile (\<lambda>c. c \<noteq> PART_CRLF) (replicate m 0) = []"
    by (simp_all add: PART_CRLF_def takeWhile_eq_all_conv dropWhile_eq_Nil_conv)
  then have "\<exists>copied. part_read_line past (Some (replicate m 0)) PART_MAX_LINE = (None, copied) \<and> cstr copied = []"
    by (cases m) (auto simp: part_read_line_def cstr_def Let_def)
  then show ?thesis
    by (subst part_line_read_loop.simps) (auto simp: Let_def)
qed

lemma part_line_read_loop_lines:
  assumes "\<forall>c\<in>set cs. item_clean c \<and> alloc (fst c) (snd c)" and "0 < m"
  shows "part_line_read_loop alloc past (Some (lines_of cs @ replicate m 0)) block =
    block\<lparr>pb_list := pb_list block @ cs, pb_count := pb_count block + of_nat (length cs)\<rparr>"
  using assms(1)
proof (induction cs arbitrary: block)
  case Nil
  then show ?case by (simp add: part_line_read_loop_zeros)
next
  case (Cons c cs)
  obtain k v where c: "c = (k, v)" by force
  have "lines_of cs @ replicate m 0 \<noteq> []"
    using assms(2) by simp
  then have line: "part_read_line past (Some (lines_of (c # cs) @ replicate m 0)) PART_MAX_LINE
      = (Some (lines_of cs @ replicate m 0), k @ PART_SEPERATOR # v)"
    "cstr (k @ PART_SEPERATOR # v) = k @ PART_SEPERATOR # v"
    using Cons.prems c part_read_line_clean [of k v "lines_of cs @ replicate m 0"] by simp_all
  have "part_line_read_loop alloc past (Some (lines_of (c # cs) @ replicate m 0)) block
     = part_line_read_loop alloc past (Some (lines_of cs @ replicate m 0))
         (block\<lparr>pb_list := pb_list block @ [(k, v)], pb_count := pb_count block + 1\<rparr>)"
    using Cons.prems c line
    by (subst part_line_read_loop.simps) (simp add: part_line_read_one_clean Let_def)
  also have "\<dots> = block\<lparr>pb_list := pb_list block @ c # cs, pb_count := pb_count block + of_nat (length (c # cs))\<rparr>"
    using Cons c by (simp add: add.assoc)
  finally show ?case .
qed

lemma high_read_image:
  assumes "pb_cache block = image (pb_size block) cs" and "fits (pb_size block) cs" and "pb_count block = 0"
    and "\<forall>c\<in>set cs. item_clean c \<and> alloc (fst c) (snd c)"
  shows "part_high_read alloc past block = Ret (0, block\<lparr>pb_list := pb_list block @ cs,
     pb_count := of_nat (length cs), pb_flag := (pb_flag block OR PART_CACHED) AND NOT PART_DIRTY\<rparr>)"
proof -
  define n where "n = pb_size block"
  have f: "9 + length (lines_of cs) < n"
    using assms(2) by (simp add: fits_def n_def)
  have len: "length (payload n cs) = n - 9" "length (image n cs) = n"
    using assms(2) by (simp_all add: length_payload length_image n_def)
  have body: "part_block_body block = payload n cs"
    using f len assms(1) unfolding part_block_body_def n_def [symmetric] CRC32_STRINGLEN_def
    by (simp add: image_def)
  have crc: "part_block_crc block = os_crc32 (payload n cs)"
    using len by (simp add: part_block_crc_def body part_block_size_def CRC32_STRINGLEN_def n_def)
  have "take CRC32_STRINGLEN (pb_cache block) = crc_head (os_crc32 (payload n cs))"
    using assms(1) by (simp add: image_def n_def CRC32_STRINGLEN_def)
  then have "part_block_crc_read block = Ret (os_crc32 (payload n cs))"
    by (simp add: part_block_crc_read_def Let_def crc_head_digits)
  moreover have "part_line_read_loop alloc past (Some (payload n cs)) block =
      block\<lparr>pb_list := pb_list block @ cs, pb_count := of_nat (length cs)\<rparr>"
    unfolding payload_def using f assms(3,4) by (subst part_line_read_loop_lines) simp_all
  ultimately show ?thesis
    using assms(3) by (simp add: part_high_read_def part_line_read_def body crc Let_def)
qed

subsection \<open>The key\<close>

definition xored :: "u32 \<Rightarrow> nat \<Rightarrow> u8 list \<Rightarrow> u8 list" where
  "xored x n bs = (if x \<noteq> 0 then map (\<lambda>(i, c). if i < n then c XOR xor_byte x i else c) (enumerate 0 bs) else bs)"

lemma part_xor_cache: "part_xor b = b\<lparr>pb_cache := xored (pb_xor b) (pb_size b) (pb_cache b)\<rparr>"
  by (simp add: part_xor_def xored_def)

lemma xored_xored: "xored x n (xored x n bs) = bs"
proof (rule nth_equalityI)
  show "xored x n (xored x n bs) ! i = bs ! i" if "i < length (xored x n (xored x n bs))" for i
    using that by (cases "x = 0") (simp_all add: xored_def nth_enumerate_eq xor.assoc)
qed (simp add: xored_def)

lemma part_xor_involution: "part_xor (part_xor block) = block"
  by (simp add: part_xor_cache xored_xored)

lemma length_xored [simp]: "length (xored x n bs) = length bs"
  by (simp add: xored_def)

end
