(* ===== verification/Part_Store.thy ===== *)
theory Part_Store
  imports Part_Codec
begin

text \<open>
  The block as a store. Two contracts are stated as locales: \<open>kv_impl\<close>, a table of variables with result
  codes, which the variable functions of the block implement, and \<open>flash_driver\<close>, what the block
  expects of its read and write callbacks, under which a flushed block is read back unchanged.
\<close>

subsection \<open>The table of variables\<close>

datatype var_op = VarNew "u8 list" "u8 list" | VarCreate "u8 list" "u8 list" | VarUpdate "u8 list" "u8 list"
  | VarDelete "u8 list"

type_synonym var_table = "u8 list \<rightharpoonup> u8 list"

text \<open>What each operation means on a finite map, with its result code.\<close>

fun map_step :: "var_table \<Rightarrow> var_op \<Rightarrow> int \<times> var_table" where
  "map_step m (VarNew k v) = (0, m(k \<mapsto> v))"
| "map_step m (VarCreate k v) = (if m k = None then (0, m(k \<mapsto> v)) else (err EEXIST, m))"
| "map_step m (VarUpdate k v) = (if m k = None then (err ENOEXIST, m) else (0, m(k \<mapsto> v)))"
| "map_step m (VarDelete k) = (if m k = None then (err ENOEXIST, m) else (0, m(k := None)))"

fun map_run :: "var_table \<Rightarrow> var_op list \<Rightarrow> int list \<times> var_table" where
  "map_run m [] = ([], m)"
| "map_run m (op # ops) = (let (e, m) = map_step m op; (es, m) = map_run m ops in (e # es, m))"

fun run_ops :: "('s \<Rightarrow> var_op \<Rightarrow> (int \<times> 's) outcome) \<Rightarrow> 's \<Rightarrow> var_op list \<Rightarrow> (int list \<times> 's) outcome" where
  "run_ops step s [] = Ret ([], s)"
| "run_ops step s (op # ops) = obind (step s op) (\<lambda>(e, s). obind (run_ops step s ops) (\<lambda>(es, s). Ret (e # es, s)))"

locale kv_impl =
  fixes step :: "'s \<Rightarrow> var_op \<Rightarrow> (int \<times> 's) outcome"
    and inv :: "'s \<Rightarrow> bool"
    and view :: "'s \<Rightarrow> var_table"
  assumes step_law: "inv s \<Longrightarrow> \<exists>e s'. step s op = Ret (e, s') \<and> inv s' \<and> map_step (view s) op = (e, view s')"
begin

lemma run_law: "inv s \<Longrightarrow> \<exists>es s'. run_ops step s ops = Ret (es, s') \<and> inv s' \<and> map_run (view s) ops = (es, view s')"
proof (induction ops arbitrary: s)
  case (Cons op ops)
  obtain e t where t: "step s op = Ret (e, t)" "inv t" "map_step (view s) op = (e, view t)"
    using step_law [OF Cons.prems] by blast
  show ?case
    using Cons.IH [OF t(2)] t by (auto simp: Let_def)
qed simp

end

text \<open>The functions of the block, with allocations that succeed.\<close>

definition var_step :: "part_block \<Rightarrow> var_op \<Rightarrow> (int \<times> part_block) outcome" where
  "var_step b op = (case op of
      VarNew k v \<Rightarrow> part_var_new (\<lambda>_ _. True) (Some b) (Some k) (Some v)
    | VarCreate k v \<Rightarrow> part_var_create (\<lambda>_ _. True) (Some b) (Some k) (Some v)
    | VarUpdate k v \<Rightarrow> part_var_update (\<lambda>_ _. True) (Some b) (Some k) (Some v)
    | VarDelete k \<Rightarrow> part_var_delete (Some b) (Some k))"

definition block_ok :: "part_block \<Rightarrow> bool" where
  "block_ok b \<longleftrightarrow> part_block_is_good (Some b) \<and> distinct (map fst (pb_list b))
     \<and> pb_count b = of_nat (length (pb_list b))"

lemma find_item_map_of: "part_var_find_item b k = map_option (Pair k) (map_of (pb_list b) k)"
proof -
  have "List.find (\<lambda>c. k = fst c) cs = map_option (Pair k) (map_of cs k)" for cs :: "part_item list"
    by (induction cs) auto
  then show ?thesis
    by (simp add: part_var_find_item_def)
qed

lemma map_of_replace_first:
  "map_of cs k \<noteq> None \<Longrightarrow> map_of (replace_first k (k, v) cs) = (map_of cs)(k \<mapsto> v)"
  by (induction cs) (auto simp: fun_eq_iff)

lemma fst_replace_first: "map fst (replace_first k (k, v) cs) = map fst cs"
  by (induction cs) auto

lemma map_of_remove1:
  assumes "distinct (map fst cs)" and "map_of cs k = Some v"
  shows "map_of (remove1 (k, v) cs) = (map_of cs)(k := None)"
  using assms
proof (induction cs)
  case (Cons c cs)
  then show ?case
    by (cases "fst c = k") (auto simp: fun_eq_iff map_of_eq_None_iff dest: map_of_SomeD)
qed simp

lemma distinct_fst_remove1: "distinct (map fst cs) \<Longrightarrow> distinct (map fst (remove1 c cs))"
  by (induction cs) (auto dest: set_remove1_subset [THEN subsetD])

lemma is_good_upd [simp]:
  "part_block_is_good (Some (b\<lparr>pb_list := l\<rparr>)) = part_block_is_good (Some b)"
  "part_block_is_good (Some (b\<lparr>pb_count := c\<rparr>)) = part_block_is_good (Some b)"
  "part_block_is_good (Some (b\<lparr>pb_flag := f\<rparr>)) = part_block_is_good (Some b)"
  "part_block_is_good (Some (b\<lparr>pb_cache := bs\<rparr>)) = part_block_is_good (Some b)"
  by (simp_all add: part_block_is_good_def)

lemma var_flags [simp]:
  "os_hasflag PART_VAR_CREATE_IF_NOT_EXIT PART_VAR_CREATE_IF_NOT_EXIT"
  "os_hasflag PART_VAR_UPDATE_IF_EXIT PART_VAR_UPDATE_IF_EXIT"
  "\<not> os_hasflag PART_VAR_CREATE_IF_NOT_EXIT PART_VAR_UPDATE_IF_EXIT"
  "\<not> os_hasflag PART_VAR_UPDATE_IF_EXIT PART_VAR_CREATE_IF_NOT_EXIT"
  "os_hasflag (PART_VAR_CREATE_IF_NOT_EXIT OR PART_VAR_UPDATE_IF_EXIT) PART_VAR_CREATE_IF_NOT_EXIT"
  "os_hasflag (PART_VAR_CREATE_IF_NOT_EXIT OR PART_VAR_UPDATE_IF_EXIT) PART_VAR_UPDATE_IF_EXIT"
  "PART_VAR_CREATE AND PART_VAR_CREATE_IF_NOT_EXIT \<noteq> 0" "PART_VAR_CREATE AND PART_VAR_UPDATE_IF_EXIT \<noteq> 0"
  "PART_VAR_CREATE AND (PART_VAR_CREATE_IF_NOT_EXIT OR PART_VAR_UPDATE_IF_EXIT) \<noteq> 0"
  by (simp_all add: os_hasflag_def PART_VAR_CREATE_def PART_VAR_CREATE_IF_NOT_EXIT_def PART_VAR_UPDATE_IF_EXIT_def)

lemmas var_step_defs = var_step_def part_var_new_def part_var_create_def part_var_update_def part_var_delete_def
  part_var_create_flag_def part_item_insert_def part_item_new_def kv_item_destroy_def part_item_remove_def

lemma block_ok_append:
  "block_ok b \<Longrightarrow> map_of (pb_list b) k = None \<Longrightarrow>
   block_ok (b\<lparr>pb_flag := f, pb_list := pb_list b @ [(k, v)], pb_count := pb_count b + 1\<rparr>)"
  by (auto simp: block_ok_def map_of_eq_None_iff part_block_is_good_def)

lemma block_ok_replace:
  "block_ok b \<Longrightarrow> block_ok (b\<lparr>pb_flag := f, pb_list := replace_first k (k, v) (pb_list b)\<rparr>)"
proof -
  have "length (replace_first k (k, v) cs) = length cs" for cs
    by (induction cs) auto
  then show "block_ok b \<Longrightarrow> ?thesis"
    by (simp add: block_ok_def fst_replace_first part_block_is_good_def)
qed

lemma block_ok_remove:
  assumes "block_ok b" and "c \<in> set (pb_list b)"
  shows "block_ok (b\<lparr>pb_list := remove1 c (pb_list b), pb_count := pb_count b - 1, pb_flag := f\<rparr>)"
proof -
  have "length (pb_list b) = Suc (length (remove1 c (pb_list b)))"
    using assms(2) length_pos_if_in_set [OF assms(2)] by (simp add: length_remove1)
  then show ?thesis
    using assms(1) by (simp add: block_ok_def distinct_fst_remove1 part_block_is_good_def)
qed

lemma create_or_update:
  assumes "block_ok b" and that: "if map_of (pb_list b) k = None then os_hasflag flag PART_VAR_CREATE_IF_NOT_EXIT
         else os_hasflag flag PART_VAR_UPDATE_IF_EXIT" "PART_VAR_CREATE AND flag \<noteq> 0"
  shows "\<exists>b'. part_var_create_flag (\<lambda>_ _. True) (Some b) (Some k) (Some v) flag = Ret (0, b') \<and> block_ok b'
     \<and> map_of (pb_list b') = (map_of (pb_list b))(k \<mapsto> v)"
proof (cases "map_of (pb_list b) k")
  case None
  with that assms show ?thesis
    using block_ok_append [OF assms(1) None] map_of_snoc [OF None]
    by (simp add: part_var_create_flag_def find_item_map_of part_item_new_def part_item_insert_def block_ok_def)
next
  case (Some w)
  then have "map_of (replace_first k (k, v) (pb_list b)) = (map_of (pb_list b))(k \<mapsto> v)"
    by (intro map_of_replace_first) simp
  with that assms Some show ?thesis
    using block_ok_replace [OF assms(1)]
    by (simp add: part_var_create_flag_def find_item_map_of block_ok_def)
qed

interpretation block: kv_impl var_step block_ok "\<lambda>b. map_of (pb_list b)"
proof
  fix b op
  assume ok: "block_ok b"
  have good: "part_block_is_good (Some b)"
    using ok by (simp add: block_ok_def)
  show "\<exists>e b'. var_step b op = Ret (e, b') \<and> block_ok b' \<and> map_step (map_of (pb_list b)) op = (e, map_of (pb_list b'))"
  proof (cases op)
    case (VarNew k v)
    have "\<exists>b'. part_var_new (\<lambda>_ _. True) (Some b) (Some k) (Some v) = Ret (0, b') \<and> block_ok b'
       \<and> map_of (pb_list b') = (map_of (pb_list b))(k \<mapsto> v)"
      unfolding part_var_new_def by (rule create_or_update [OF ok]) simp_all
    with VarNew show ?thesis
      by (auto simp: var_step_def)
  next
    case (VarCreate k v)
    show ?thesis
    proof (cases "map_of (pb_list b) k")
      case None
      then show ?thesis
        using create_or_update [OF ok, of k PART_VAR_CREATE_IF_NOT_EXIT v] VarCreate
        by (auto simp: var_step_def part_var_create_def)
    next
      case (Some w)
      then show ?thesis
        using ok good VarCreate by (simp add: var_step_defs find_item_map_of)
    qed
  next
    case (VarUpdate k v)
    show ?thesis
    proof (cases "map_of (pb_list b) k")
      case None
      then show ?thesis
        using ok good VarUpdate by (simp add: var_step_defs find_item_map_of)
    next
      case (Some w)
      then show ?thesis
        using create_or_update [OF ok, of k PART_VAR_UPDATE_IF_EXIT v] VarUpdate
        by (auto simp: var_step_def part_var_update_def)
    qed
  next
    case (VarDelete k)
    show ?thesis
    proof (cases "map_of (pb_list b) k")
      case None
      then show ?thesis
        using ok good VarDelete by (simp add: var_step_defs find_item_map_of)
    next
      case (Some w)
      have "distinct (map fst (pb_list b))"
        using ok by (simp add: block_ok_def)
      with Some show ?thesis
        using block_ok_remove [OF ok map_of_SomeD [OF Some]] good VarDelete
        by (simp add: var_step_defs find_item_map_of Let_def map_of_remove1)
    qed
  qed
qed

subsection \<open>Deleting by prefix\<close>

lemma os_memeq_take: "n \<le> length a \<Longrightarrow> n \<le> length b \<Longrightarrow> os_memeq a b n \<longleftrightarrow> take n a = take n b"
proof -
  have "n \<le> length a \<Longrightarrow> n \<le> length b \<Longrightarrow> os_memcmp a b n = 0 \<longleftrightarrow> take n a = take n b"
    by (induction a b n rule: os_memcmp.induct) auto
  then show "n \<le> length a \<Longrightarrow> n \<le> length b \<Longrightarrow> ?thesis"
    by (simp add: os_memeq_def)
qed

definition has_prefix :: "u8 list \<Rightarrow> u8 list \<Rightarrow> bool" where
  "has_prefix p k \<longleftrightarrow> take (length p) k = p"

lemma prefix_match: "length p \<le> length k \<and> os_memeq k p (length p) \<longleftrightarrow> has_prefix p k"
proof (cases "length p \<le> length k")
  case False
  then show ?thesis
    by (auto simp: has_prefix_def)
qed (simp add: os_memeq_take has_prefix_def)

lemma prefix_delete_loop:
  assumes "pb_list b = dn @ cs" and "\<forall>c\<in>set dn. \<not> has_prefix p (fst c)" and "mv2_result mv = 0"
    and "pb_count b = of_nat (length (pb_list b))"
  shows "\<exists>b'. part_var_foreach_loop (kv_foreach_byname_prefix_cb p part_var_delete_byname_prefix_cb) cs mv b () = (0, b', ())
    \<and> pb_list b' = dn @ filter (\<lambda>c. \<not> has_prefix p (fst c)) cs \<and> pb_count b' = of_nat (length (pb_list b'))"
  using assms
proof (induction cs arbitrary: dn b mv)
  case Nil
  then show ?case by simp
next
  case (Cons c cs)
  show ?case
  proof (cases "has_prefix p (fst c)")
    case True
    then have "c \<notin> set dn"
      using Cons.prems(2) by auto
    then have r: "remove1 c (pb_list b) = dn @ cs"
      using Cons.prems(1) by (simp add: remove1_append)
    define b1 where "b1 = snd (kv_item_destroy b (Some c))"
    have b1: "pb_list b1 = dn @ cs" "pb_count b1 = of_nat (length (pb_list b1))"
      using r Cons.prems(1,4) by (simp_all add: b1_def kv_item_destroy_def part_item_remove_def)
    have "kv_foreach_byname_prefix_cb p part_var_delete_byname_prefix_cb b c () = (mv2_OK, b1, ())"
      using True prefix_match [of p "fst c"]
      by (simp add: kv_foreach_byname_prefix_cb_def part_var_delete_byname_prefix_cb_def b1_def kv_item_destroy_def Let_def)
    then show ?thesis
      using Cons.IH [OF b1(1) Cons.prems(2) mv2_OK_go(2) b1(2)] True by simp
  next
    case False
    then have "kv_foreach_byname_prefix_cb p part_var_delete_byname_prefix_cb b c () = (mv2_OK, b, ())"
      using prefix_match [of p "fst c"] by (auto simp: kv_foreach_byname_prefix_cb_def)
    then show ?thesis
      using Cons.IH [of b "dn @ [c]" mv2_OK] Cons.prems False by simp
  qed
qed

subsection \<open>The flash behind the block\<close>

text \<open>In load mode the text goes into the cache, the list stays empty and the block is dirty.\<close>

lemma create_load:
  assumes "9 < n"
  shows "\<exists>b. part_block_create True (Inr fd) 0 alloc past rd w PART_MODE_LOAD n 1 1 1 (Inr bs) xr = Ret (w, Some b)
    \<and> part_block_is_good (Some b) \<and> pb_size b = n \<and> pb_list b = [] \<and> pb_count b = 0 \<and> is_dirty b
    \<and> pb_xor b = (if xr \<noteq> 0 then xr else PART_XOR)"
proof -
  define x where "x = (if xr \<noteq> 0 then xr else PART_XOR)"
  define b where "b = \<lparr>pb_size = n, pb_cache_ptr = 1, pb_cache = overwrite (replicate n 0) 9 (take (n - 9) bs),
     pb_count = 0, pb_list = [], pb_partition = 1, pb_read = 1, pb_write = 1, pb_flag = PART_DIRTY, pb_xor = x,
     pb_mode = PART_MODE_LOAD, pb_lockfd = fd\<rparr>"
  have "part_block_create True (Inr fd) 0 alloc past rd w PART_MODE_LOAD n 1 1 1 (Inr bs) xr = Ret (w, Some b)"
    using assms by (simp add: part_block_create_def is_good_part_mode_def part_block_new_def part_lock_def
        part_block_init_def part_block_init_byload_def part_human_read_def part_block_size_def CRC32_STRINGLEN_def
        b_def x_def)
  moreover have "part_block_is_good (Some b)" "pb_size b = n" "pb_list b = []" "pb_count b = 0" "is_dirty b" "pb_xor b = x"
    using assms by (simp_all add: part_block_is_good_def b_def is_good_part_mode_def is_dirty_def os_hasflag_def)
  ultimately show ?thesis
    unfolding x_def by blast
qed

text \<open>
  \<open>stored\<close> is the content of the partition, \<open>opn\<close> starts a new run of the program on it; the callbacks are
  only used after that. A write is the last access of a run.
\<close>

locale flash_driver =
  fixes rd :: "'w part_io"
    and wr :: "'w part_io"
    and opn :: "'w \<Rightarrow> 'w"
    and stored :: "'w \<Rightarrow> u8 list"
    and ready :: "'w \<Rightarrow> bool"
    and rest :: "'w \<Rightarrow> 'o"
    and part_len :: nat
  assumes rd_law: "ready w \<Longrightarrow> part_block_is_good (Some b) \<Longrightarrow> pb_size b = part_len \<Longrightarrow>
      length (pb_cache b) = pb_size b \<Longrightarrow>
      \<exists>w'. rd w b = Ret (0, w', b\<lparr>pb_cache := stored w\<rparr>) \<and> ready w' \<and> stored w' = stored w \<and> rest w' = rest w"
    and wr_law: "ready w \<Longrightarrow> part_block_is_good (Some b) \<Longrightarrow> pb_size b = part_len \<Longrightarrow>
      length (pb_cache b) = pb_size b \<Longrightarrow> \<exists>w'. wr w b = Ret (0, w', b) \<and> stored w' = pb_cache b \<and> rest w' = rest w"
    and opn_law: "length (stored w) = part_len \<Longrightarrow> ready (opn w) \<and> stored (opn w) = stored w \<and> rest (opn w) = rest w"
    and ready_len: "ready w \<Longrightarrow> length (stored w) = part_len"
begin

lemma flush_stores:
  assumes "ready w" and "part_block_is_good (Some b)" and "pb_size b = part_len"
    and "is_dirty b" and "fits (pb_size b) (pb_list b)"
  shows "\<exists>w'. part_block_free wr w (Some b) = Ret w' \<and> stored w' = xored (pb_xor b) part_len (image part_len (pb_list b))
    \<and> rest w' = rest w"
proof -
  define c where "c = part_xor (b\<lparr>pb_cache := image part_len (pb_list b), pb_flag := pb_flag b AND NOT PART_DIRTY\<rparr>)"
  have hw: "part_high_wirte b = (0, b\<lparr>pb_cache := image part_len (pb_list b), pb_flag := pb_flag b AND NOT PART_DIRTY\<rparr>)"
    using part_line_wirte_image [OF assms(5)] assms(3) by (simp add: part_high_wirte_def)
  have cc: "pb_cache c = xored (pb_xor b) part_len (image part_len (pb_list b))" "pb_size c = part_len"
    using assms(3) by (simp_all add: c_def part_xor_cache)
  have good: "part_block_is_good (Some c)"
    using assms(2) by (simp add: c_def part_xor_cache part_block_is_good_def)
  have "length (pb_cache c) = pb_size c"
    using assms(3,5) by (simp add: cc length_image)
  then obtain w' where w': "wr w c = Ret (0, w', c)" "stored w' = pb_cache c" "rest w' = rest w"
    using wr_law [OF assms(1) good cc(2)] by blast
  have "part_block_flush wr w b = Ret (0, w', c)"
    using assms(4) w'(1) by (simp add: part_block_flush_def hw part_low_wirte_def c_def)
  then show ?thesis
    using w'(2,3) cc(1) by (simp add: part_block_free_def)
qed

lemma create_reads:
  assumes "stored w = xored x part_len (image part_len cs)" and "x = (if xr \<noteq> 0 then xr else PART_XOR)"
    and "fits part_len cs" and "\<forall>c\<in>set cs. item_clean c \<and> alloc (fst c) (snd c)"
  shows "\<exists>w' b. part_block_create True (Inr fd) 0 alloc past rd (opn w) PART_MODE_NORMAL part_len 1 1 1 human xr = Ret (w', Some b)
    \<and> ready w' \<and> stored w' = stored w \<and> rest w' = rest w \<and> part_block_is_good (Some b) \<and> pb_size b = part_len \<and> pb_xor b = x
    \<and> pb_list b = cs \<and> pb_count b = of_nat (length cs) \<and> \<not> is_dirty b"
proof -
  have pos: "0 < part_len"
    using assms(3) by (simp add: fits_def)
  have "length (stored w) = part_len"
    using assms(1,3) by (simp add: length_image)
  then have o: "ready (opn w)" "stored (opn w) = stored w" "rest (opn w) = rest w"
    using opn_law by simp_all
  define b0 where "b0 = \<lparr>pb_size = part_len, pb_cache_ptr = 1, pb_cache = replicate part_len 0, pb_count = 0,
     pb_list = [], pb_partition = 1, pb_read = 1, pb_write = 1, pb_flag = 0, pb_xor = x, pb_mode = PART_MODE_NORMAL,
     pb_lockfd = fd\<rparr>"
  have new: "part_block_new True (Inr fd) 0 PART_MODE_NORMAL part_len 1 1 1 xr = Ret (Some b0)"
    by (simp add: part_block_new_def part_lock_def b0_def assms(2))
  have good: "part_block_is_good (Some b0)"
    using pos by (simp add: part_block_is_good_def b0_def is_good_part_mode_def)
  obtain w' where w': "rd (opn w) b0 = Ret (0, w', b0\<lparr>pb_cache := stored w\<rparr>)" "ready w'" "stored w' = stored w" "rest w' = rest w"
    using rd_law [OF o(1) good] o(2,3) by (auto simp: b0_def)
  define b1 where "b1 = b0\<lparr>pb_cache := image part_len cs\<rparr>"
  have low: "part_low_read rd (opn w) b0 = Ret (0, w', b1)"
    using w'(1) by (simp add: part_low_read_def part_xor_cache b1_def assms(1)) (simp add: b0_def xored_xored)
  define b2 where "b2 = b1\<lparr>pb_list := cs, pb_count := of_nat (length cs),
      pb_flag := (pb_flag b1 OR PART_CACHED) AND NOT PART_DIRTY\<rparr>"
  have high: "part_high_read alloc past b1 = Ret (0, b2)"
    using high_read_image [of b1 cs alloc past] assms(3,4) by (simp add: b1_def b0_def b2_def)
  have "pb_mode b0 = PART_MODE_NORMAL"
    by (simp add: b0_def)
  then have init: "part_block_init alloc past rd human (opn w) b0 = Ret (0, w', b2)"
    by (simp add: part_block_init_def part_block_init_bynormal_def low high)
  have "part_block_create True (Inr fd) 0 alloc past rd (opn w) PART_MODE_NORMAL part_len 1 1 1 human xr
      = Ret (w', Some b2)"
    using pos new by (simp add: part_block_create_def is_good_part_mode_def init)
  moreover have "part_block_is_good (Some b2)" "pb_size b2 = part_len" "pb_xor b2 = x" "pb_list b2 = cs"
    "pb_count b2 = of_nat (length cs)" "\<not> is_dirty b2"
    using good by (simp_all add: b2_def b1_def b0_def part_block_is_good_def is_dirty_def os_hasflag_def
        PART_DIRTY_def PART_CACHED_def)
  ultimately show ?thesis
    using w'(2-4) by blast
qed

text \<open>What one run leaves in the partition the next run reads.\<close>

lemma persists:
  assumes "ready w" and "block_ok b" and "pb_size b = part_len" and "is_dirty b" and "fits part_len (pb_list b)"
    and "pb_xor b = (if xr \<noteq> 0 then xr else PART_XOR)"
    and "\<forall>c\<in>set (pb_list b). item_clean c \<and> alloc (fst c) (snd c)"
  shows "\<exists>w1 w' b'. part_block_free wr w (Some b) = Ret w1
    \<and> part_block_create True (Inr fd) 0 alloc past rd (opn w1) PART_MODE_NORMAL part_len 1 1 1 human xr = Ret (w', Some b')
    \<and> pb_list b' = pb_list b \<and> block_ok b'"
proof -
  have good: "part_block_is_good (Some b)"
    using assms(2) by (simp add: block_ok_def)
  obtain w1 where w1: "part_block_free wr w (Some b) = Ret w1"
    "stored w1 = xored (pb_xor b) part_len (image part_len (pb_list b))"
    using flush_stores [OF assms(1) good assms(3,4)] assms(3,5) by auto
  obtain w' b' where "part_block_create True (Inr fd) 0 alloc past rd (opn w1) PART_MODE_NORMAL part_len 1 1 1 human xr
      = Ret (w', Some b')" "part_block_is_good (Some b')" "pb_list b' = pb_list b"
      "pb_count b' = of_nat (length (pb_list b))"
    using create_reads [OF w1(2) assms(6,5,7), of fd past human] by blast
  then show ?thesis
    using assms(2) w1(1) by (simp add: block_ok_def)
qed

lemma load_erases:
  assumes "ready w" and "9 < part_len"
  shows "\<exists>w1 b. part_block_create True (Inr fd) 0 alloc past rd w PART_MODE_LOAD part_len 1 1 1 (Inr bs) xr = Ret (w1, Some b)
    \<and> (\<exists>w2 w3 b'. part_block_free wr w1 (Some b) = Ret w2
        \<and> part_block_create True (Inr fd) 0 alloc past rd (opn w2) PART_MODE_NORMAL part_len 1 1 1 human xr = Ret (w3, Some b')
        \<and> pb_list b' = [])"
proof -
  define x where "x = (if xr \<noteq> 0 then xr else PART_XOR)"
  obtain b where b: "part_block_create True (Inr fd) 0 alloc past rd w PART_MODE_LOAD part_len 1 1 1 (Inr bs) xr = Ret (w, Some b)"
    "part_block_is_good (Some b)" "pb_size b = part_len" "pb_list b = []" "is_dirty b" "pb_xor b = x"
    using create_load [OF assms(2), of fd alloc past rd w bs xr] by (auto simp: x_def)
  have f: "fits part_len []"
    using assms(2) by (simp add: fits_def)
  obtain w1 where w1: "part_block_free wr w (Some b) = Ret w1" "stored w1 = xored x part_len (image part_len [])"
    using flush_stores [OF assms(1) b(2,3,5)] b(3,4,6) f by auto
  from create_reads [OF w1(2) x_def f, of alloc fd past human] show ?thesis
    using b(1) w1(1) by auto
qed

end

lemma clear_dirty: "\<not> os_hasflag (f AND NOT PART_DIRTY) PART_DIRTY"
proof -
  have "(f AND NOT x) AND x = 0" for x :: u32
    by (rule bit_word_eqI) (auto simp: bit_and_iff bit_not_iff)
  then show ?thesis
    by (simp add: os_hasflag_def) (simp add: PART_DIRTY_def)
qed

subsection \<open>Properties\<close>

text \<open>C2: a list of clean pairs that fits the block survives the way into the cache and back: after
  \<open>part_high_wirte\<close> a fresh block over the same cache passes the CRC check of \<open>part_high_read\<close> and reads
  exactly the same pairs in the same order, whatever byte lies behind the cache.\<close>

theorem part_cache_roundtrip:
  assumes "fits (pb_size b) (pb_list b)" and "\<forall>c\<in>set (pb_list b). item_clean c"
    and "pb_size b' = pb_size b" and "pb_list b' = []" and "pb_count b' = 0"
    and "pb_cache b' = pb_cache (snd (part_high_wirte b))"
  shows "\<exists>b''. part_high_read (\<lambda>_ _. True) past b' = Ret (0, b'') \<and> pb_list b'' = pb_list b \<and> \<not> is_dirty b''"
proof -
  have "pb_cache b' = image (pb_size b') (pb_list b)"
    using assms(3,6) by (simp add: part_high_wirte_def part_line_wirte_image [OF assms(1)])
  from high_read_image [OF this, of "\<lambda>_ _. True" past] show ?thesis
    using assms clear_dirty by (simp add: is_dirty_def)
qed

text \<open>One pair \<open>a\<close>, \<open>b c\<close> in a block of forty bytes.\<close>

definition sample_block :: "part_item list \<Rightarrow> part_block" where
  "sample_block cs = \<lparr>pb_size = 40, pb_cache_ptr = 1, pb_cache = replicate 40 0, pb_count = of_nat (length cs), pb_list = cs,
     pb_partition = 1, pb_read = 1, pb_write = 1, pb_flag = PART_DIRTY, pb_xor = PART_XOR, pb_mode = PART_MODE_NORMAL,
     pb_lockfd = 3\<rparr>"

lemma sample_pair_clean: "item_clean ([97], [98, 32, 99])"
  by (simp add: item_clean_def name_clean_def value_clean_def is_separator_iff char_is_def blanks_def
      PART_MAX_LINE_def PART_COMMENT_def)

theorem part_cache_roundtrip_witness:
  "\<exists>b''. part_high_read (\<lambda>_ _. True) 10 ((sample_block [])\<lparr>pb_cache := pb_cache (snd (part_high_wirte (sample_block [([97], [98, 32, 99])])))\<rparr>)
     = Ret (0, b'') \<and> pb_list b'' = [([97], [98, 32, 99])]"
  using part_cache_roundtrip [of "sample_block [([97], [98, 32, 99])]"
      "(sample_block [])\<lparr>pb_cache := pb_cache (snd (part_high_wirte (sample_block [([97], [98, 32, 99])])))\<rparr>" 10]
    sample_pair_clean
  by (auto simp: sample_block_def fits_def line_of_def)

text \<open>C7: on a block whose names are distinct, and with memory for every string, every sequence of \<open>part_var_new\<close>,
  \<open>part_var_create\<close>, \<open>part_var_update\<close> and \<open>part_var_delete\<close> returns the codes and leaves the contents of a finite map,
  and \<open>part_var_find\<close> afterwards finds exactly what that map holds. An update of a name that is missing changes nothing
  and returns \<open>-ENOEXIST\<close>, as \<open>__part_var_create\<close> is coded; the comment in \<open>partool.h\<close> says \<open>NULL\<close>, which
  as an \<open>int\<close> would be success.\<close>

theorem part_var_refines_map:
  assumes "block_ok b"
  shows "\<exists>es b'. run_ops var_step b ops = Ret (es, b') \<and> block_ok b'
    \<and> (let (es', m) = map_run (map_of (pb_list b)) ops in es = es' \<and> (\<forall>k. part_var_find (Some b') (Some k) =
        Ret (case m k of None \<Rightarrow> (err ENOEXIST, None) | Some v \<Rightarrow> (0, Some (k, v)))))"
proof -
  obtain es b' where r: "run_ops var_step b ops = Ret (es, b')" "block_ok b'"
    "map_run (map_of (pb_list b)) ops = (es, map_of (pb_list b'))"
    using block.run_law [OF assms] by blast
  moreover have "part_var_find (Some b') (Some k) =
      Ret (case map_of (pb_list b') k of None \<Rightarrow> (err ENOEXIST, None) | Some v \<Rightarrow> (0, Some (k, v)))" for k
    using r(2) by (simp add: part_var_find_def find_item_map_of block_ok_def split: option.split)
  ultimately show ?thesis
    by simp
qed

theorem part_var_refines_map_witness:
  "\<exists>b'. run_ops var_step (sample_block []) [VarNew [1] [2], VarCreate [1] [3], VarUpdate [1] [4], VarDelete [9]]
     = Ret ([0, err EEXIST, 0, err ENOEXIST], b') \<and> part_var_find (Some b') (Some [1]) = Ret (0, Some ([1], [4]))"
proof -
  have "block_ok (sample_block [])"
    by (simp add: block_ok_def sample_block_def part_block_is_good_def is_good_part_mode_def)
  from part_var_refines_map [OF this, of "[VarNew [1] [2], VarCreate [1] [3], VarUpdate [1] [4], VarDelete [9]]"]
  show ?thesis
    by (auto simp: sample_block_def)
qed

text \<open>\<open>part_var_delete_byname_prefix\<close> on a good block succeeds and removes exactly the variables whose
  name starts with the prefix; the others keep their order, duplicates included.\<close>

theorem part_var_delete_byname_prefix_exact:
  assumes "part_block_is_good (Some b)" and "pb_count b = of_nat (length (pb_list b))"
  shows "\<exists>b'. part_var_delete_byname_prefix (Some b) (Some p) = Ret (0, b')
    \<and> pb_list b' = filter (\<lambda>c. \<not> has_prefix p (fst c)) (pb_list b) \<and> pb_count b' = of_nat (length (pb_list b'))"
proof -
  have "mv2_result 0 = 0"
    using mv2_OK_go(2) by (simp add: mv2_OK_def)
  then show ?thesis
    using prefix_delete_loop [of b "[]" "pb_list b" p 0] assms
    by (auto simp: part_var_delete_byname_prefix_def part_var_foreach_byname_prefix_def part_var_foreach_def)
qed

theorem part_var_delete_byname_prefix_exact_witness:
  "\<exists>b'. part_var_delete_byname_prefix (Some (sample_block [([1, 2], [7]), ([3], [8]), ([1], [9])])) (Some [1]) = Ret (0, b')
     \<and> pb_list b' = [([3], [8])]"
  using part_var_delete_byname_prefix_exact [of "sample_block [([1, 2], [7]), ([3], [8]), ([1], [9])]" "[1]"]
  by (auto simp: sample_block_def part_block_is_good_def is_good_part_mode_def has_prefix_def)

end
