(* ===== verification/Part_App.thy ===== *)
theory Part_App
  imports Part_Store Os_Cmd
begin

text \<open>
  The \<open>partool\<close> program (\<open>autelan-app/src/partool/partool.c\<close>, the operating-system build): it copies a
  flash partition into a temporary file, opens a partition block on that file, runs one command and
  flushes the block back. The \<open>app_world\<close> record holds the program's static variables, the temporary
  file, the partitions and the output. What other programs and the C library do is in \<open>app_env\<close>:
  the copy command, the \<open>mtd\<close> command, the allocations, the lock file, the human-readable file.
\<close>

subsection \<open>The code\<close>

datatype part_out = OutValue "u8 list" | OutPair "u8 list" "u8 list" | OutCrc u32 u32
  | OutNotExist "u8 list" | OutExist "u8 list" | OutError int | OutNameHelp | OutHelp

record app_env =
  e_cp :: "u8 list option \<Rightarrow> u8 list option"
  e_mtd_write :: "u8 list \<Rightarrow> u8 list option \<Rightarrow> u8 list option"
  e_zalloc_tmp :: bool
  e_zalloc_block :: bool
  e_alloc :: "u8 list \<Rightarrow> u8 list \<Rightarrow> bool"
  e_past :: u8
  e_open :: "int + int"
  e_flock :: int
  e_errno :: int
  e_human :: "u8 list \<Rightarrow> int + u8 list"

record app_world =
  aw_size :: nat
  aw_blk :: "part_block option"
  aw_tmp :: "u8 list option"
  aw_tmpfile :: "u8 list option"
  aw_mtdfile :: "u8 list"
  aw_humfile :: "u8 list"
  aw_mtd :: "u8 list \<Rightarrow> u8 list option"
  aw_out :: "part_out list"

definition SIZE_OSENV :: nat where "SIZE_OSENV = 65536"
definition SIZE_PRODUCT :: nat where "SIZE_PRODUCT = 65536"
definition NAME_OSENV :: "u8 list" where "NAME_OSENV = asc ''mtd2''"
definition NAME_PRODUCT :: "u8 list" where "NAME_PRODUCT = asc ''mtd7''"
definition ADDR_BAD :: u32 where "ADDR_BAD = 0xffffffff"

definition part_info :: "(u8 list \<times> u32 \<times> nat) list" where
  "part_info = [(NAME_OSENV, 0x9f050000, SIZE_OSENV), (NAME_PRODUCT, 0x9ffe0000, SIZE_PRODUCT)]"

definition part_begin :: "u8 list \<Rightarrow> app_world \<Rightarrow> u32 \<times> app_world" where
  "part_begin p w = (case List.find (\<lambda>i. p = fst i) part_info of
      Some (_, a, sz) \<Rightarrow> (a, w\<lparr>aw_size := sz\<rparr>)
    | None \<Rightarrow> (ADDR_BAD, w))"

definition print_out :: "part_out \<Rightarrow> app_world \<Rightarrow> app_world" where
  "print_out x w = w\<lparr>aw_out := aw_out w @ [x]\<rparr>"

text \<open>The names of the temporary and the device file are fixed by the partition; \<open>os_sfsize\<close> of a missing
  file is negative.\<close>

definition tmp_2_mtd :: "app_env \<Rightarrow> app_world \<Rightarrow> app_world" where
  "tmp_2_mtd env w = (case aw_tmpfile w of
      Some bs \<Rightarrow> w\<lparr>aw_mtd := (aw_mtd w)(aw_mtdfile w := e_mtd_write env bs (aw_mtd w (aw_mtdfile w))), aw_tmp := None\<rparr>
    | None \<Rightarrow> w\<lparr>aw_tmp := None\<rparr>)"

definition mtd_2_tmp :: "app_env \<Rightarrow> u8 list \<Rightarrow> app_world \<Rightarrow> int \<times> app_world" where
  "mtd_2_tmp env mtd w =
     (let w = w\<lparr>aw_mtdfile := mtd\<rparr>;
          w = w\<lparr>aw_tmpfile := e_cp env (aw_mtd w (aw_mtdfile w))\<rparr>
      in case aw_tmpfile w of
           None \<Rightarrow> (err EINVAL, w)
         | Some bs \<Rightarrow>
            if length bs \<noteq> aw_size w then (err EINVAL, w)
            else if \<not> e_zalloc_tmp env then (err ENOMEM, w\<lparr>aw_tmp := None\<rparr>)
            else (0, w\<lparr>aw_tmp := Some (replicate (aw_size w) 0)\<rparr>))"

definition part_clean :: "app_world \<Rightarrow> app_world" where
  "part_clean w = w\<lparr>aw_tmpfile := None\<rparr>"

definition part_init :: "app_env \<Rightarrow> u8 list \<Rightarrow> app_world \<Rightarrow> int \<times> app_world" where
  "part_init env p w =
     (let (a, w) = part_begin p w
      in if ADDR_BAD = a then (err EFORMAT, print_out OutNameHelp w) else mtd_2_tmp env p w)"

text \<open>\<open>part_read\<close> and \<open>part_write\<close> return the positive \<open>errno\<close> when the file fails them.\<close>

definition part_read :: "app_env \<Rightarrow> app_world \<Rightarrow> int \<times> app_world" where
  "part_read env w = (case aw_tmpfile w of
      None \<Rightarrow> (e_errno env, w)
    | Some bs \<Rightarrow> if length bs < aw_size w then (e_errno env, w)
                 else (0, w\<lparr>aw_tmp := Some (take (aw_size w) bs)\<rparr>))"

definition part_write :: "app_env \<Rightarrow> app_world \<Rightarrow> int \<times> app_world" where
  "part_write env w = (case aw_tmpfile w of
      None \<Rightarrow> (e_errno env, w)
    | Some bs \<Rightarrow> (case aw_tmp w of
         None \<Rightarrow> (e_errno env, w)
       | Some t \<Rightarrow> (0, tmp_2_mtd env (w\<lparr>aw_tmpfile := Some (t @ drop (aw_size w) bs)\<rparr>))))"

definition partool_read :: "app_env \<Rightarrow> app_world part_io" where
  "partool_read env w block =
     (let (e, w) = part_read env w
      in if e < 0 then Ret (e, w, block)
         else obind (part_block_write (Some block) 0 (aw_tmp w) (word_of_nat (aw_size w))) (\<lambda>(e, block).
                Ret (if e < 0 then e else 0, w, block)))"

definition partool_write :: "app_env \<Rightarrow> app_world part_io" where
  "partool_write env w block =
     obind (part_block_read (Some block) 0 (aw_tmp w = None) (word_of_nat (aw_size w))) (\<lambda>(e, bs).
       if e < 0 then Ret (e, w, block)
       else let (e, w) = part_write env (w\<lparr>aw_tmp := Some bs\<rparr>)
            in Ret (if e < 0 then e else 0, w, block))"

definition partool_init :: "app_env \<Rightarrow> part_mode \<Rightarrow> u8 list list \<Rightarrow> app_world \<Rightarrow> (int \<times> app_world) outcome" where
  "partool_init env mode argv w =
     (let (e, w) = part_init env (argv ! 2) w
      in if e < 0 then Ret (e, w)
         else obind (part_block_create (e_zalloc_block env) (e_open env) (e_flock env) (e_alloc env) (e_past env)
                       (partool_read env) w mode (aw_size w) 1 1 1 (e_human env (aw_humfile w)) 0) (\<lambda>(w, bo).
                let w = w\<lparr>aw_blk := bo\<rparr>
                in if bo = None then Ret (err EINVAL, w) else Ret (0, w)))"

definition partool_clean :: "app_env \<Rightarrow> app_world \<Rightarrow> app_world outcome" where
  "partool_clean env w = obind (part_block_free (partool_write env) w (aw_blk w)) (\<lambda>w.
     Ret (part_clean (w\<lparr>aw_blk := None\<rparr>)))"

definition show_cursor :: "part_item \<Rightarrow> bool \<Rightarrow> part_out" where
  "show_cursor c simple = (if simple then OutValue (snd c) else OutPair (fst c) (snd c))"

definition partool_show_cb :: "part_out list part_foreach" where
  "partool_show_cb block c d = (mv2_OK, block, d @ [show_cursor c False])"

definition part_error :: "int \<Rightarrow> u8 list \<Rightarrow> app_world \<Rightarrow> int \<times> app_world" where
  "part_error e name w =
     (e, print_out (if e = err ENOEXIST then OutNotExist name else if e = err EEXIST then OutExist name else OutError e) w)"

text \<open>A command that opens the block in a mode, reports the error or goes on.\<close>

definition with_block :: "app_env \<Rightarrow> part_mode \<Rightarrow> u8 list list \<Rightarrow> u8 list \<Rightarrow> app_world
    \<Rightarrow> (app_world \<Rightarrow> (int \<times> app_world) outcome) \<Rightarrow> (int \<times> app_world) outcome" where
  "with_block env mode argv name w k =
     obind (partool_init env mode argv w) (\<lambda>(e, w). if e < 0 then Ret (part_error e name w) else k w)"

definition partool_crc :: "app_env \<Rightarrow> u8 list list \<Rightarrow> app_world \<Rightarrow> (int \<times> app_world) outcome" where
  "partool_crc env argv w = obind (partool_init env PART_MODE_CRC argv w) (\<lambda>(e, w).
     if e < 0 \<and> \<not> part_block_is_good (aw_blk w) then Ret (e, w)
     else obind (part_block_crc_get (aw_blk w)) (\<lambda>(_, crc_part, crc_calc).
            if e < 0 then Ret (part_error e [] w) else Ret (0, print_out (OutCrc crc_part crc_calc) w)))"

definition partool_empty :: "app_env \<Rightarrow> u8 list list \<Rightarrow> app_world \<Rightarrow> (int \<times> app_world) outcome" where
  "partool_empty env argv w = with_block env PART_MODE_EMPTY argv [] w (\<lambda>w. Ret (0, w))"

definition partool_show_all :: "app_env \<Rightarrow> u8 list list \<Rightarrow> app_world \<Rightarrow> (int \<times> app_world) outcome" where
  "partool_show_all env argv w = with_block env PART_MODE_NORMAL argv [] w (\<lambda>w.
     obind (part_var_foreach partool_show_cb (aw_blk w) []) (\<lambda>(e, block, out).
       let w = w\<lparr>aw_blk := Some block, aw_out := aw_out w @ out\<rparr>
       in if e < 0 then Ret (part_error e [] w) else Ret (0, w)))"

definition partool_show_byname :: "app_env \<Rightarrow> u8 list list \<Rightarrow> app_world \<Rightarrow> (int \<times> app_world) outcome" where
  "partool_show_byname env argv w = with_block env PART_MODE_NORMAL argv (argv ! 4) w (\<lambda>w.
     obind (part_var_find (aw_blk w) (Some (argv ! 4))) (\<lambda>(e, c).
       if e < 0 then Ret (part_error e (argv ! 4) w) else Ret (0, print_out (show_cursor (the c) True) w)))"

definition partool_var :: "app_env \<Rightarrow> u8 list list \<Rightarrow> u8 list \<Rightarrow> app_world
    \<Rightarrow> (part_block option \<Rightarrow> (int \<times> part_block) outcome) \<Rightarrow> (int \<times> app_world) outcome" where
  "partool_var env argv name w f = with_block env PART_MODE_NORMAL argv name w (\<lambda>w.
     obind (f (aw_blk w)) (\<lambda>(e, block).
       let w = w\<lparr>aw_blk := Some block\<rparr> in if e < 0 then Ret (part_error e name w) else Ret (0, w)))"

definition partool_new :: "app_env \<Rightarrow> u8 list list \<Rightarrow> app_world \<Rightarrow> (int \<times> app_world) outcome" where
  "partool_new env argv w =
     partool_var env argv (argv ! 4) w (\<lambda>bo. part_var_new (e_alloc env) bo (Some (argv ! 4)) (Some (argv ! 5)))"

definition partool_delete :: "app_env \<Rightarrow> u8 list list \<Rightarrow> app_world \<Rightarrow> (int \<times> app_world) outcome" where
  "partool_delete env argv w = partool_var env argv (argv ! 4) w (\<lambda>bo. part_var_delete bo (Some (argv ! 4)))"

definition partool_load :: "app_env \<Rightarrow> u8 list list \<Rightarrow> app_world \<Rightarrow> (int \<times> app_world) outcome" where
  "partool_load env argv w =
     (let w = w\<lparr>aw_humfile := argv ! 4\<rparr> in with_block env PART_MODE_LOAD argv [] w (\<lambda>w. Ret (0, w)))"

definition partool_show_byprefix :: "app_env \<Rightarrow> u8 list list \<Rightarrow> app_world \<Rightarrow> (int \<times> app_world) outcome" where
  "partool_show_byprefix env argv w = with_block env PART_MODE_NORMAL argv (argv ! 5) w (\<lambda>w.
     obind (part_var_foreach_byname_prefix partool_show_cb (aw_blk w) (Some (argv ! 5)) []) (\<lambda>(e, block, out).
       let w = w\<lparr>aw_blk := Some block, aw_out := aw_out w @ out\<rparr>
       in if e < 0 then Ret (part_error e (argv ! 5) w) else Ret (0, w)))"

definition partool_delete_byprefix :: "app_env \<Rightarrow> u8 list list \<Rightarrow> app_world \<Rightarrow> (int \<times> app_world) outcome" where
  "partool_delete_byprefix env argv w =
     partool_var env argv (argv ! 5) w (\<lambda>bo. part_var_delete_byname_prefix bo (Some (argv ! 5)))"

definition partool_create :: "app_env \<Rightarrow> u8 list list \<Rightarrow> app_world \<Rightarrow> (int \<times> app_world) outcome" where
  "partool_create env argv w =
     partool_var env argv (argv ! 4) w (\<lambda>bo. part_var_create (e_alloc env) bo (Some (argv ! 4)) (Some (argv ! 5)))"

definition partool_update :: "app_env \<Rightarrow> u8 list list \<Rightarrow> app_world \<Rightarrow> (int \<times> app_world) outcome" where
  "partool_update env argv w =
     partool_var env argv (argv ! 4) w (\<lambda>bo. part_var_update (e_alloc env) bo (Some (argv ! 4)) (Some (argv ! 5)))"

type_synonym partool_func = "app_env \<Rightarrow> u8 list list \<Rightarrow> app_world \<Rightarrow> (int \<times> app_world) outcome"

definition partool_commands :: "partool_func command_item list" where
  "partool_commands =
    [command [asc ''-part'', asc ''partname'', asc ''-crc''] partool_crc,
     command [asc ''-part'', asc ''partname'', asc ''-empty''] partool_empty,
     command [asc ''-part'', asc ''partname'', asc ''-show''] partool_show_all,
     command [asc ''-part'', asc ''partname'', asc ''-show'', asc ''name''] partool_show_byname,
     command [asc ''-part'', asc ''partname'', asc ''-new'', asc ''name'', asc ''value''] partool_new,
     command [asc ''-part'', asc ''partname'', asc ''-delete'', asc ''name''] partool_delete,
     command [asc ''-part'', asc ''partname'', asc ''-load'', asc ''file''] partool_load,
     command [asc ''-part'', asc ''partname'', asc ''-show'', asc ''-prefix'', asc ''name''] partool_show_byprefix,
     command [asc ''-part'', asc ''partname'', asc ''-delete'', asc ''-prefix'', asc ''name''] partool_delete_byprefix,
     command [asc ''-part'', asc ''partname'', asc ''-create'', asc ''name'', asc ''value''] partool_create,
     command [asc ''-part'', asc ''partname'', asc ''-update'', asc ''name'', asc ''value''] partool_update]"

definition partool_main :: "app_env \<Rightarrow> u8 list list \<Rightarrow> app_world \<Rightarrow> (int \<times> app_world) outcome" where
  "partool_main env argv w =
     obind (case os_do_command argv (COMMAND_CTRL_INITER partool_commands) of
              Run f \<Rightarrow> f env argv w
            | ShowHelp _ \<Rightarrow> Ret (err EFORMAT, print_out OutHelp w)) (\<lambda>(e, w).
       obind (partool_clean env w) (\<lambda>w. Ret (e, w)))"

subsection \<open>The callbacks are a flash driver\<close>

text \<open>
  The commands do what their manuals say: \<open>cp\<close> copies the file, \<open>mtd write\<close> stores the file in the
  partition; and the buffer can be allocated.
\<close>

definition std_env :: "app_env \<Rightarrow> app_env" where
  "std_env env = env\<lparr>e_cp := (\<lambda>x. x), e_mtd_write := (\<lambda>bs _. Some bs), e_zalloc_tmp := True\<rparr>"

definition pname :: "bool \<Rightarrow> u8 list" where
  "pname osenv = (if osenv then NAME_OSENV else NAME_PRODUCT)"

definition app_stored :: "bool \<Rightarrow> app_world \<Rightarrow> u8 list" where
  "app_stored b w = (case aw_mtd w (pname b) of Some bs \<Rightarrow> bs | None \<Rightarrow> [])"

definition app_ready :: "bool \<Rightarrow> app_world \<Rightarrow> bool" where
  "app_ready b w \<longleftrightarrow> aw_size w = SIZE_OSENV \<and> aw_mtdfile w = pname b \<and> length (app_stored b w) = SIZE_OSENV
     \<and> aw_tmpfile w = Some (app_stored b w) \<and> aw_tmp w \<noteq> None"

definition app_open :: "app_env \<Rightarrow> bool \<Rightarrow> app_world \<Rightarrow> app_world" where
  "app_open env b w = snd (part_init env (pname b) w)"

lemma names_differ: "NAME_OSENV \<noteq> NAME_PRODUCT"
  by (simp add: NAME_OSENV_def NAME_PRODUCT_def asc_def)

lemma size_words: "unat (word_of_nat SIZE_OSENV :: u32) = SIZE_OSENV" "(word_of_nat SIZE_OSENV :: u32) \<noteq> 0"
  "sint (word_of_nat SIZE_OSENV :: u32) = int SIZE_OSENV" "0 < SIZE_OSENV"
  by (simp_all add: SIZE_OSENV_def)

lemma part_init_pname:
  assumes "length (app_stored b w) = SIZE_OSENV"
  shows "part_init (std_env env) (pname b) w = (0, w\<lparr>aw_size := SIZE_OSENV, aw_mtdfile := pname b,
    aw_tmpfile := Some (app_stored b w), aw_tmp := Some (replicate SIZE_OSENV 0)\<rparr>)"
proof -
  obtain bs where bs: "aw_mtd w (pname b) = Some bs" "app_stored b w = bs"
    using assms size_words(4) by (cases "aw_mtd w (pname b)") (simp_all add: app_stored_def)
  have "\<exists>a. part_begin (pname b) w = (a, w\<lparr>aw_size := SIZE_OSENV\<rparr>) \<and> ADDR_BAD \<noteq> a"
    using names_differ by (cases b)
      (simp_all add: part_begin_def pname_def part_info_def SIZE_OSENV_def SIZE_PRODUCT_def ADDR_BAD_def)
  then show ?thesis
    using bs assms by (auto simp: part_init_def mtd_2_tmp_def std_env_def Let_def)
qed

lemma rw_check_whole:
  "part_block_is_good (Some b) \<Longrightarrow> pb_size b = SIZE_OSENV \<Longrightarrow> part_var_rw_check (Some b) 0 False (word_of_nat SIZE_OSENV) = Ret 0"
  using size_words(2) by (simp add: part_var_rw_check_def word_le_0_iff)

lemma partool_read_ready:
  assumes "app_ready pb w" and "part_block_is_good (Some b)" and "pb_size b = SIZE_OSENV"
    and "length (pb_cache b) = pb_size b"
  shows "partool_read env w b = Ret (0, w\<lparr>aw_tmp := Some (app_stored pb w)\<rparr>, b\<lparr>pb_cache := app_stored pb w\<rparr>)"
proof -
  have r: "aw_size w = SIZE_OSENV" "aw_tmpfile w = Some (app_stored pb w)" "length (app_stored pb w) = SIZE_OSENV"
    using assms(1) by (simp_all add: app_ready_def)
  then have "part_read env w = (0, w\<lparr>aw_tmp := Some (app_stored pb w)\<rparr>)"
    by (simp add: part_read_def)
  moreover have "part_block_write (Some b) 0 (Some (app_stored pb w)) (word_of_nat SIZE_OSENV)
      = Ret (int SIZE_OSENV, b\<lparr>pb_cache := app_stored pb w\<rparr>)"
    using assms(2-4) r(3) by (simp add: part_block_write_def rw_check_whole size_words overwrite_def)
  ultimately show ?thesis
    using r(1) by (simp add: partool_read_def)
qed

lemma partool_write_ready:
  assumes "app_ready pb w" and "part_block_is_good (Some b)" and "pb_size b = SIZE_OSENV"
    and "length (pb_cache b) = pb_size b"
  shows "\<exists>w'. partool_write (std_env env) w b = Ret (0, w', b) \<and> aw_mtd w' = (aw_mtd w)(pname pb := Some (pb_cache b))
    \<and> aw_out w' = aw_out w"
proof -
  have r: "aw_size w = SIZE_OSENV" "aw_tmpfile w = Some (app_stored pb w)" "length (app_stored pb w) = SIZE_OSENV"
    "aw_tmp w \<noteq> None" "aw_mtdfile w = pname pb"
    using assms(1) by (simp_all add: app_ready_def)
  have "part_block_read (Some b) 0 False (word_of_nat SIZE_OSENV) = Ret (int SIZE_OSENV, pb_cache b)"
    using assms(2-4) by (simp add: part_block_read_def rw_check_whole size_words)
  moreover obtain t where "aw_tmp w = Some t"
    using r(4) by auto
  ultimately show ?thesis
    using r by (simp add: partool_write_def part_write_def tmp_2_mtd_def std_env_def)
qed

text \<open>What neither callback touches: the output and the other partitions.\<close>

definition app_rest :: "bool \<Rightarrow> app_world \<Rightarrow> part_out list \<times> (u8 list \<Rightarrow> u8 list option)" where
  "app_rest b w = (aw_out w, (aw_mtd w)(pname b := None))"

interpretation partool: flash_driver "partool_read (std_env env)" "partool_write (std_env env)"
  "app_open (std_env env) b" "app_stored b" "app_ready b" "app_rest b" SIZE_OSENV for env b
proof
  fix w
  assume "length (app_stored b w) = SIZE_OSENV"
  then show "app_ready b (app_open (std_env env) b w) \<and> app_stored b (app_open (std_env env) b w) = app_stored b w
      \<and> app_rest b (app_open (std_env env) b w) = app_rest b w"
    by (simp add: app_open_def part_init_pname app_ready_def app_stored_def app_rest_def)
next
  fix w blk
  assume r: "app_ready b w" "part_block_is_good (Some blk)" "pb_size blk = SIZE_OSENV" "length (pb_cache blk) = pb_size blk"
  show "\<exists>w'. partool_read (std_env env) w blk = Ret (0, w', blk\<lparr>pb_cache := app_stored b w\<rparr>) \<and>
      app_ready b w' \<and> app_stored b w' = app_stored b w \<and> app_rest b w' = app_rest b w"
    using r(1) by (simp add: partool_read_ready [OF r] app_ready_def app_stored_def app_rest_def)
  show "\<exists>w'. partool_write (std_env env) w blk = Ret (0, w', blk) \<and> app_stored b w' = pb_cache blk
      \<and> app_rest b w' = app_rest b w"
    using partool_write_ready [OF r, of env] by (auto simp: app_stored_def app_rest_def)
qed (simp add: app_ready_def)

subsection \<open>Runs of the program\<close>

text \<open>Documented behaviour of the environment, with allocations and locking that succeed.\<close>

definition env_std :: "app_env \<Rightarrow> bool" where
  "env_std env \<longleftrightarrow> e_cp env = (\<lambda>x. x) \<and> e_mtd_write env = (\<lambda>bs _. Some bs) \<and> e_zalloc_tmp env \<and> e_zalloc_block env
     \<and> (\<exists>fd. e_open env = Inr fd) \<and> e_flock env = 0 \<and> e_alloc env = (\<lambda>_ _. True)"

text \<open>The partition holds a list of pairs: it is their image under the default key.\<close>

definition holds :: "bool \<Rightarrow> app_world \<Rightarrow> part_item list \<Rightarrow> bool" where
  "holds b w cs \<longleftrightarrow> app_stored b w = xored PART_XOR SIZE_OSENV (image SIZE_OSENV cs) \<and> fits SIZE_OSENV cs
     \<and> (\<forall>c\<in>set cs. item_clean c) \<and> distinct (map fst cs)"

lemma env_std_fix: "env_std env \<Longrightarrow> std_env env = env"
  by (simp add: env_std_def std_env_def)

lemma PART_XOR_nonzero: "PART_XOR \<noteq> 0"
  by (simp add: PART_XOR_def)

lemma partool_init_normal:
  assumes "env_std env" and "holds b w cs" and "argv ! 2 = pname b"
  shows "\<exists>w1 blk. partool_init env PART_MODE_NORMAL argv w = Ret (0, w1) \<and> aw_blk w1 = Some blk \<and> app_ready b w1
    \<and> app_rest b w1 = app_rest b w \<and> app_stored b w1 = app_stored b w \<and> block_ok blk \<and> pb_size blk = SIZE_OSENV
    \<and> pb_xor blk = PART_XOR \<and> pb_list blk = cs \<and> \<not> is_dirty blk"
proof -
  have h: "app_stored b w = xored PART_XOR SIZE_OSENV (image SIZE_OSENV cs)" "fits SIZE_OSENV cs"
    "\<forall>c\<in>set cs. item_clean c" "distinct (map fst cs)"
    using assms(2) by (simp_all add: holds_def)
  obtain fd where env: "std_env env = env" "e_zalloc_block env" "e_open env = Inr fd" "e_flock env = 0"
    "e_alloc env = (\<lambda>_ _. True)"
    using assms(1) env_std_fix by (auto simp: env_std_def)
  have len: "length (app_stored b w) = SIZE_OSENV"
    using h(1,2) by (simp add: length_image)
  define w0 where "w0 = app_open env b w"
  have pi: "part_init env (argv ! 2) w = (0, w0)" and sz: "aw_size w0 = SIZE_OSENV"
    using part_init_pname [OF len, of env] env(1) assms(3) by (simp_all add: w0_def app_open_def)
  have k: "PART_XOR = (if (0 :: u32) \<noteq> 0 then 0 else PART_XOR)"
    by simp
  have "\<exists>w' bl. part_block_create True (Inr fd) 0 (\<lambda>_ _. True) (e_past env) (partool_read env) w0 PART_MODE_NORMAL SIZE_OSENV 1 1 1
         (e_human env (aw_humfile w0)) 0 = Ret (w', Some bl)
    \<and> app_ready b w' \<and> app_stored b w' = app_stored b w \<and> app_rest b w' = app_rest b w \<and> part_block_is_good (Some bl)
    \<and> pb_size bl = SIZE_OSENV \<and> pb_xor bl = PART_XOR \<and> pb_list bl = cs \<and> pb_count bl = of_nat (length cs) \<and> \<not> is_dirty bl"
    using partool.create_reads [OF h(1) k h(2), of "\<lambda>_ _. True" fd "e_past env" env "e_human env (aw_humfile w0)"]
      h(3) env(1) by (simp add: w0_def)
  then obtain w' bl where c: "part_block_create True (Inr fd) 0 (\<lambda>_ _. True) (e_past env) (partool_read env) w0 PART_MODE_NORMAL SIZE_OSENV 1 1 1
         (e_human env (aw_humfile w0)) 0 = Ret (w', Some bl)"
    "app_ready b w'" "app_stored b w' = app_stored b w" "app_rest b w' = app_rest b w" "part_block_is_good (Some bl)"
    "pb_size bl = SIZE_OSENV" "pb_xor bl = PART_XOR" "pb_list bl = cs" "pb_count bl = of_nat (length cs)" "\<not> is_dirty bl"
    by blast
  define w1 where "w1 = w'\<lparr>aw_blk := Some bl\<rparr>"
  have "partool_init env PART_MODE_NORMAL argv w = Ret (0, w1)"
    using c(1) env by (simp add: partool_init_def pi sz w1_def)
  moreover have "app_ready b w1" "app_rest b w1 = app_rest b w" "app_stored b w1 = app_stored b w" "aw_blk w1 = Some bl"
    using c(2-4) by (simp_all add: w1_def app_ready_def app_rest_def app_stored_def)
  moreover have "block_ok bl"
    using c h(4) by (simp add: block_ok_def)
  ultimately show ?thesis
    using c by blast
qed

lemma app_rest_clean: "app_rest b (part_clean (w\<lparr>aw_blk := x\<rparr>)) = app_rest b w"
  "app_stored b (part_clean (w\<lparr>aw_blk := x\<rparr>)) = app_stored b w" "aw_blk (part_clean (w\<lparr>aw_blk := x\<rparr>)) = x"
  by (simp_all add: app_rest_def app_stored_def part_clean_def)

text \<open>Cleaning up after a command that left the block dirty stores its list; otherwise nothing changes.\<close>

lemma partool_clean_dirty:
  assumes "env_std env" and "aw_blk w = Some blk" and "app_ready b w" and "block_ok blk" and "pb_size blk = SIZE_OSENV"
    and "pb_xor blk = PART_XOR" and "is_dirty blk" and "fits SIZE_OSENV (pb_list blk)" and "\<forall>c\<in>set (pb_list blk). item_clean c"
  shows "\<exists>w'. partool_clean env w = Ret w' \<and> holds b w' (pb_list blk) \<and> app_rest b w' = app_rest b w \<and> aw_blk w' = None"
proof -
  have good: "part_block_is_good (Some blk)" and dist: "distinct (map fst (pb_list blk))"
    using assms(4) by (simp_all add: block_ok_def)
  obtain w1 where w1: "part_block_free (partool_write env) w (Some blk) = Ret w1"
    "app_stored b w1 = xored PART_XOR SIZE_OSENV (image SIZE_OSENV (pb_list blk))" "app_rest b w1 = app_rest b w"
    using partool.flush_stores [OF assms(3) good assms(5,7), of env] assms(5,6,8) env_std_fix [OF assms(1)] by auto
  then show ?thesis
    using assms(2,8,9) dist by (simp add: partool_clean_def holds_def app_rest_clean)
qed

lemma partool_clean_unchanged:
  assumes "aw_blk w = Some blk" and "\<not> is_dirty blk"
  shows "partool_clean env w = Ret (part_clean (w\<lparr>aw_blk := None\<rparr>))"
  using assms by (simp add: partool_clean_def part_block_free_def part_block_flush_def)

lemma holds_cong: "app_stored b w' = app_stored b w \<Longrightarrow> holds b w' cs = holds b w cs"
  by (simp add: holds_def)

text \<open>A command that changes the list of the block, from start to end.\<close>

lemma partool_var_run:
  assumes "env_std env" and "holds b w cs" and "argv ! 2 = pname b"
    and f: "\<And>blk. block_ok blk \<Longrightarrow> pb_list blk = cs \<Longrightarrow> \<exists>blk'. f (Some blk) = Ret (0, blk') \<and> block_ok blk' \<and> is_dirty blk'
          \<and> pb_size blk' = pb_size blk \<and> pb_xor blk' = pb_xor blk \<and> pb_list blk' = cs'"
    and "fits SIZE_OSENV cs'" and "\<forall>c\<in>set cs'. item_clean c"
  shows "\<exists>w'. obind (partool_var env argv name w f) (\<lambda>(e, w). obind (partool_clean env w) (\<lambda>w. Ret (e, w))) = Ret (0, w')
    \<and> holds b w' cs' \<and> app_rest b w' = app_rest b w \<and> aw_blk w' = None"
proof -
  obtain w1 blk where w1: "partool_init env PART_MODE_NORMAL argv w = Ret (0, w1)" "aw_blk w1 = Some blk" "app_ready b w1"
    "app_rest b w1 = app_rest b w" "block_ok blk" "pb_size blk = SIZE_OSENV" "pb_xor blk = PART_XOR" "pb_list blk = cs"
    using partool_init_normal [OF assms(1-3)] by blast
  obtain blk' where blk': "f (Some blk) = Ret (0, blk')" "block_ok blk'" "is_dirty blk'" "pb_size blk' = SIZE_OSENV"
    "pb_xor blk' = PART_XOR" "pb_list blk' = cs'"
    using f [OF w1(5,8)] w1(6,7) by auto
  define w2 where "w2 = w1\<lparr>aw_blk := Some blk'\<rparr>"
  have "app_ready b w2" "app_rest b w2 = app_rest b w" "aw_blk w2 = Some blk'"
    using w1(3,4) by (simp_all add: w2_def app_ready_def app_rest_def app_stored_def)
  then obtain w' where "partool_clean env w2 = Ret w'" "holds b w' cs'" "app_rest b w' = app_rest b w" "aw_blk w' = None"
    using partool_clean_dirty [OF assms(1), of w2 blk' b] blk' assms(5,6) by auto
  moreover have "partool_var env argv name w f = Ret (0, w2)"
    using w1(1,2) blk'(1) by (simp add: partool_var_def with_block_def w2_def)
  ultimately show ?thesis
    by simp
qed

text \<open>The list after \<open>-new\<close>.\<close>

definition put_item :: "u8 list \<Rightarrow> u8 list \<Rightarrow> part_item list \<Rightarrow> part_item list" where
  "put_item k v cs = (if map_of cs k = None then cs @ [(k, v)] else replace_first k (k, v) cs)"

lemma os_hasflag_or: "os_hasflag (f OR x) (x :: u32)"
  unfolding os_hasflag_def by (rule bit_word_eqI) (auto simp: bit_and_iff bit_or_iff)

lemma part_var_new_block:
  assumes "block_ok blk"
  shows "\<exists>blk'. part_var_new (\<lambda>_ _. True) (Some blk) (Some k) (Some v) = Ret (0, blk') \<and> block_ok blk' \<and> is_dirty blk'
    \<and> pb_size blk' = pb_size blk \<and> pb_xor blk' = pb_xor blk \<and> pb_list blk' = put_item k v (pb_list blk)"
proof -
  have good: "part_block_is_good (Some blk)"
    using assms by (simp add: block_ok_def)
  have d: "is_dirty (b\<lparr>pb_flag := f OR PART_DIRTY, pb_list := l\<rparr>)" "is_dirty (b\<lparr>pb_flag := f OR PART_DIRTY, pb_list := l, pb_count := c\<rparr>)" for b :: part_block and f l c
    by (simp_all add: is_dirty_def os_hasflag_or)
  show ?thesis
  proof (cases "map_of (pb_list blk) k")
    case None
    then show ?thesis
      using good block_ok_append [OF assms None] d
      by (simp add: part_var_new_def part_var_create_flag_def find_item_map_of part_item_new_def part_item_insert_def put_item_def Let_def)
  next
    case (Some u)
    then show ?thesis
      using good block_ok_replace [OF assms] d
      by (simp add: part_var_new_def part_var_create_flag_def find_item_map_of put_item_def Let_def)
  qed
qed

subsection \<open>Dispatch\<close>

lemma partool_table_short: "\<forall>cmd\<in>set partool_commands. length (ci_list cmd) \<le> COMMAND_COUNT"
  by (simp add: partool_commands_def command_def COMMAND_COUNT_def)

lemmas partool_dispatch = os_do_command_table [OF _ partool_table_short]
lemmas partool_table = partool_commands_def command_def asc_def

lemma run_new: "os_do_command [prog, asc ''-part'', p, asc ''-new'', k, v] (COMMAND_CTRL_INITER partool_commands) = Run partool_new"
  by (subst partool_dispatch) (simp_all add: partool_table)

lemma run_show: "os_do_command [prog, asc ''-part'', p, asc ''-show'', k] (COMMAND_CTRL_INITER partool_commands) = Run partool_show_byname"
  by (subst partool_dispatch) (simp_all add: partool_table)

lemma run_delete: "os_do_command [prog, asc ''-part'', p, asc ''-delete'', k] (COMMAND_CTRL_INITER partool_commands) = Run partool_delete"
  by (subst partool_dispatch) (simp_all add: partool_table)

lemma run_load: "os_do_command [prog, asc ''-part'', p, asc ''-load'', f] (COMMAND_CTRL_INITER partool_commands) = Run partool_load"
  by (subst partool_dispatch) (simp_all add: partool_table)

text \<open>What \<open>-show\<close> of a name prints, and that it leaves the partitions alone.\<close>

lemma partool_show_run:
  assumes "env_std env" and "holds b w cs"
  shows "\<exists>w'. partool_main env [prog, asc ''-part'', pname b, asc ''-show'', k] w =
      Ret (case map_of cs k of None \<Rightarrow> err ENOEXIST | Some v \<Rightarrow> 0, w')
    \<and> aw_out w' = aw_out w @ [case map_of cs k of None \<Rightarrow> OutNotExist k | Some v \<Rightarrow> OutValue v]
    \<and> holds b w' cs \<and> (aw_mtd w')(pname b := None) = (aw_mtd w)(pname b := None)"
proof -
  define argv where "argv = [prog, asc ''-part'', pname b, asc ''-show'', k]"
  have argv: "argv ! 2 = pname b" "argv ! 4 = k"
    by (simp_all add: argv_def)
  obtain w1 blk where w1: "partool_init env PART_MODE_NORMAL argv w = Ret (0, w1)" "aw_blk w1 = Some blk"
    "app_rest b w1 = app_rest b w" "app_stored b w1 = app_stored b w" "block_ok blk" "pb_list blk = cs" "\<not> is_dirty blk"
    using partool_init_normal [OF assms argv(1)] by blast
  define x where "x = (case map_of cs k of None \<Rightarrow> OutNotExist k | Some v \<Rightarrow> OutValue v)"
  define e where "e = (case map_of cs k of None \<Rightarrow> err ENOEXIST | Some v \<Rightarrow> 0)"
  have "part_block_is_good (Some blk)"
    using w1(5) by (simp add: block_ok_def)
  then have sh: "partool_show_byname env argv w = Ret (e, print_out x w1)"
    using w1 argv by (cases "map_of cs k") (simp_all add: partool_show_byname_def with_block_def part_var_find_def
        find_item_map_of part_error_def x_def e_def show_cursor_def)
  have clean: "partool_clean env (print_out x w1) = Ret (part_clean ((print_out x w1)\<lparr>aw_blk := None\<rparr>))"
    using w1(2,7) by (intro partool_clean_unchanged) (simp_all add: print_out_def)
  have "partool_main env argv w = Ret (e, part_clean ((print_out x w1)\<lparr>aw_blk := None\<rparr>))"
    using run_show [of prog "pname b" k] by (simp add: partool_main_def argv_def [symmetric] sh clean)
  then show ?thesis
    using w1(3,4) assms(2) unfolding argv_def
    by (simp add: x_def e_def app_rest_def part_clean_def print_out_def holds_def app_stored_def)
qed

lemma put_item_clean: "\<forall>c\<in>set cs. item_clean c \<Longrightarrow> item_clean (k, v) \<Longrightarrow> \<forall>c\<in>set (put_item k v cs). item_clean c"
proof -
  have "set (replace_first k (k, v) cs) \<subseteq> insert (k, v) (set cs)"
    by (induction cs) auto
  then show "\<forall>c\<in>set cs. item_clean c \<Longrightarrow> item_clean (k, v) \<Longrightarrow> ?thesis"
    by (auto simp: put_item_def)
qed

lemma map_of_put_item: "map_of (put_item k v cs) = (map_of cs)(k \<mapsto> v)"
  using map_of_snoc [of cs k v] map_of_replace_first [of cs k v] by (cases "map_of cs k") (simp_all add: put_item_def)

lemma partool_new_run:
  assumes "env_std env" and "holds b w cs" and "item_clean (k, v)" and "fits SIZE_OSENV (put_item k v cs)"
  shows "\<exists>w'. partool_main env [prog, asc ''-part'', pname b, asc ''-new'', k, v] w = Ret (0, w')
    \<and> holds b w' (put_item k v cs) \<and> app_rest b w' = app_rest b w"
proof -
  define argv where "argv = [prog, asc ''-part'', pname b, asc ''-new'', k, v]"
  have argv: "argv ! 2 = pname b" "argv ! 4 = k" "argv ! 5 = v"
    by (simp_all add: argv_def)
  have al: "e_alloc env = (\<lambda>_ _. True)"
    using assms(1) by (simp add: env_std_def)
  have "\<forall>c\<in>set (put_item k v cs). item_clean c"
    using assms(2,3) by (intro put_item_clean) (simp_all add: holds_def)
  then have "\<exists>w'. obind (partool_new env argv w) (\<lambda>(e, w). obind (partool_clean env w) (\<lambda>w. Ret (e, w))) = Ret (0, w')
    \<and> holds b w' (put_item k v cs) \<and> app_rest b w' = app_rest b w \<and> aw_blk w' = None"
    unfolding partool_new_def al argv(2,3) using part_var_new_block [of _ k v]
    by (intro partool_var_run [OF assms(1,2) argv(1) _ assms(4)]) auto
  then show ?thesis
    using run_new [of prog "pname b" k v] by (auto simp: partool_main_def argv_def)
qed

subsection \<open>Properties\<close>

text \<open>C1: what \<open>partool -new\<close> writes, a later \<open>partool -show\<close> prints. On a partition that holds a list of
  clean pairs, and if the pair is clean and still fits, \<open>partool -part p -new k v\<close> exits with 0 and leaves
  the partition holding the list with that variable set, the following \<open>partool -part p -show k\<close> exits with
  0 and prints exactly \<open>v\<close>, and no other partition changes.\<close>

theorem partool_new_then_show:
  assumes "env_std env" and "holds b w cs" and "item_clean (k, v)" and "fits SIZE_OSENV (put_item k v cs)"
  shows "\<exists>w1 w2. partool_main env [prog, asc ''-part'', pname b, asc ''-new'', k, v] w = Ret (0, w1)
    \<and> holds b w1 (put_item k v cs)
    \<and> partool_main env [prog, asc ''-part'', pname b, asc ''-show'', k] w1 = Ret (0, w2)
    \<and> aw_out w2 = aw_out w @ [OutValue v] \<and> (aw_mtd w2)(pname b := None) = (aw_mtd w)(pname b := None)"
proof -
  obtain w1 where w1: "partool_main env [prog, asc ''-part'', pname b, asc ''-new'', k, v] w = Ret (0, w1)"
    "holds b w1 (put_item k v cs)" "app_rest b w1 = app_rest b w"
    using partool_new_run [OF assms] by blast
  obtain w2 where "partool_main env [prog, asc ''-part'', pname b, asc ''-show'', k] w1 = Ret (0, w2)"
    "aw_out w2 = aw_out w1 @ [OutValue v]" "(aw_mtd w2)(pname b := None) = (aw_mtd w1)(pname b := None)"
    using partool_show_run [OF assms(1) w1(2), of prog k] by (auto simp: map_of_put_item)
  with w1 show ?thesis
    by (auto simp: app_rest_def)
qed

text \<open>An environment and a partition for the witnesses.\<close>

definition sample_app_env :: app_env where
  "sample_app_env = \<lparr>e_cp = (\<lambda>x. x), e_mtd_write = (\<lambda>bs _. Some bs), e_zalloc_tmp = True, e_zalloc_block = True,
     e_alloc = (\<lambda>_ _. True), e_past = 0, e_open = Inr 3, e_flock = 0, e_errno = 2, e_human = (\<lambda>_. Inr (asc ''a b''))\<rparr>"

definition sample_world :: app_world where
  "sample_world = \<lparr>aw_size = 0, aw_blk = None, aw_tmp = None, aw_tmpfile = None, aw_mtdfile = [], aw_humfile = [],
     aw_mtd = (\<lambda>p. Some (xored PART_XOR SIZE_OSENV (image SIZE_OSENV []))), aw_out = []\<rparr>"

lemma sample_std: "env_std sample_app_env"
  by (simp add: env_std_def sample_app_env_def)

lemma sample_holds: "holds b sample_world []"
  by (simp add: holds_def app_stored_def sample_world_def fits_def SIZE_OSENV_def)

theorem partool_new_then_show_witness:
  "\<exists>w1 w2. partool_main sample_app_env [[], asc ''-part'', pname True, asc ''-new'', [97], [98, 32, 99]] sample_world = Ret (0, w1)
    \<and> partool_main sample_app_env [[], asc ''-part'', pname True, asc ''-show'', [97]] w1 = Ret (0, w2)
    \<and> aw_out w2 = [OutValue [98, 32, 99]]"
proof -
  have "fits SIZE_OSENV (put_item [97] [98, 32, 99] [])"
    by (simp add: fits_def put_item_def line_of_def SIZE_OSENV_def)
  from partool_new_then_show [OF sample_std sample_holds sample_pair_clean this, of "[]" True] show ?thesis
    by (auto simp: sample_world_def)
qed

text \<open>C39: \<open>partool -load\<close> does not store the file it is given: whatever the file contains, the run exits
  with 0 and leaves the partition holding the empty list, and every variable is gone.\<close>

theorem partool_load_erases:
  assumes "env_std env" and "holds b w cs" and "e_human env f = Inr bs"
  shows "\<exists>w'. partool_main env [prog, asc ''-part'', pname b, asc ''-load'', f] w = Ret (0, w') \<and> holds b w' []"
proof -
  define argv where "argv = [prog, asc ''-part'', pname b, asc ''-load'', f]"
  obtain fd where env: "std_env env = env" "e_zalloc_block env" "e_open env = Inr fd" "e_flock env = 0"
    using assms(1) env_std_fix by (auto simp: env_std_def)
  define w0 where "w0 = w\<lparr>aw_humfile := f\<rparr>"
  have st: "app_stored b w0 = app_stored b w"
    by (simp add: w0_def app_stored_def)
  have len: "length (app_stored b w0) = SIZE_OSENV"
    using assms(2) by (simp add: holds_def st length_image)
  define w1 where "w1 = app_open env b w0"
  have pi: "part_init env (pname b) w0 = (0, w1)" and sz: "aw_size w1 = SIZE_OSENV" "aw_humfile w1 = f"
    and ready: "app_ready b w1"
    using part_init_pname [OF len, of env] env(1) partool.opn_law [OF len, of env]
    by (simp_all add: w1_def app_open_def w0_def)
  have "9 < SIZE_OSENV"
    by (simp add: SIZE_OSENV_def)
  then obtain blk where blk: "part_block_create True (Inr fd) 0 (e_alloc env) (e_past env) (partool_read env) w1 PART_MODE_LOAD
      SIZE_OSENV 1 1 1 (Inr bs) 0 = Ret (w1, Some blk)"
    "part_block_is_good (Some blk)" "pb_size blk = SIZE_OSENV" "pb_list blk = []" "pb_count blk = 0" "is_dirty blk"
    "pb_xor blk = PART_XOR"
    using create_load [of SIZE_OSENV fd "e_alloc env" "e_past env" "partool_read env" w1 bs 0] by auto
  define w2 where "w2 = w1\<lparr>aw_blk := Some blk\<rparr>"
  have load: "partool_load env argv w = Ret (0, w2)"
    using blk(1) env pi sz assms(3)
    by (simp add: partool_load_def with_block_def partool_init_def argv_def w0_def [symmetric] w2_def)
  have "fits SIZE_OSENV []"
    by (simp add: fits_def SIZE_OSENV_def)
  then obtain w' where "partool_clean env w2 = Ret w'" "holds b w' []"
    using partool_clean_dirty [OF assms(1), of w2 blk b] blk ready
    by (auto simp: w2_def block_ok_def app_ready_def app_stored_def)
  then show ?thesis
    using run_load [of prog "pname b" f] load by (simp add: partool_main_def argv_def)
qed

theorem partool_load_erases_witness:
  "\<exists>w'. partool_main sample_app_env [[], asc ''-part'', pname False, asc ''-load'', [102]] sample_world = Ret (0, w') \<and> holds False w' []"
  by (rule partool_load_erases [OF sample_std sample_holds, where bs = "asc ''a b''"]) (simp add: sample_app_env_def)

end
