(* ===== verification/Os_Libc.thy ===== *)
theory Os_Libc
  imports Os_Prelude
begin

text \<open>
  The libc conversions several programs use: reading and printing decimal numbers. A C string is the list
  of its bytes before the NUL.
\<close>

text \<open>\<open>sscanf\<close> with \<open>%d\<close>: white space, a sign, digits. The rest of the input is returned too.\<close>

definition is_digit :: "u8 \<Rightarrow> bool" where
  "is_digit ch \<longleftrightarrow> 48 \<le> ch \<and> ch \<le> 57"

definition digits_value :: "u8 list \<Rightarrow> int" where
  "digits_value ds = foldl (\<lambda>n d. 10 * n + (uint d - 48)) 0 ds"

definition is_space :: "u8 \<Rightarrow> bool" where
  "is_space ch \<longleftrightarrow> ch = 32 \<or> (9 \<le> ch \<and> ch \<le> 13)"

definition scan_d :: "u8 list \<Rightarrow> (int \<times> u8 list) option" where
  "scan_d s =
     (let s = dropWhile is_space s;
          neg = (take 1 s = [45]);
          s = (if take 1 s = [45] \<or> take 1 s = [43] then tl s else s);
          ds = takeWhile is_digit s
      in if ds = [] then None else Some ((if neg then - digits_value ds else digits_value ds), dropWhile is_digit s))"

definition atoi :: "u8 list \<Rightarrow> int" where
  "atoi s = (case scan_d s of Some (n, _) \<Rightarrow> n | None \<Rightarrow> 0)"

text \<open>Decimal digits, as \<open>%d\<close> prints a number that is not negative.\<close>

fun print_dec :: "nat \<Rightarrow> u8 list" where
  "print_dec n = (if n < 10 then [word_of_nat (48 + n)] else print_dec (n div 10) @ [word_of_nat (48 + n mod 10)])"

declare print_dec.simps [simp del]

text \<open>Bounds, and reading back what was printed.\<close>

lemma digits_value_bound: "list_all is_digit ds \<Longrightarrow> 0 \<le> digits_value ds \<and> digits_value ds < 10 ^ length ds"
proof (induction ds rule: rev_induct)
  case (snoc d ds)
  have "uint d - 48 \<in> {0..9}"
    using snoc.prems by (simp add: is_digit_def word_le_def uint_word_of_int)
  then show ?case
    using snoc by (auto simp: digits_value_def)
qed (simp add: digits_value_def)

lemma atoi_bound: "length s \<le> n \<Longrightarrow> \<bar>atoi s\<bar> < 10 ^ n"
proof -
  assume n: "length s \<le> n"
  have b: "\<bar>digits_value (takeWhile is_digit t)\<bar> < 10 ^ n" if "length t \<le> n" for t
  proof -
    have "length (takeWhile is_digit t) \<le> n"
      using length_takeWhile_le [of is_digit t] that by linarith
    then have "(10 :: int) ^ length (takeWhile is_digit t) \<le> 10 ^ n"
      by (rule power_increasing) simp
    moreover have "list_all is_digit (takeWhile is_digit t)"
      by (auto simp: list_all_iff dest: set_takeWhileD)
    ultimately show ?thesis
      using digits_value_bound [of "takeWhile is_digit t"] by linarith
  qed
  have "length (dropWhile is_space s) \<le> n" "length (tl (dropWhile is_space s)) \<le> n"
    using n length_dropWhile_le [of is_space s] by simp_all
  then show ?thesis
    using b [of "dropWhile is_space s"] b [of "tl (dropWhile is_space s)"] by (auto simp: atoi_def scan_d_def Let_def)
qed

lemma print_dec_length: "n < 10 ^ k \<Longrightarrow> 0 < k \<Longrightarrow> length (print_dec n) \<le> k"
proof (induction k arbitrary: n)
  case (Suc k)
  show ?case
  proof (cases "n < 10")
    case False
    then have "0 < k"
      using Suc.prems(1) by (cases k) auto
    moreover have "n div 10 < 10 ^ k"
      using Suc.prems(1) by (simp add: less_mult_imp_div_less mult.commute)
    ultimately show ?thesis
      using False Suc.IH by (simp add: print_dec.simps [of n])
  qed (simp add: print_dec.simps)
qed simp

lemma digit_code: "d < 10 \<Longrightarrow> is_digit (word_of_nat (48 + d)) \<and> uint (word_of_nat (48 + d) :: u8) - 48 = int d"
proof -
  assume "d < 10"
  moreover have "\<forall>d \<in> set [0..<10]. is_digit (word_of_nat (48 + d)) \<and> uint (word_of_nat (48 + d) :: u8) - 48 = int d"
    by code_simp
  ultimately show ?thesis
    by simp
qed

lemma digits_value_snoc: "digits_value (ds @ [d]) = 10 * digits_value ds + (uint d - 48)"
  by (simp add: digits_value_def)

lemma digits_value_print: "digits_value (print_dec n) = int n \<and> list_all is_digit (print_dec n) \<and> print_dec n \<noteq> []"
proof (induction n rule: print_dec.induct)
  case (1 n)
  show ?case
  proof (cases "n < 10")
    case True
    then show ?thesis
      using digit_code [of n] by (simp add: print_dec.simps digits_value_def)
  next
    case False
    then show ?thesis
      using 1 digit_code [of "n mod 10"] by (subst (1 2 3) print_dec.simps) (simp add: digits_value_snoc of_nat_div of_nat_mod)
  qed
qed

lemma atoi_print: "atoi (print_dec n @ [10]) = int n"
proof -
  obtain d ds where d: "print_dec n = d # ds" "list_all is_digit (d # ds)"
    using digits_value_print [of n] by (cases "print_dec n") auto
  have "\<not> is_space d" "d \<noteq> 45" "d \<noteq> 43"
    using d(2) by (auto simp: is_digit_def is_space_def word_le_nat_alt)
  moreover have "takeWhile is_digit (print_dec n @ [10]) = print_dec n"
    using d by (subst takeWhile_append2) (auto simp: list_all_iff is_digit_def)
  ultimately show ?thesis
    using d(1) digits_value_print [of n] by (simp add: atoi_def scan_d_def Let_def)
qed

end
