(* ===== verification/Um_Base.thy ===== *)
theory Um_Base
  imports Os_Cmd Os_Libc
begin

text \<open>
  The data of the user manager (\<open>autelan-app/src/um/um.h\<close>) and its event messages (first half of
  \<open>ubus.c\<close>). Users are \<open>apuser\<close> records in a heap indexed by address; the intrusive list and hash nodes are
  the lists of addresses in \<open>um_control\<close>. The global blob buffer \<open>b\<close> is the sequence of items written to
  it; a message on the bus is its name and the contents of the buffer, and the messages sent are recorded
  in order.

  What lies outside is in \<open>um_env\<close>: the clock, the settings read through \<open>appkey_get\<close> and the allocator.
\<close>

subsection \<open>Users\<close>

record rxinfo =
  rx_rate :: u32
  rx_bytes :: u64
  rx_packets :: u32
  rx_wifirate :: u32

record txinfo =
  tx_rate :: u32
  tx_bytes :: u64
  tx_packets :: u32
  tx_retries :: u32
  tx_failed :: u32
  tx_wifirate :: u32

record wifiinfo =
  wi_uptime :: u32
  wi_livetime :: u32
  wi_signal :: int
  wi_rx :: rxinfo
  wi_tx :: txinfo

record trafficinfo =
  pt_rate :: u32
  pt_bytes :: u64
  pt_packets :: u32

record portalinfo =
  po_uptime :: u32
  po_livetime :: u32
  po_type :: nat
  po_state :: nat
  po_rx :: trafficinfo
  po_tx :: trafficinfo

record apuser =
  us_local :: bool
  us_mac :: "u8 list"
  us_ap :: "u8 list"
  us_vap :: "u8 list"
  us_ifname :: "u8 list"
  us_radioid :: int
  us_wlanid :: int
  us_ip :: u32
  us_wifi :: wifiinfo
  us_portal :: portalinfo
  us_aging :: int

definition um_user_init :: "bool \<Rightarrow> apuser" where
  "um_user_init local = \<lparr>us_local = local, us_mac = OS_ZEROMAC, us_ap = OS_ZEROMAC, us_vap = OS_ZEROMAC, us_ifname = [],
     us_radioid = 0, us_wlanid = 0, us_ip = 0,
     us_wifi = \<lparr>wi_uptime = 0, wi_livetime = 0, wi_signal = 0,
       wi_rx = \<lparr>rx_rate = 0, rx_bytes = 0, rx_packets = 0, rx_wifirate = 0\<rparr>,
       wi_tx = \<lparr>tx_rate = 0, tx_bytes = 0, tx_packets = 0, tx_retries = 0, tx_failed = 0, tx_wifirate = 0\<rparr>\<rparr>,
     us_portal = \<lparr>po_uptime = 0, po_livetime = 0, po_type = 0, po_state = 0,
       po_rx = \<lparr>pt_rate = 0, pt_bytes = 0, pt_packets = 0\<rparr>, po_tx = \<lparr>pt_rate = 0, pt_bytes = 0, pt_packets = 0\<rparr>\<rparr>,
     us_aging = 0\<rparr>"

subsection \<open>Messages\<close>

datatype bval = BStr "u8 list" | BU32 u32 | BU64 u64 | BBool bool

type_synonym user_table = "(string \<times> bval) list"

datatype blob = Table "string option" user_table | OpenArray string | CloseArray

datatype um_msg = Notify string "blob list" | Reply "blob list"

text \<open>\<open>inet_ntoa\<close>: the bytes of the address in memory order, on the big-endian target the word order.\<close>

definition ip_bytes :: "u32 \<Rightarrow> u8 list" where
  "ip_bytes ip = [ucast (drop_bit 24 ip), ucast (drop_bit 16 ip), ucast (drop_bit 8 ip), ucast ip]"

definition os_ipstring :: "u32 \<Rightarrow> u8 list" where
  "os_ipstring ip = (case map (\<lambda>b. print_dec (unat b)) (ip_bytes ip) of
     [a, b, c, d] \<Rightarrow> a @ [46] @ b @ [46] @ c @ [46] @ d | _ \<Rightarrow> [])"

definition um_macstring :: "u8 list \<Rightarrow> u8 list" where
  "um_macstring mac = snd (os_macsnprintf mac (1 + MACSTRINGLEN_L) 58)"

text \<open>The name tables of \<open>umc.portal\<close>; the only portal type is \<open>wifidog\<close>.\<close>

definition um_user_portal_type :: "apuser \<Rightarrow> u8 list" where
  "um_user_portal_type user = [asc ''wifidog''] ! po_type (us_portal user)"

definition um_user_portal_state :: "apuser \<Rightarrow> u8 list" where
  "um_user_portal_state user = [asc ''unknow'', asc ''probation'', asc ''know''] ! po_state (us_portal user)"

definition user_attrs :: "apuser \<Rightarrow> user_table" where
  "user_attrs user =
    [(''mac'', BStr (um_macstring (us_mac user))),
     (''ap'', BStr (um_macstring (us_ap user))),
     (''vap'', BStr (um_macstring (us_vap user))),
     (''wlanid'', BU32 (word_of_int (us_wlanid user))),
     (''radioid'', BU32 (word_of_int (us_radioid user))),
     (''ip'', BStr (os_ipstring (us_ip user))),
     (''uptime'', BU32 (wi_uptime (us_wifi user))),
     (''livetime'', BU32 (wi_livetime (us_wifi user))),
     (''signal'', BU32 (word_of_int (wi_signal (us_wifi user)))),
     (''rx_rate'', BU32 (rx_rate (wi_rx (us_wifi user)))),
     (''rx_wifirate'', BU32 (rx_wifirate (wi_rx (us_wifi user)))),
     (''rx_bytes'', BU64 (rx_bytes (wi_rx (us_wifi user)))),
     (''tx_rate'', BU32 (tx_rate (wi_tx (us_wifi user)))),
     (''tx_wifirate'', BU32 (tx_wifirate (wi_tx (us_wifi user)))),
     (''tx_bytes'', BU64 (tx_bytes (wi_tx (us_wifi user)))),
     (''portal_enable'', BBool (po_uptime (us_portal user) \<noteq> 0)),
     (''portal_type'', BStr (um_user_portal_type user)),
     (''portal_state'', BStr (um_user_portal_state user))]"

subsection \<open>Control block and environment\<close>

datatype intf_type = UM_INTF_RADIO | UM_INTF_WLAN | UM_INTF_END

record um_intf =
  if_type :: intf_type
  if_ifname :: "u8 list"
  if_radioid :: int
  if_wlanid :: int

record um_uci =
  uci_cfg :: "um_intf list"
  uci_tmp :: "um_intf list"

record um_control =
  users :: "addr \<Rightarrow> apuser"
  head_mac :: "nat \<Rightarrow> addr list"
  head_ip :: "nat \<Rightarrow> addr list"
  head_list :: "addr list"
  head_count :: u32
  uci_radio :: um_uci
  uci_wlan :: um_uci
  blob_b :: "blob list"
  msgs :: "um_msg list"

definition umc_init :: um_control where
  "umc_init = \<lparr>users = (\<lambda>_. um_user_init False), head_mac = (\<lambda>_. []), head_ip = (\<lambda>_. []), head_list = [], head_count = 0,
     uci_radio = \<lparr>uci_cfg = [], uci_tmp = []\<rparr>, uci_wlan = \<lparr>uci_cfg = [], uci_tmp = []\<rparr>, blob_b = [], msgs = []\<rparr>"

record um_env =
  env_now :: u32
  env_agtimes :: u32
  env_ev_new :: bool
  env_ev_delete :: bool
  env_ev_update :: bool
  env_ev_report :: bool
  env_malloc :: "um_control \<Rightarrow> addr option"

definition um_agtimes :: "um_env \<Rightarrow> int" where
  "um_agtimes env = sint (env_agtimes env)"

text \<open>\<open>pushuser\<close>: nothing at all happens for a NULL user, not even the reset of the buffer.\<close>

definition pushuser :: "apuser option \<Rightarrow> bool \<Rightarrow> string option \<Rightarrow> um_control \<Rightarrow> um_control" where
  "pushuser user init name c = (case user of
      None \<Rightarrow> c
    | Some u \<Rightarrow>
       let c = (if init then c\<lparr>blob_b := []\<rparr> else c)
       in c\<lparr>blob_b := blob_b c @ [Table name (user_attrs u)]\<rparr>)"

definition notify :: "string \<Rightarrow> um_control \<Rightarrow> um_control" where
  "notify event c = c\<lparr>msgs := msgs c @ [Notify event (blob_b c)]\<rparr>"

definition insert_or_remove_cb :: "string \<Rightarrow> apuser \<Rightarrow> um_control \<Rightarrow> um_control" where
  "insert_or_remove_cb event user c =
     (if us_local user then notify event (pushuser (Some user) True (Some ''user'') c) else c)"

definition um_ubus_insert_cb :: "um_env \<Rightarrow> apuser \<Rightarrow> um_control \<Rightarrow> um_control" where
  "um_ubus_insert_cb env user c = (if env_ev_new env then insert_or_remove_cb ''um.new'' user c else c)"

definition um_ubus_remove_cb :: "um_env \<Rightarrow> apuser \<Rightarrow> um_control \<Rightarrow> um_control" where
  "um_ubus_remove_cb env user c = (if env_ev_delete env then insert_or_remove_cb ''um.delete'' user c else c)"

definition update_cb :: "apuser \<Rightarrow> apuser \<Rightarrow> um_control \<Rightarrow> um_control" where
  "update_cb old new c =
     (if False = us_local old \<and> False = us_local new then c
      else notify ''um.update'' (pushuser (Some new) False (Some ''new'') (pushuser (Some old) True (Some ''old'') c)))"

definition um_ubus_update_cb :: "um_env \<Rightarrow> apuser \<Rightarrow> apuser \<Rightarrow> um_control \<Rightarrow> um_control" where
  "um_ubus_update_cb env old new c = (if env_ev_update env then update_cb old new c else c)"

subsection \<open>What the callbacks leave alone\<close>

text \<open>The bus callbacks write the blob buffer and append messages; \<open>bus_only\<close> says so.\<close>

definition bus_only :: "um_control \<Rightarrow> um_control \<Rightarrow> bool" where
  "bus_only c c' \<longleftrightarrow> c' = c\<lparr>blob_b := blob_b c', msgs := msgs c'\<rparr>"

lemma bus_only_refl [simp]: "bus_only c c"
  by (simp add: bus_only_def)

lemma bus_only_trans: "bus_only c d \<Longrightarrow> bus_only d e \<Longrightarrow> bus_only c e"
  unfolding bus_only_def by (metis um_control.surjective um_control.update_convs(8,9))

lemma bus_only_frame:
  assumes "bus_only c c'"
  shows "users c' = users c" "head_mac c' = head_mac c" "head_ip c' = head_ip c" "head_list c' = head_list c"
    "head_count c' = head_count c" "uci_radio c' = uci_radio c" "uci_wlan c' = uci_wlan c"
  by (subst assms [unfolded bus_only_def], simp)+

lemma bus_only_cb [simp]:
  "bus_only c (um_ubus_insert_cb env u c)" "bus_only c (um_ubus_remove_cb env u c)" "bus_only c (um_ubus_update_cb env u v c)"
  by (simp_all add: um_ubus_insert_cb_def um_ubus_remove_cb_def um_ubus_update_cb_def update_cb_def
      insert_or_remove_cb_def notify_def pushuser_def bus_only_def)

lemmas ubus_cb_frame [simp] = bus_only_cb [THEN bus_only_frame(1)] bus_only_cb [THEN bus_only_frame(2)]
  bus_only_cb [THEN bus_only_frame(3)] bus_only_cb [THEN bus_only_frame(4)] bus_only_cb [THEN bus_only_frame(5)]
  bus_only_cb [THEN bus_only_frame(6)] bus_only_cb [THEN bus_only_frame(7)]

text \<open>The messages they send.\<close>

definition new_msgs :: "um_env \<Rightarrow> apuser \<Rightarrow> um_msg list" where
  "new_msgs env u = (if env_ev_new env \<and> us_local u then [Notify ''um.new'' [Table (Some ''user'') (user_attrs u)]] else [])"

definition delete_msgs :: "um_env \<Rightarrow> apuser \<Rightarrow> um_msg list" where
  "delete_msgs env u = (if env_ev_delete env \<and> us_local u then [Notify ''um.delete'' [Table (Some ''user'') (user_attrs u)]] else [])"

definition update_msgs :: "um_env \<Rightarrow> apuser \<Rightarrow> apuser \<Rightarrow> um_msg list" where
  "update_msgs env old new = (if env_ev_update env \<and> (us_local old \<or> us_local new)
     then [Notify ''um.update'' [Table (Some ''old'') (user_attrs old), Table (Some ''new'') (user_attrs new)]] else [])"

lemma ubus_cb_msgs [simp]:
  "msgs (um_ubus_insert_cb env u c) = msgs c @ new_msgs env u"
  "msgs (um_ubus_remove_cb env u c) = msgs c @ delete_msgs env u"
  "msgs (um_ubus_update_cb env u v c) = msgs c @ update_msgs env u v"
  by (simp_all add: um_ubus_insert_cb_def um_ubus_remove_cb_def um_ubus_update_cb_def update_cb_def
      insert_or_remove_cb_def notify_def pushuser_def new_msgs_def delete_msgs_def update_msgs_def)

end
