(* ===== verification/Um_User.thy ===== *)
theory Um_User
  imports Um_Base
begin

text \<open>
  The table of users of the user manager (\<open>um/user.c\<close>): a list, a hash by MAC address and a hash by IP
  address over the same records. The invariant says that the three agree: a record is in a hash exactly
  when it is on the list and has a usable key, and no two records share a usable MAC address. The lookup
  functions then compute the mathematical lookup, and every operation keeps the invariant.

  \<open>list_del\<close> and \<open>hlist_del_init\<close> unlink a node from the list it is on; a node is on a list when its
  address occurs there. Trace output is left out.
\<close>

subsection \<open>The code\<close>

definition UM_HASHSIZE :: nat where "UM_HASHSIZE = 64"
definition UM_HASHMASK :: nat where "UM_HASHMASK = UM_HASHSIZE - 1"

fun hashbuf_loop :: "u8 list \<Rightarrow> nat \<Rightarrow> nat" where
  "hashbuf_loop [] s = s"
| "hashbuf_loop (c # buf) s = hashbuf_loop buf (s + unat c)"

definition hashbuf :: "u8 list \<Rightarrow> nat \<Rightarrow> nat \<Rightarrow> nat" where
  "hashbuf buf len msk = hashbuf_loop (take len buf) 0 AND msk"

definition hashmac :: "u8 list \<Rightarrow> nat" where
  "hashmac mac = hashbuf mac OS_MACSIZE UM_HASHMASK"

definition haship :: "u32 \<Rightarrow> nat" where
  "haship ip = hashbuf (ip_bytes ip) 4 UM_HASHMASK"

definition in_list :: "um_control \<Rightarrow> addr \<Rightarrow> bool" where
  "in_list c a \<longleftrightarrow> a \<in> set (head_list c)"

text \<open>\<open>__remove\<close> with an optional callback.\<close>

definition remove_user :: "(apuser \<Rightarrow> um_control \<Rightarrow> um_control) option \<Rightarrow> um_control \<Rightarrow> addr option \<Rightarrow> int \<times> um_control" where
  "remove_user cb c user = (case user of
      None \<Rightarrow> (err EKEYNULL, c)
    | Some a \<Rightarrow>
       if in_list c a = False then (0, c)
       else
         let c = c\<lparr>head_list := remove1 a (head_list c)\<rparr>;
             c = (if is_good_mac (us_mac (users c a)) then c\<lparr>head_mac := (\<lambda>h. remove1 a (head_mac c h))\<rparr> else c);
             c = (if us_ip (users c a) \<noteq> 0 then c\<lparr>head_ip := (\<lambda>h. remove1 a (head_ip c h))\<rparr> else c);
             c = c\<lparr>head_count := head_count c - 1\<rparr>
         in (0, case cb of Some f \<Rightarrow> f (users c a) c | None \<Rightarrow> c))"

text \<open>\<open>__insert\<close>.\<close>

definition insert_user :: "(apuser \<Rightarrow> um_control \<Rightarrow> um_control) option \<Rightarrow> um_control \<Rightarrow> addr option \<Rightarrow> int \<times> um_control" where
  "insert_user cb c user = (case user of
      None \<Rightarrow> (err EKEYNULL, c)
    | Some a \<Rightarrow>
       if in_list c a then (err EINLIST, c)
       else
         let c = c\<lparr>head_list := a # head_list c\<rparr>;
             m = hashmac (us_mac (users c a));
             i = haship (us_ip (users c a));
             c = (if is_good_mac (us_mac (users c a)) then c\<lparr>head_mac := (head_mac c)(m := a # head_mac c m)\<rparr> else c);
             c = (if us_ip (users c a) \<noteq> 0 then c\<lparr>head_ip := (head_ip c)(i := a # head_ip c i)\<rparr> else c);
             c = c\<lparr>head_count := head_count c + 1\<rparr>
         in (0, case cb of Some f \<Rightarrow> f (users c a) c | None \<Rightarrow> c))"

text \<open>\<open>__create\<close>.\<close>

definition create_user :: "um_env \<Rightarrow> u8 list \<Rightarrow> um_control \<Rightarrow> addr option \<times> um_control" where
  "create_user env mac c = (case env_malloc env c of
      None \<Rightarrow> (None, c)
    | Some a \<Rightarrow>
       let user = um_user_init True;
           user = user\<lparr>us_mac := os_maccpy (us_mac user) mac\<rparr>;
           user = user\<lparr>us_wifi := (us_wifi user)\<lparr>wi_uptime := env_now env\<rparr>\<rparr>
       in (Some a, c\<lparr>users := (users c)(a := user)\<rparr>))"

definition um_user_getbymac :: "um_control \<Rightarrow> u8 list \<Rightarrow> addr option" where
  "um_user_getbymac c mac = List.find (\<lambda>a. os_maceq (us_mac (users c a)) mac) (head_mac c (hashmac mac))"

definition um_user_getbyip :: "um_control \<Rightarrow> u32 \<Rightarrow> addr option" where
  "um_user_getbyip c ip = List.find (\<lambda>a. us_ip (users c a) = ip) (head_ip c (haship ip))"

text \<open>An update callback gets the old record and the new information and may send messages.\<close>

type_synonym um_user_update_f = "bool \<Rightarrow> apuser \<Rightarrow> apuser \<Rightarrow> um_control \<Rightarrow> apuser \<times> um_control"

definition um_user_update :: "um_env \<Rightarrow> um_control \<Rightarrow> apuser \<Rightarrow> um_user_update_f \<Rightarrow> addr option \<times> um_control" where
  "um_user_update env c info update =
     (let (user, c, created) = (case um_user_getbymac c (us_mac info) of
           Some a \<Rightarrow> (Some a, c, False)
         | None \<Rightarrow> (let (u, c) = create_user env (us_mac info) c in (u, c, True)))
      in case user of
           None \<Rightarrow> (None, c)
         | Some a \<Rightarrow>
            let (_, c) = remove_user None c (Some a);
                (u, c) = update created (users c a) info c;
                c = c\<lparr>users := (users c)(a := u)\<rparr>;
                (_, c) = insert_user (if created then Some (um_ubus_insert_cb env) else None) c (Some a)
            in (Some a, c\<lparr>users := (users c)(a := (users c a)\<lparr>us_aging := um_agtimes env\<rparr>)\<rparr>))"

text \<open>
  \<open>um_user_foreach\<close> walks the list with the successor read ahead; callbacks remove at most the record they
  are given, so the records visited are those on the list at the start.
\<close>

type_synonym 'd um_foreach_f = "addr \<Rightarrow> 'd \<Rightarrow> um_control \<Rightarrow> u32 \<times> 'd \<times> um_control"

fun um_user_foreach_loop :: "'d um_foreach_f \<Rightarrow> addr list \<Rightarrow> 'd \<Rightarrow> um_control \<Rightarrow> int \<times> 'd \<times> um_control" where
  "um_user_foreach_loop f [] d c = (0, d, c)"
| "um_user_foreach_loop f (a # as) d c =
     (let (mv, d, c) = f a d c
      in if mv2_is_break mv then (mv2_result mv, d, c) else um_user_foreach_loop f as d c)"

definition um_user_foreach :: "'d um_foreach_f \<Rightarrow> 'd \<Rightarrow> um_control \<Rightarrow> int \<times> 'd \<times> um_control" where
  "um_user_foreach f d c = um_user_foreach_loop f (head_list c) d c"

definition um_user_del :: "um_env \<Rightarrow> um_control \<Rightarrow> addr option \<Rightarrow> int \<times> um_control" where
  "um_user_del env c user = remove_user (Some (um_ubus_remove_cb env)) c user"

definition um_user_delbymac :: "um_env \<Rightarrow> um_control \<Rightarrow> u8 list \<Rightarrow> int \<times> um_control" where
  "um_user_delbymac env c mac = remove_user (Some (um_ubus_remove_cb env)) c (um_user_getbymac c mac)"

definition um_user_delbyip :: "um_env \<Rightarrow> um_control \<Rightarrow> u32 \<Rightarrow> int \<times> um_control" where
  "um_user_delbyip env c ip = remove_user (Some (um_ubus_remove_cb env)) c (um_user_getbyip c ip)"

record user_filter =
  uf_local :: bool
  uf_ap :: "u8 list"
  uf_apmask :: "u8 list"
  uf_mac :: "u8 list"
  uf_macmask :: "u8 list"
  uf_ip :: u32
  uf_ipmask :: u32
  uf_radioid :: int
  uf_wlanid :: int

definition USER_FILTER_INITER :: "bool \<Rightarrow> user_filter" where
  "USER_FILTER_INITER local = \<lparr>uf_local = local, uf_ap = OS_ZEROMAC, uf_apmask = OS_ZEROMAC, uf_mac = OS_ZEROMAC,
     uf_macmask = OS_ZEROMAC, uf_ip = 0, uf_ipmask = 0, uf_radioid = - 1, uf_wlanid = - 1\<rparr>"

definition macmatch :: "u8 list \<Rightarrow> u8 list \<Rightarrow> u8 list \<Rightarrow> bool" where
  "macmatch umac fmac msk =
     (if is_good_mac fmac then
        if is_zero_mac msk then (if False = os_maceq umac fmac then False else True)
        else (if False = os_macmaskmach umac fmac msk then False else True)
      else True)"

definition ipmatch :: "u32 \<Rightarrow> u32 \<Rightarrow> u32 \<Rightarrow> bool" where
  "ipmatch uip fip msk =
     (if fip \<noteq> 0 then
        if 0 = msk then (if uip \<noteq> fip then False else True)
        else (if False = os_ipmatch uip fip msk then False else True)
      else True)"

definition match :: "apuser \<Rightarrow> user_filter \<Rightarrow> bool" where
  "match user flt =
     (if uf_local flt \<and> False = us_local user then False
      else if False = macmatch (us_mac user) (uf_mac flt) (uf_macmask flt) then False
      else if False = macmatch (us_ap user) (uf_ap flt) (uf_apmask flt) then False
      else if False = ipmatch (us_ip user) (uf_ip flt) (uf_ipmask flt) then False
      else if 0 \<le> uf_radioid flt \<and> us_radioid user \<noteq> uf_radioid flt then False
      else if 0 \<le> uf_wlanid flt \<and> us_wlanid user \<noteq> uf_wlanid flt then False
      else True)"

definition delby_cb :: "um_env \<Rightarrow> user_filter \<Rightarrow> unit um_foreach_f" where
  "delby_cb env flt a d c =
     (if match (users c a) flt
      then (let (_, c) = remove_user (Some (um_ubus_remove_cb env)) c (Some a) in (mv2_OK, d, c))
      else (mv2_OK, d, c))"

definition um_user_delby :: "um_env \<Rightarrow> user_filter \<Rightarrow> um_control \<Rightarrow> int \<times> um_control" where
  "um_user_delby env flt c = (let (e, _, c) = um_user_foreach (delby_cb env flt) () c in (e, c))"

definition getby_cb :: "user_filter \<Rightarrow> (apuser \<Rightarrow> 'd \<Rightarrow> u32 \<times> 'd) \<Rightarrow> 'd um_foreach_f" where
  "getby_cb flt get a d c =
     (if match (users c a) flt then (let (mv, d) = get (users c a) d in (mv, d, c)) else (mv2_OK, d, c))"

definition um_user_getby :: "user_filter \<Rightarrow> (apuser \<Rightarrow> 'd \<Rightarrow> u32 \<times> 'd) \<Rightarrow> 'd \<Rightarrow> um_control \<Rightarrow> int \<times> 'd" where
  "um_user_getby flt get d c = (let (e, d, _) = um_user_foreach (getby_cb flt get) d c in (e, d))"

subsection \<open>The invariant\<close>

definition mac_hash_ok :: "um_control \<Rightarrow> bool" where
  "mac_hash_ok c \<longleftrightarrow> (\<forall>h. distinct (head_mac c h) \<and> (\<forall>a. a \<in> set (head_mac c h) \<longleftrightarrow>
     a \<in> set (head_list c) \<and> is_good_mac (us_mac (users c a)) \<and> hashmac (us_mac (users c a)) = h))"

definition ip_hash_ok :: "um_control \<Rightarrow> bool" where
  "ip_hash_ok c \<longleftrightarrow> (\<forall>h. distinct (head_ip c h) \<and> (\<forall>a. a \<in> set (head_ip c h) \<longleftrightarrow>
     a \<in> set (head_list c) \<and> us_ip (users c a) \<noteq> 0 \<and> haship (us_ip (users c a)) = h))"

definition list_ok :: "um_control \<Rightarrow> bool" where
  "list_ok c \<longleftrightarrow> distinct (head_list c) \<and> head_count c = of_nat (length (head_list c))
     \<and> (\<forall>a\<in>set (head_list c). length (us_mac (users c a)) = 6)"

definition macs_unique :: "um_control \<Rightarrow> bool" where
  "macs_unique c \<longleftrightarrow> (\<forall>a\<in>set (head_list c). \<forall>b\<in>set (head_list c).
     is_good_mac (us_mac (users c a)) \<and> us_mac (users c a) = us_mac (users c b) \<longrightarrow> a = b)"

definition um_inv :: "um_control \<Rightarrow> bool" where
  "um_inv c \<longleftrightarrow> list_ok c \<and> mac_hash_ok c \<and> ip_hash_ok c \<and> macs_unique c"

lemmas um_inv_defs = um_inv_def list_ok_def mac_hash_ok_def ip_hash_ok_def macs_unique_def

text \<open>The invariant looks at the table only, and at the keys of the listed records only.\<close>

lemma um_inv_cong:
  assumes "um_inv c" and "head_list c' = head_list c" and "head_mac c' = head_mac c" and "head_ip c' = head_ip c"
    and "head_count c' = head_count c"
    and "\<And>a. a \<in> set (head_list c) \<Longrightarrow> us_mac (users c' a) = us_mac (users c a) \<and> us_ip (users c' a) = us_ip (users c a)"
  shows "um_inv c'"
proof -
  have "mac_hash_ok c'"
    using assms unfolding um_inv_def mac_hash_ok_def by metis
  moreover have "ip_hash_ok c'"
    using assms unfolding um_inv_def ip_hash_ok_def by metis
  moreover have "list_ok c'"
    using assms by (simp add: um_inv_def list_ok_def)
  moreover have "macs_unique c'"
    using assms unfolding um_inv_def macs_unique_def by metis
  ultimately show ?thesis
    by (simp add: um_inv_def)
qed

lemma um_inv_init [um_inv_intros]: "um_inv umc_init"
  by (simp add: um_inv_defs umc_init_def)

subsection \<open>Lookup\<close>

lemma find_Some_unique:
  assumes "\<And>x. x \<in> set xs \<Longrightarrow> P x \<Longrightarrow> x = a" and "a \<in> set xs" and "P a"
  shows "List.find P xs = Some a"
proof (cases "List.find P xs")
  case None
  then show ?thesis
    using assms(2,3) by (simp add: find_None_iff)
next
  case (Some b)
  then have "b \<in> set xs" "P b"
    by (auto simp: find_Some_iff)
  then show ?thesis
    using assms(1) Some by blast
qed

lemma getbymac_iff:
  assumes "um_inv c" and "length mac = 6"
  shows "um_user_getbymac c mac = Some a \<longleftrightarrow> is_good_mac mac \<and> a \<in> set (head_list c) \<and> us_mac (users c a) = mac"
proof
  assume "um_user_getbymac c mac = Some a"
  then have a: "a \<in> set (head_mac c (hashmac mac))" "os_maceq (us_mac (users c a)) mac"
    by (auto simp: um_user_getbymac_def find_Some_iff)
  then have "a \<in> set (head_list c)" "is_good_mac (us_mac (users c a))"
    using assms(1) by (simp_all add: um_inv_def mac_hash_ok_def)
  moreover have "length (us_mac (users c a)) = 6"
    using assms(1) calculation(1) by (simp add: um_inv_def list_ok_def)
  ultimately show "is_good_mac mac \<and> a \<in> set (head_list c) \<and> us_mac (users c a) = mac"
    using a(2) assms(2) by (metis os_maceq_iff)
next
  assume a: "is_good_mac mac \<and> a \<in> set (head_list c) \<and> us_mac (users c a) = mac"
  then have "a \<in> set (head_mac c (hashmac mac))"
    using assms(1) by (simp add: um_inv_def mac_hash_ok_def)
  moreover have "x = a" if "x \<in> set (head_mac c (hashmac mac))" "os_maceq (us_mac (users c x)) mac" for x
  proof -
    have x: "x \<in> set (head_list c)" "is_good_mac (us_mac (users c x))"
      using assms(1) that(1) by (simp_all add: um_inv_def mac_hash_ok_def)
    then have "length (us_mac (users c x)) = 6"
      using assms(1) by (simp add: um_inv_def list_ok_def)
    then have "us_mac (users c x) = mac"
      using that(2) assms(2) by (metis os_maceq_iff)
    then show ?thesis
      using x a assms(1) unfolding um_inv_def macs_unique_def by metis
  qed
  moreover have "os_maceq (us_mac (users c a)) mac"
    using a assms(2) by simp
  ultimately show "um_user_getbymac c mac = Some a"
    unfolding um_user_getbymac_def by (intro find_Some_unique)
qed

lemma getbymac_None:
  assumes "um_inv c" and "length mac = 6"
  shows "um_user_getbymac c mac = None \<longleftrightarrow> \<not> (is_good_mac mac \<and> (\<exists>a\<in>set (head_list c). us_mac (users c a) = mac))"
  using getbymac_iff [OF assms] by (metis not_None_eq)

lemma getbyip_Some:
  assumes "um_inv c" and "um_user_getbyip c ip = Some a"
  shows "a \<in> set (head_list c) \<and> us_ip (users c a) = ip \<and> ip \<noteq> 0"
  using assms by (auto simp: um_user_getbyip_def find_Some_iff um_inv_def ip_hash_ok_def)
    (metis nth_mem)+

lemma getbyip_None:
  assumes "um_inv c"
  shows "um_user_getbyip c ip = None \<longleftrightarrow> ip = 0 \<or> (\<forall>a\<in>set (head_list c). us_ip (users c a) \<noteq> ip)"
  using assms by (auto simp: um_user_getbyip_def find_None_iff um_inv_def ip_hash_ok_def)

subsection \<open>Removal and insertion\<close>

lemma remove_user_listed:
  assumes "a \<in> set (head_list c)"
  shows "\<exists>c'. remove_user None c (Some a) = (0, c') \<and> head_list c' = remove1 a (head_list c)
    \<and> users c' = users c \<and> head_count c' = head_count c - 1
    \<and> head_mac c' = (if is_good_mac (us_mac (users c a)) then \<lambda>h. remove1 a (head_mac c h) else head_mac c)
    \<and> head_ip c' = (if us_ip (users c a) \<noteq> 0 then \<lambda>h. remove1 a (head_ip c h) else head_ip c)
    \<and> uci_radio c' = uci_radio c \<and> uci_wlan c' = uci_wlan c \<and> msgs c' = msgs c
    \<and> (\<forall>f. remove_user (Some f) c (Some a) = (0, f (users c a) c'))"
  using assms by (simp add: remove_user_def in_list_def Let_def)

lemma inv_removed:
  assumes "um_inv c" and "a \<in> set (head_list c)" and "head_list c' = remove1 a (head_list c)" and "users c' = users c"
    and "head_count c' = head_count c - 1"
    and "head_mac c' = (if is_good_mac (us_mac (users c a)) then \<lambda>h. remove1 a (head_mac c h) else head_mac c)"
    and "head_ip c' = (if us_ip (users c a) \<noteq> 0 then \<lambda>h. remove1 a (head_ip c h) else head_ip c)"
  shows "um_inv c'"
proof -
  have d: "distinct (head_list c)"
    using assms(1) by (simp add: um_inv_def list_ok_def)
  have s: "set (head_list c') = set (head_list c) - {a}"
    using d assms(3) by simp
  have "length (head_list c) = Suc (length (head_list c'))"
    using assms(2,3) length_pos_if_in_set [OF assms(2)] by (simp add: length_remove1)
  then have "list_ok c'"
    using assms(1,3-5) s d by (simp add: um_inv_def list_ok_def)
  moreover have "mac_hash_ok c'"
    using assms(1) unfolding mac_hash_ok_def assms(6) s assms(4) by (auto simp: um_inv_def mac_hash_ok_def)
  moreover have "ip_hash_ok c'"
    using assms(1) unfolding ip_hash_ok_def assms(7) s assms(4) by (auto simp: um_inv_def ip_hash_ok_def)
  moreover have "macs_unique c'"
    using assms(1) unfolding um_inv_def macs_unique_def s assms(4) by blast
  ultimately show ?thesis
    by (simp add: um_inv_def)
qed

lemma remove_user_None_inv:
  assumes "um_inv c" and "remove_user None c (Some a) = (e, c')"
  shows "um_inv c'" and "head_list c' = remove1 a (head_list c)" and "users c' = users c"
    and "msgs c' = msgs c" and "uci_radio c' = uci_radio c" and "uci_wlan c' = uci_wlan c"
proof -
  have "um_inv c' \<and> head_list c' = remove1 a (head_list c) \<and> users c' = users c \<and> msgs c' = msgs c
    \<and> uci_radio c' = uci_radio c \<and> uci_wlan c' = uci_wlan c"
  proof (cases "a \<in> set (head_list c)")
    case True
    then show ?thesis
      using remove_user_listed [OF True] assms inv_removed [OF assms(1) True] by auto
  next
    case False
    then show ?thesis
      using assms by (simp add: remove_user_def in_list_def remove1_idem)
  qed
  then show "um_inv c'" "head_list c' = remove1 a (head_list c)" "users c' = users c" "msgs c' = msgs c"
    "uci_radio c' = uci_radio c" "uci_wlan c' = uci_wlan c"
    by blast+
qed

lemma insert_user_fresh:
  assumes "a \<notin> set (head_list c)"
  shows "\<exists>c'. insert_user None c (Some a) = (0, c') \<and> head_list c' = a # head_list c
    \<and> users c' = users c \<and> head_count c' = head_count c + 1
    \<and> head_mac c' = (if is_good_mac (us_mac (users c a))
         then (head_mac c)(hashmac (us_mac (users c a)) := a # head_mac c (hashmac (us_mac (users c a)))) else head_mac c)
    \<and> head_ip c' = (if us_ip (users c a) \<noteq> 0
         then (head_ip c)(haship (us_ip (users c a)) := a # head_ip c (haship (us_ip (users c a)))) else head_ip c)
    \<and> uci_radio c' = uci_radio c \<and> uci_wlan c' = uci_wlan c \<and> msgs c' = msgs c
    \<and> (\<forall>f. insert_user (Some f) c (Some a) = (0, f (users c a) c'))"
  using assms by (simp add: insert_user_def in_list_def Let_def)

lemma inv_inserted:
  assumes "um_inv c" and "a \<notin> set (head_list c)" and "head_list c' = a # head_list c" and "users c' = users c"
    and "head_count c' = head_count c + 1"
    and "head_mac c' = (if is_good_mac (us_mac (users c a))
         then (head_mac c)(hashmac (us_mac (users c a)) := a # head_mac c (hashmac (us_mac (users c a)))) else head_mac c)"
    and "head_ip c' = (if us_ip (users c a) \<noteq> 0
         then (head_ip c)(haship (us_ip (users c a)) := a # head_ip c (haship (us_ip (users c a)))) else head_ip c)"
    and "length (us_mac (users c a)) = 6"
    and "is_good_mac (us_mac (users c a)) \<Longrightarrow> \<forall>b\<in>set (head_list c). us_mac (users c b) \<noteq> us_mac (users c a)"
  shows "um_inv c'"
proof -
  have "list_ok c'"
    using assms(1-5,8) by (simp add: um_inv_def list_ok_def)
  moreover have "mac_hash_ok c'"
    using assms(1,2) unfolding mac_hash_ok_def assms(3,4,6) by (auto simp: um_inv_def mac_hash_ok_def)
  moreover have "ip_hash_ok c'"
    using assms(1,2) unfolding ip_hash_ok_def assms(3,4,7) by (auto simp: um_inv_def ip_hash_ok_def)
  moreover have "macs_unique c'"
    using assms(1,9) unfolding macs_unique_def assms(3,4) by (auto simp: um_inv_def macs_unique_def)
  ultimately show ?thesis
    by (simp add: um_inv_def)
qed

subsection \<open>The table as a map\<close>

text \<open>What the table promises its clients: a partial map from MAC addresses to users.\<close>

definition user_map :: "um_control \<Rightarrow> u8 list \<Rightarrow> apuser option" where
  "user_map c mac = map_option (users c) (um_user_getbymac c mac)"

lemma user_map_iff:
  assumes "um_inv c" and "length mac = 6"
  shows "user_map c mac = Some u \<longleftrightarrow> is_good_mac mac \<and> (\<exists>a\<in>set (head_list c). us_mac (users c a) = mac \<and> users c a = u)"
  using getbymac_iff [OF assms] by (auto simp: user_map_def)

lemma user_map_None_iff:
  assumes "um_inv c" and "length mac = 6"
  shows "user_map c mac = None \<longleftrightarrow> \<not> (is_good_mac mac \<and> (\<exists>a\<in>set (head_list c). us_mac (users c a) = mac))"
  using getbymac_None [OF assms] by (simp add: user_map_def)

lemma user_map_mac:
  "um_inv c \<Longrightarrow> length mac = 6 \<Longrightarrow> user_map c mac = Some u \<Longrightarrow> us_mac u = mac"
  by (auto simp: user_map_iff)

lemma user_map_eqI:
  assumes "um_inv c" and "length mac = 6"
    and "\<And>u. p = Some u \<longleftrightarrow> is_good_mac mac \<and> (\<exists>a\<in>set (head_list c). us_mac (users c a) = mac \<and> users c a = u)"
  shows "user_map c mac = p"
  using user_map_iff [OF assms(1,2)] assms(3) by (metis option.exhaust)

lemma um_inv_bus_only: "bus_only c c' \<Longrightarrow> um_inv c \<Longrightarrow> um_inv c'"
  by (erule um_inv_cong) (simp_all add: bus_only_frame)

subsection \<open>Deleting one user\<close>

lemma um_user_del_run:
  assumes "um_inv c" and "a \<in> set (head_list c)"
  shows "\<exists>c'. um_user_del env c (Some a) = (0, c') \<and> um_inv c' \<and> head_list c' = remove1 a (head_list c)
    \<and> users c' = users c \<and> msgs c' = msgs c @ delete_msgs env (users c a)
    \<and> uci_radio c' = uci_radio c \<and> uci_wlan c' = uci_wlan c"
proof -
  obtain d where d: "remove_user None c (Some a) = (0, d)"
    and f: "remove_user (Some (um_ubus_remove_cb env)) c (Some a) = (0, um_ubus_remove_cb env (users c a) d)"
    using remove_user_listed [OF assms(2)] by blast
  note r = remove_user_None_inv [OF assms(1) d]
  show ?thesis
    using r f by (simp add: um_user_del_def um_inv_bus_only [OF bus_only_cb(2)])
qed

lemma remove1_mem_distinct: "distinct xs \<Longrightarrow> b \<in> set (remove1 a xs) \<longleftrightarrow> b \<in> set xs \<and> b \<noteq> a"
  by auto

lemma um_inv_distinct: "um_inv c \<Longrightarrow> distinct (head_list c)"
  by (simp add: um_inv_def list_ok_def)

lemma um_inv_mac_inj:
  "um_inv c \<Longrightarrow> a \<in> set (head_list c) \<Longrightarrow> b \<in> set (head_list c) \<Longrightarrow> is_good_mac (us_mac (users c a)) \<Longrightarrow>
   us_mac (users c b) = us_mac (users c a) \<Longrightarrow> b = a"
  unfolding um_inv_def macs_unique_def by metis

text \<open>\<open>um_user_delbymac\<close> on a known MAC address returns 0, keeps the table consistent, removes exactly
  that user from the map and announces it with \<open>um.delete\<close> when the user is local and the event is on.\<close>

theorem um_user_delbymac_deletes:
  assumes "um_inv c" and "length mac = 6" and "user_map c mac = Some u"
  shows "\<exists>c'. um_user_delbymac env c mac = (0, c') \<and> um_inv c'
    \<and> (\<forall>m. length m = 6 \<longrightarrow> user_map c' m = ((user_map c)(mac := None)) m)
    \<and> msgs c' = msgs c @ delete_msgs env u"
proof -
  obtain a where a: "um_user_getbymac c mac = Some a" "users c a = u"
    using assms(3) by (auto simp: user_map_def)
  then have l: "a \<in> set (head_list c)" "us_mac (users c a) = mac" "is_good_mac mac"
    using getbymac_iff [OF assms(1,2)] by auto
  obtain c' where c': "um_user_del env c (Some a) = (0, c')" "um_inv c'" "head_list c' = remove1 a (head_list c)"
    "users c' = users c" "msgs c' = msgs c @ delete_msgs env u"
    using um_user_del_run [OF assms(1) l(1), of env] a(2) by blast
  have s: "b \<in> set (head_list c') \<longleftrightarrow> b \<in> set (head_list c) \<and> b \<noteq> a" for b
    unfolding c'(3) by (rule remove1_mem_distinct [OF um_inv_distinct [OF assms(1)]])
  have u: "b = a" if "b \<in> set (head_list c)" "us_mac (users c b) = mac" for b
    using um_inv_mac_inj [OF assms(1) l(1) that(1)] l(2,3) that(2) by simp
  have "user_map c' m = ((user_map c)(mac := None)) m" if "length m = 6" for m
  proof (rule user_map_eqI [OF c'(2) that])
    fix v
    show "((user_map c)(mac := None)) m = Some v \<longleftrightarrow>
      is_good_mac m \<and> (\<exists>b\<in>set (head_list c'). us_mac (users c' b) = m \<and> users c' b = v)"
    proof (cases "m = mac")
      case True
      then show ?thesis
        using s u c'(4) by auto
    next
      case False
      have "(\<exists>b\<in>set (head_list c'). us_mac (users c' b) = m \<and> users c' b = v) \<longleftrightarrow>
        (\<exists>b\<in>set (head_list c). us_mac (users c b) = m \<and> users c b = v)"
        using s False l(2) unfolding c'(4) by metis
      then show ?thesis
        using False user_map_iff [OF assms(1) that, of v] by simp
    qed
  qed
  moreover have "um_user_delbymac env c mac = (0, c')"
    using a c'(1) by (simp add: um_user_delbymac_def um_user_del_def)
  ultimately show ?thesis
    using c' by blast
qed

subsection \<open>Updating a user\<close>

text \<open>Documented behaviour of \<open>malloc\<close>: a new block is none of the blocks in use.\<close>

definition malloc_fresh :: "um_env \<Rightarrow> bool" where
  "malloc_fresh env \<longleftrightarrow> (\<forall>c a. env_malloc env c = Some a \<longrightarrow> a \<notin> set (head_list c))"

definition new_user :: "um_env \<Rightarrow> u8 list \<Rightarrow> apuser" where
  "new_user env mac = (um_user_init True)\<lparr>us_mac := mac, us_wifi := (us_wifi (um_user_init True))\<lparr>wi_uptime := env_now env\<rparr>\<rparr>"

text \<open>
  The contract between the table and the functions that fill in a record: an update function changes the
  record only, keeps its MAC address, and sends messages.
\<close>

locale update_hook =
  fixes hook :: um_user_update_f
    and upd :: "bool \<Rightarrow> apuser \<Rightarrow> apuser \<Rightarrow> apuser"
    and sent :: "bool \<Rightarrow> apuser \<Rightarrow> apuser \<Rightarrow> um_msg list"
  assumes hook_upd: "fst (hook created u info c) = upd created u info"
    and hook_bus: "bus_only c (snd (hook created u info c))"
    and hook_msgs: "msgs (snd (hook created u info c)) = msgs c @ sent created u info"
    and upd_mac: "us_mac (upd created u info) = us_mac u"
begin

text \<open>Filling in a record that is off the list and putting it on.\<close>

lemma fill_insert:
  assumes "um_inv c" and "a \<notin> set (head_list c)" and "length (us_mac (users c a)) = 6"
    and "is_good_mac (us_mac (users c a)) \<Longrightarrow> \<forall>b\<in>set (head_list c). us_mac (users c b) \<noteq> us_mac (users c a)"
    and "v = upd created (users c a) info"
    and "d = snd (hook created (users c a) info c)"
  shows "\<exists>c'. insert_user (if created then Some (um_ubus_insert_cb env) else None) (d\<lparr>users := (users d)(a := v)\<rparr>) (Some a) = (0, c')
    \<and> um_inv c' \<and> head_list c' = a # head_list c \<and> users c' = (users c)(a := v)
    \<and> msgs c' = msgs c @ sent created (users c a) info @ (if created then new_msgs env v else [])
    \<and> uci_radio c' = uci_radio c \<and> uci_wlan c' = uci_wlan c"
proof -
  let ?e = "d\<lparr>users := (users d)(a := v)\<rparr>"
  have mac: "us_mac v = us_mac (users c a)"
    using assms(5) upd_mac by simp
  note d = bus_only_frame [OF hook_bus [of c created "users c a" info], folded assms(6)]
  have e: "um_inv ?e"
    by (rule um_inv_cong [OF assms(1)]) (use assms(2) d in auto)
  have fresh: "a \<notin> set (head_list ?e)"
    using assms(2) d by simp
  obtain c' where c': "insert_user None ?e (Some a) = (0, c')" "head_list c' = a # head_list ?e" "users c' = users ?e"
    "head_count c' = head_count ?e + 1"
    "head_mac c' = (if is_good_mac (us_mac (users ?e a))
         then (head_mac ?e)(hashmac (us_mac (users ?e a)) := a # head_mac ?e (hashmac (us_mac (users ?e a)))) else head_mac ?e)"
    "head_ip c' = (if us_ip (users ?e a) \<noteq> 0
         then (head_ip ?e)(haship (us_ip (users ?e a)) := a # head_ip ?e (haship (us_ip (users ?e a)))) else head_ip ?e)"
    "uci_radio c' = uci_radio ?e" "uci_wlan c' = uci_wlan ?e" "msgs c' = msgs ?e"
    "\<And>f. insert_user (Some f) ?e (Some a) = (0, f (users ?e a) c')"
    using insert_user_fresh [OF fresh] by blast
  have "um_inv c'"
  proof (rule inv_inserted [OF e fresh c'(2-6)])
    show "length (us_mac (users ?e a)) = 6"
      using assms(3) mac by simp
    assume "is_good_mac (us_mac (users ?e a))"
    then have "\<forall>b\<in>set (head_list c). us_mac (users c b) \<noteq> us_mac (users c a)"
      using assms(4) mac by simp
    then show "\<forall>b\<in>set (head_list ?e). us_mac (users ?e b) \<noteq> us_mac (users ?e a)"
      using assms(2) d mac by auto
  qed
  moreover have "msgs d = msgs c @ sent created (users c a) info"
    by (simp add: assms(6) hook_msgs)
  ultimately show ?thesis
    using c' d by (cases created) (simp_all add: um_inv_bus_only [OF bus_only_cb(1)])
qed

lemma reset_aging:
  "um_inv c \<Longrightarrow> um_inv (c\<lparr>users := (users c)(a := (users c a)\<lparr>us_aging := n\<rparr>)\<rparr>)"
  by (erule um_inv_cong) auto

lemma update_known:
  assumes "um_inv c" and "length (us_mac info) = 6" and "um_user_getbymac c (us_mac info) = Some a"
  shows "\<exists>c'. um_user_update env c info hook = (Some a, c') \<and> um_inv c' \<and> head_list c' = a # remove1 a (head_list c)
    \<and> users c' = (users c)(a := (upd False (users c a) info)\<lparr>us_aging := um_agtimes env\<rparr>)
    \<and> msgs c' = msgs c @ sent False (users c a) info \<and> uci_radio c' = uci_radio c \<and> uci_wlan c' = uci_wlan c"
proof -
  have a: "is_good_mac (us_mac info)" "a \<in> set (head_list c)" "us_mac (users c a) = us_mac info"
    using getbymac_iff [OF assms(1,2)] assms(3) by blast+
  obtain d where d: "remove_user None c (Some a) = (0, d)"
    using remove_user_listed [OF a(2)] by blast
  note r = remove_user_None_inv [OF assms(1) d]
  have off: "a \<notin> set (head_list d)"
    using r(2) um_inv_distinct [OF assms(1)] by simp
  have others: "\<forall>b\<in>set (head_list d). us_mac (users d b) \<noteq> us_mac (users d a)"
  proof
    fix b
    assume "b \<in> set (head_list d)"
    then have "b \<in> set (head_list c)" "b \<noteq> a"
      using r(2) remove1_mem_distinct [OF um_inv_distinct [OF assms(1)]] by simp_all
    then show "us_mac (users d b) \<noteq> us_mac (users d a)"
      using um_inv_mac_inj [OF assms(1) a(2)] a(1,3) unfolding r(3) by metis
  qed
  have len: "length (us_mac (users d a)) = 6"
    using a(3) assms(2) r(3) by simp
  let ?d = "snd (hook False (users d a) info d)" and ?v = "upd False (users d a) info"
  obtain e where e: "insert_user (if False then Some (um_ubus_insert_cb env) else None) (?d\<lparr>users := (users ?d)(a := ?v)\<rparr>) (Some a) = (0, e)"
    "um_inv e" "head_list e = a # head_list d" "users e = (users d)(a := ?v)"
    "msgs e = msgs d @ sent False (users d a) info @ (if False then new_msgs env ?v else [])"
    "uci_radio e = uci_radio d" "uci_wlan e = uci_wlan d"
    using fill_insert [OF r(1) off len others refl refl, where created = False and info = info and env = env] by blast
  have "um_user_update env c info hook =
      (Some a, e\<lparr>users := (users e)(a := (users e a)\<lparr>us_aging := um_agtimes env\<rparr>)\<rparr>)"
    using d e(1) by (simp add: um_user_update_def assms(3) split_beta hook_upd Let_def)
  then show ?thesis
    using e r reset_aging [OF e(2), of a "um_agtimes env"] by simp
qed

lemma update_new:
  assumes "um_inv c" and "length (us_mac info) = 6" and "um_user_getbymac c (us_mac info) = None"
    and "malloc_fresh env" and "env_malloc env c = Some a"
  shows "\<exists>c' v. um_user_update env c info hook = (Some a, c') \<and> um_inv c' \<and> head_list c' = a # head_list c
    \<and> v = upd True (new_user env (us_mac info)) info
    \<and> users c' = (users c)(a := v\<lparr>us_aging := um_agtimes env\<rparr>)
    \<and> msgs c' = msgs c @ sent True (new_user env (us_mac info)) info @ new_msgs env v
    \<and> uci_radio c' = uci_radio c \<and> uci_wlan c' = uci_wlan c"
proof -
  let ?d = "c\<lparr>users := (users c)(a := new_user env (us_mac info))\<rparr>"
  have off: "a \<notin> set (head_list c)"
    using assms(4,5) by (simp add: malloc_fresh_def)
  have create: "create_user env (us_mac info) c = (Some a, ?d)"
    using assms(2,5) by (simp add: create_user_def new_user_def os_maccpy_def OS_MACSIZE_def OS_ZEROMAC_def um_user_init_def)
  have inv: "um_inv ?d"
    by (rule um_inv_cong [OF assms(1)]) (use off in auto)
  have mac: "us_mac (users ?d a) = us_mac info"
    by (simp add: new_user_def)
  have others: "\<forall>b\<in>set (head_list ?d). us_mac (users ?d b) \<noteq> us_mac (users ?d a)" if "is_good_mac (us_mac (users ?d a))"
    using that assms(3) getbymac_None [OF assms(1,2)] off mac by auto
  let ?e = "snd (hook True (users ?d a) info ?d)" and ?v = "upd True (users ?d a) info"
  have off': "a \<notin> set (head_list ?d)" and len: "length (us_mac (users ?d a)) = 6"
    using off mac assms(2) by simp_all
  obtain e where e: "insert_user (if True then Some (um_ubus_insert_cb env) else None) (?e\<lparr>users := (users ?e)(a := ?v)\<rparr>) (Some a) = (0, e)"
    "um_inv e" "head_list e = a # head_list ?d" "users e = (users ?d)(a := ?v)"
    "msgs e = msgs ?d @ sent True (users ?d a) info @ (if True then new_msgs env ?v else [])"
    "uci_radio e = uci_radio ?d" "uci_wlan e = uci_wlan ?d"
    using fill_insert [OF inv off' len others refl refl, where created = True and info = info and env = env] by blast
  have "remove_user None ?d (Some a) = (0, ?d)"
    using off by (simp add: remove_user_def in_list_def)
  then have "um_user_update env c info hook =
      (Some a, e\<lparr>users := (users e)(a := (users e a)\<lparr>us_aging := um_agtimes env\<rparr>)\<rparr>)"
    using e(1) create by (simp add: um_user_update_def assms(3) split_beta hook_upd Let_def)
  then show ?thesis
    using e reset_aging [OF e(2), of a "um_agtimes env"] by simp
qed

lemma update_inv:
  assumes "um_inv c" and "length (us_mac info) = 6" and "malloc_fresh env"
    and "um_user_update env c info hook = (r, c')"
  shows "um_inv c' \<and> uci_radio c' = uci_radio c \<and> uci_wlan c' = uci_wlan c"
proof (cases "um_user_getbymac c (us_mac info)")
  case (Some a)
  show ?thesis
    using update_known [OF assms(1,2) Some, of env] assms(4) by auto
next
  case None
  show ?thesis
  proof (cases "env_malloc env c")
    case (Some a)
    show ?thesis
      using update_new [OF assms(1,2) None assms(3) Some] assms(4) by auto
  next
    case no: None
    show ?thesis
      using assms(1,4) by (simp add: um_user_update_def None create_user_def no)
  qed
qed

text \<open>On the map, an update sets one key.\<close>

lemma update_map:
  assumes "um_inv c" and "length (us_mac info) = 6" and "is_good_mac (us_mac info)" and "malloc_fresh env"
    and "user_map c (us_mac info) = None \<Longrightarrow> env_malloc env c \<noteq> None"
    and "v = (case user_map c (us_mac info) of Some u \<Rightarrow> upd False u info | None \<Rightarrow> upd True (new_user env (us_mac info)) info)"
  shows "\<exists>a c'. um_user_update env c info hook = (Some a, c') \<and> um_inv c'
    \<and> (\<forall>m. length m = 6 \<longrightarrow> user_map c' m = ((user_map c)(us_mac info \<mapsto> v\<lparr>us_aging := um_agtimes env\<rparr>)) m)
    \<and> um_user_getbymac c' (us_mac info) = Some a"
proof -
  have "\<exists>a c'. um_user_update env c info hook = (Some a, c') \<and> um_inv c'
    \<and> set (head_list c') = insert a (set (head_list c)) \<and> users c' = (users c)(a := v\<lparr>us_aging := um_agtimes env\<rparr>)
    \<and> us_mac v = us_mac info \<and> (a \<in> set (head_list c) \<longrightarrow> us_mac (users c a) = us_mac info)"
  proof (cases "um_user_getbymac c (us_mac info)")
    case (Some a)
    then have "a \<in> set (head_list c)" "us_mac (users c a) = us_mac info"
      using getbymac_iff [OF assms(1,2)] by blast+
    then show ?thesis
      using update_known [OF assms(1,2) Some, of env] assms(6) Some upd_mac um_inv_distinct [OF assms(1)]
      by (auto simp: user_map_def)
  next
    case None
    then obtain a where a: "env_malloc env c = Some a"
      using assms(5) by (auto simp: user_map_def)
    moreover have "a \<notin> set (head_list c)"
      using a assms(4) by (simp add: malloc_fresh_def)
    ultimately show ?thesis
      using update_new [OF assms(1,2) None assms(4) a] assms(6) None upd_mac
      by (auto simp: user_map_def new_user_def)
  qed
  then obtain a c' where c': "um_user_update env c info hook = (Some a, c')" "um_inv c'"
    "set (head_list c') = insert a (set (head_list c))" "users c' = (users c)(a := v\<lparr>us_aging := um_agtimes env\<rparr>)"
    "us_mac v = us_mac info" "a \<in> set (head_list c) \<Longrightarrow> us_mac (users c a) = us_mac info"
    by blast
  have found: "um_user_getbymac c' (us_mac info) = Some a"
    using c' assms(3) getbymac_iff [OF c'(2) assms(2)] by simp
  have "user_map c' m = ((user_map c)(us_mac info \<mapsto> v\<lparr>us_aging := um_agtimes env\<rparr>)) m" if "length m = 6" for m
  proof (cases "m = us_mac info")
    case True
    then show ?thesis
      using found c'(4) by (simp add: user_map_def)
  next
    case False
    have "(\<exists>b\<in>set (head_list c'). us_mac (users c' b) = m \<and> users c' b = u) \<longleftrightarrow>
      (\<exists>b\<in>set (head_list c). us_mac (users c b) = m \<and> users c b = u)" for u
      unfolding c'(3,4) using False c'(5,6) by (metis fun_upd_apply insert_iff apuser.select_convs(2) apuser.surjective apuser.update_convs(11))
    then show ?thesis
      using False user_map_iff [OF assms(1) that] by (intro user_map_eqI [OF c'(2) that]) simp
  qed
  then show ?thesis
    using c'(1,2) found by blast
qed

end

subsection \<open>Walking over all users\<close>

text \<open>
  The callbacks of \<open>um_user_foreach\<close> that keep house: they change the record they are given, but not its keys,
  and then may delete it.
\<close>

locale sweep =
  fixes cb :: "unit um_foreach_f" and env :: um_env and upd :: "apuser \<Rightarrow> apuser" and gone :: "apuser \<Rightarrow> bool"
  assumes cb_run: "cb a d c = (mv2_OK, d, let c = c\<lparr>users := (users c)(a := upd (users c a))\<rparr>
      in if gone (users c a) then snd (um_user_del env c (Some a)) else c)"
    and upd_keys: "us_mac (upd u) = us_mac u" "us_ip (upd u) = us_ip u"
begin

definition gone_msgs :: "apuser \<Rightarrow> um_msg list" where
  "gone_msgs u = (if gone (upd u) then delete_msgs env (upd u) else [])"

lemma cb_step:
  assumes "um_inv c" and "a \<in> set (head_list c)"
  shows "\<exists>c'. cb a d c = (mv2_OK, d, c') \<and> um_inv c' \<and> head_list c' = filter (\<lambda>b. b = a \<longrightarrow> \<not> gone (upd (users c a))) (head_list c)
    \<and> users c' = (users c)(a := upd (users c a)) \<and> msgs c' = msgs c @ gone_msgs (users c a)
    \<and> uci_radio c' = uci_radio c \<and> uci_wlan c' = uci_wlan c"
proof -
  let ?c = "c\<lparr>users := (users c)(a := upd (users c a))\<rparr>"
  have inv: "um_inv ?c"
    by (rule um_inv_cong [OF assms(1)]) (auto simp: upd_keys)
  show ?thesis
  proof (cases "gone (upd (users c a))")
    case True
    obtain c' where "um_user_del env ?c (Some a) = (0, c')" "um_inv c'" "head_list c' = remove1 a (head_list ?c)"
      "users c' = users ?c" "msgs c' = msgs ?c @ delete_msgs env (users ?c a)" "uci_radio c' = uci_radio ?c" "uci_wlan c' = uci_wlan ?c"
      using um_user_del_run [OF inv, of a env] assms(2) by auto
    then show ?thesis
      using True remove1_filter_distinct [OF um_inv_distinct [OF assms(1)], of a]
      by (simp add: cb_run gone_msgs_def)
  next
    case False
    then show ?thesis
      using inv by (simp add: cb_run gone_msgs_def)
  qed
qed

lemma sweep_loop:
  "um_inv c \<Longrightarrow> distinct xs \<Longrightarrow> set xs \<subseteq> set (head_list c) \<Longrightarrow>
   \<exists>c'. um_user_foreach_loop cb xs d c = (0, d, c') \<and> um_inv c'
    \<and> head_list c' = filter (\<lambda>a. a \<in> set xs \<longrightarrow> \<not> gone (upd (users c a))) (head_list c)
    \<and> users c' = (\<lambda>a. if a \<in> set xs then upd (users c a) else users c a)
    \<and> msgs c' = msgs c @ concat (map (\<lambda>a. gone_msgs (users c a)) xs)
    \<and> uci_radio c' = uci_radio c \<and> uci_wlan c' = uci_wlan c"
proof (induction xs arbitrary: c)
  case Nil
  then show ?case
    by simp
next
  case (Cons a xs)
  then have a: "a \<in> set (head_list c)" "a \<notin> set xs" "distinct xs" "set xs \<subseteq> set (head_list c)"
    by simp_all
  obtain c1 where c1: "cb a d c = (mv2_OK, d, c1)" "um_inv c1"
    "head_list c1 = filter (\<lambda>b. b = a \<longrightarrow> \<not> gone (upd (users c a))) (head_list c)"
    "users c1 = (users c)(a := upd (users c a))" "msgs c1 = msgs c @ gone_msgs (users c a)"
    "uci_radio c1 = uci_radio c" "uci_wlan c1 = uci_wlan c"
    using cb_step [OF Cons.prems(1) a(1)] by blast
  have others: "users c1 b = users c b" if "b \<in> set xs" for b
    using that a(2) c1(4) by auto
  have "set xs \<subseteq> set (head_list c1)"
    using a(2,4) c1(3) by auto
  then obtain c' where c': "um_user_foreach_loop cb xs d c1 = (0, d, c')" "um_inv c'"
    "head_list c' = filter (\<lambda>b. b \<in> set xs \<longrightarrow> \<not> gone (upd (users c1 b))) (head_list c1)"
    "users c' = (\<lambda>b. if b \<in> set xs then upd (users c1 b) else users c1 b)"
    "msgs c' = msgs c1 @ concat (map (\<lambda>b. gone_msgs (users c1 b)) xs)"
    "uci_radio c' = uci_radio c1" "uci_wlan c' = uci_wlan c1"
    using Cons.IH [OF c1(2) a(3)] by blast
  have "head_list c' = filter (\<lambda>b. b \<in> set (a # xs) \<longrightarrow> \<not> gone (upd (users c b))) (head_list c)"
    unfolding c'(3) c1(3) filter_filter using others by (intro filter_cong) auto
  moreover have "users c' = (\<lambda>b. if b \<in> set (a # xs) then upd (users c b) else users c b)"
    unfolding c'(4) using others c1(4) a(2) by (intro ext) auto
  moreover have "msgs c' = msgs c @ concat (map (\<lambda>b. gone_msgs (users c b)) (a # xs))"
    unfolding c'(5) c1(5) using others by (simp cong: map_cong)
  ultimately show ?case
    using c1(1,6,7) c'(1,2,6,7) by simp
qed

theorem sweep_run:
  assumes "um_inv c"
  shows "\<exists>c'. um_user_foreach cb d c = (0, d, c') \<and> um_inv c'
    \<and> head_list c' = filter (\<lambda>a. \<not> gone (upd (users c a))) (head_list c)
    \<and> (\<forall>a\<in>set (head_list c). users c' a = upd (users c a))
    \<and> msgs c' = msgs c @ concat (map (\<lambda>a. gone_msgs (users c a)) (head_list c))
    \<and> uci_radio c' = uci_radio c \<and> uci_wlan c' = uci_wlan c"
  using sweep_loop [OF assms um_inv_distinct [OF assms] subset_refl, of d]
  by (auto simp: um_user_foreach_def cong: filter_cong)

theorem sweep_map:
  assumes "um_inv c" and "um_user_foreach cb d c = (e, d', c')" and "length m = 6"
  shows "user_map c' m = (case user_map c m of None \<Rightarrow> None | Some u \<Rightarrow> if gone (upd u) then None else Some (upd u))"
proof -
  have c': "um_inv c'" "head_list c' = filter (\<lambda>a. \<not> gone (upd (users c a))) (head_list c)"
    "\<forall>a\<in>set (head_list c). users c' a = upd (users c a)"
    using sweep_run [OF assms(1), of d] assms(2) by auto
  show ?thesis
  proof (rule user_map_eqI [OF c'(1) assms(3)])
    fix v
    have old: "user_map c m = Some u \<longleftrightarrow> is_good_mac m \<and> (\<exists>a\<in>set (head_list c). us_mac (users c a) = m \<and> users c a = u)" for u
      by (rule user_map_iff [OF assms(1,3)])
    have "(case user_map c m of None \<Rightarrow> None | Some u \<Rightarrow> if gone (upd u) then None else Some (upd u)) = Some v
      \<longleftrightarrow> (\<exists>u. user_map c m = Some u \<and> \<not> gone (upd u) \<and> v = upd u)"
      by (auto split: option.splits if_splits)
    also have "\<dots> \<longleftrightarrow> is_good_mac m \<and> (\<exists>a\<in>set (head_list c'). us_mac (users c' a) = m \<and> users c' a = v)"
      using c'(2,3) upd_keys(1) unfolding old by fastforce
    finally show "(case user_map c m of None \<Rightarrow> None | Some u \<Rightarrow> if gone (upd u) then None else Some (upd u)) = Some v
      \<longleftrightarrow> is_good_mac m \<and> (\<exists>a\<in>set (head_list c'). us_mac (users c' a) = m \<and> users c' a = v)" .
  qed
qed

end

interpretation delby: sweep "delby_cb env flt" env "\<lambda>u. u" "\<lambda>u. match u flt" for env flt
  by unfold_locales (simp_all add: delby_cb_def um_user_del_def split_beta)

text \<open>C30: \<open>um_user_delby\<close> deletes exactly the users for which \<open>match\<close> is true: it returns 0, keeps the table
  consistent, keeps every other user unchanged and in its place, and sends one \<open>um.delete\<close> for each
  deleted local user, in list order, when that event is on. What matches is what \<open>match\<close> in \<open>user.c\<close> computes, and that is not what \<open>um.h\<close>
  says about its masks: there a zero mask means that the address is not used as a filter, in the code it means that the address must be equal;
  and with another mask a MAC address matches when it differs from the filter in every byte under the mask.\<close>

theorem um_user_delby_exact:
  assumes "um_inv c"
  shows "\<exists>c'. um_user_delby env flt c = (0, c') \<and> um_inv c'
    \<and> head_list c' = filter (\<lambda>a. \<not> match (users c a) flt) (head_list c)
    \<and> (\<forall>a\<in>set (head_list c). users c' a = users c a)
    \<and> msgs c' = msgs c @ concat (map (\<lambda>a. delete_msgs env (users c a)) (filter (\<lambda>a. match (users c a) flt) (head_list c)))
    \<and> uci_radio c' = uci_radio c \<and> uci_wlan c' = uci_wlan c"
proof -
  have "concat (map (\<lambda>a. delby.gone_msgs env flt (users c a)) xs)
    = concat (map (\<lambda>a. delete_msgs env (users c a)) (filter (\<lambda>a. match (users c a) flt) xs))" for xs
    by (induction xs) (simp_all add: delby.gone_msgs_def)
  then show ?thesis
    using delby.sweep_run [OF assms, of env flt "()"] by (auto simp: um_user_delby_def)
qed

subsection \<open>A table with one user\<close>

definition sample_env :: um_env where
  "sample_env = \<lparr>env_now = 1000, env_agtimes = 2, env_ev_new = True, env_ev_delete = True, env_ev_update = False,
     env_ev_report = True, env_malloc = (\<lambda>c. Some (sum_list (head_list c) + 1))\<rparr>"

definition sample_user :: apuser where
  "sample_user = (um_user_init True)\<lparr>us_mac := [0, 1, 2, 3, 4, 5], us_ip := 0x0a000001, us_wlanid := 1\<rparr>"

definition sample_um :: um_control where
  "sample_um = snd (insert_user None (umc_init\<lparr>users := (\<lambda>_. sample_user)\<rparr>) (Some 1))"

lemma sample_env_fresh: "malloc_fresh sample_env"
  by (auto simp: malloc_fresh_def sample_env_def dest: member_le_sum_list)

lemma sample_um_table: "head_list sample_um = [1]" "users sample_um a = sample_user"
  by (simp_all add: sample_um_def insert_user_def in_list_def umc_init_def Let_def)

lemma sample_user_mac: "us_mac sample_user = [0, 1, 2, 3, 4, 5]" "is_good_mac [0, 1, 2, 3, 4, 5]"
  by (simp add: sample_user_def) code_simp

lemma sample_um_inv: "um_inv sample_um"
proof -
  let ?c = "umc_init\<lparr>users := (\<lambda>_. sample_user)\<rparr>"
  have c: "um_inv ?c" "1 \<notin> set (head_list ?c)"
    by (auto simp: umc_init_def intro: um_inv_cong [OF um_inv_init])
  then show ?thesis
    unfolding sample_um_def using insert_user_fresh [OF c(2)] inv_inserted [OF c]
    by (fastforce simp: sample_user_mac umc_init_def)
qed

lemma sample_um_map: "user_map sample_um [0, 1, 2, 3, 4, 5] = Some sample_user"
  by (subst user_map_iff [OF sample_um_inv]) (simp_all add: sample_um_table sample_user_mac)

theorem um_user_delbymac_deletes_witness:
  "\<exists>c'. um_user_delbymac sample_env sample_um [0, 1, 2, 3, 4, 5] = (0, c') \<and> um_inv c'
    \<and> (\<forall>m. length m = 6 \<longrightarrow> user_map c' m = ((user_map sample_um)([0, 1, 2, 3, 4, 5] := None)) m)
    \<and> msgs c' = msgs sample_um @ delete_msgs sample_env sample_user"
  using um_user_delbymac_deletes [OF sample_um_inv _ sample_um_map, of sample_env] by simp

theorem um_user_delby_exact_witness:
  "\<exists>c'. um_user_delby sample_env ((USER_FILTER_INITER True)\<lparr>uf_wlanid := 1\<rparr>) sample_um = (0, c') \<and> head_list c' = []"
proof -
  have "match sample_user ((USER_FILTER_INITER True)\<lparr>uf_wlanid := 1\<rparr>)"
    by (simp add: match_def USER_FILTER_INITER_def sample_user_def um_user_init_def macmatch_def ipmatch_def
        is_good_mac_iff OS_ZEROMAC_def)
  then show ?thesis
    using um_user_delby_exact [OF sample_um_inv, of sample_env "(USER_FILTER_INITER True)\<lparr>uf_wlanid := 1\<rparr>"]
    by (auto simp: sample_um_table)
qed

end
