(* ===== verification/Um_Uci.thy ===== *)
theory Um_Uci
  imports Um_User Os_String
begin

text \<open>
  Loading the wireless configuration (\<open>um/uci.c\<close>). The uci library is outside: what it delivers is a list
  of sections with the values of the options the policies of \<open>um.h\<close> name, or nothing when the package
  cannot be loaded. Each kind of interface has a list \<open>cfg\<close> in force and a list \<open>tmp\<close> just loaded;
  \<open>intf_compare\<close> deletes what is gone, together with its users, and moves what is new.

  An interface is its record; \<open>list_add\<close> puts it at the head of a list. The numbers in interface names are
  those an \<open>int\<close> holds.
\<close>

subsection \<open>The code\<close>

record uci_section =
  sec_type :: "u8 list"
  sec_name :: "u8 list"
  sec_disable :: "bool option"
  sec_ifname :: "u8 list option"

definition OS_IFNAMELEN :: nat where "OS_IFNAMELEN = 15"

definition UM_UCI_INTF_RADIO :: "u8 list" where "UM_UCI_INTF_RADIO = asc ''wifi-device''"
definition UM_UCI_INTF_WLAN :: "u8 list" where "UM_UCI_INTF_WLAN = asc ''wifi-iface''"

definition deluser_byif :: "um_env \<Rightarrow> um_intf \<Rightarrow> um_control \<Rightarrow> um_control" where
  "deluser_byif env intf c =
     (let f = USER_FILTER_INITER True
      in case if_type intf of
           UM_INTF_RADIO \<Rightarrow> snd (um_user_delby env (f\<lparr>uf_radioid := if_radioid intf\<rparr>) c)
         | UM_INTF_WLAN \<Rightarrow> snd (um_user_delby env (f\<lparr>uf_radioid := if_radioid intf, uf_wlanid := if_wlanid intf\<rparr>) c)
         | UM_INTF_END \<Rightarrow> c)"

text \<open>The zeroed record with the name copied into the field of \<open>1 + OS_IFNAMELEN\<close> bytes; \<open>alloc\<close> tells for
  which names the allocation succeeds.\<close>

definition intf_create :: "(u8 list \<Rightarrow> bool) \<Rightarrow> u8 list \<Rightarrow> um_intf option" where
  "intf_create alloc ifname = (if alloc ifname
     then Some \<lparr>if_type = UM_INTF_RADIO, if_ifname = strlcpy_loop ifname OS_IFNAMELEN, if_radioid = 0, if_wlanid = 0\<rparr>
     else None)"

definition load_intf_disabled :: "uci_section \<Rightarrow> bool" where
  "load_intf_disabled s = (case sec_disable s of Some p \<Rightarrow> p | None \<Rightarrow> False)"

text \<open>\<open>__load_intf\<close>; the caller goes on filling in the record it returns, which heads the list.\<close>

definition load_intf_one :: "(u8 list \<Rightarrow> bool) \<Rightarrow> u8 list \<Rightarrow> uci_section \<Rightarrow> um_intf option" where
  "load_intf_one alloc ifname s = (if load_intf_disabled s then None else intf_create alloc ifname)"

definition scan_lit :: "u8 list \<Rightarrow> u8 list \<Rightarrow> u8 list option" where
  "scan_lit lit s = (if take (length lit) s = lit then Some (drop (length lit) s) else None)"

definition scan_radio :: "u8 list \<Rightarrow> int option" where
  "scan_radio s = Option.bind (scan_lit (asc ''radio'') s) (\<lambda>s. map_option fst (scan_d s))"

definition scan_wlan :: "u8 list \<Rightarrow> int \<times> int" where
  "scan_wlan s = (case Option.bind (scan_lit (asc ''wlan'') s) scan_d of
      None \<Rightarrow> (0, 0)
    | Some (radioid, s) \<Rightarrow> (case Option.bind (scan_lit [45] s) scan_d of
          None \<Rightarrow> (radioid, 0)
        | Some (wlanid, _) \<Rightarrow> (radioid, wlanid)))"

definition load_radio :: "(u8 list \<Rightarrow> bool) \<Rightarrow> uci_section \<Rightarrow> um_intf list \<Rightarrow> int \<times> um_intf list" where
  "load_radio alloc s head =
     (let ifname = sec_name s
      in case load_intf_one alloc ifname s of
           None \<Rightarrow> (0, head)
         | Some intf \<Rightarrow>
            let intf = intf\<lparr>if_type := UM_INTF_RADIO\<rparr>
            in (case scan_radio ifname of
                  None \<Rightarrow> (err EFORMAT, intf # head)
                | Some radioid \<Rightarrow> (0, intf\<lparr>if_radioid := radioid\<rparr> # head)))"

definition load_wlan :: "(u8 list \<Rightarrow> bool) \<Rightarrow> uci_section \<Rightarrow> um_intf list \<Rightarrow> int \<times> um_intf list" where
  "load_wlan alloc s head = (case sec_ifname s of
      None \<Rightarrow> (err ENOEXIST, head)
    | Some ifname \<Rightarrow> (case load_intf_one alloc ifname s of
          None \<Rightarrow> (err ENOMEM, head)
        | Some intf \<Rightarrow>
           let (radioid, wlanid) = scan_wlan ifname
           in (0, intf\<lparr>if_type := UM_INTF_WLAN, if_radioid := radioid, if_wlanid := wlanid\<rparr> # head)))"

definition load_intf :: "u8 list \<Rightarrow> (uci_section \<Rightarrow> um_intf list \<Rightarrow> int \<times> um_intf list) \<Rightarrow> uci_section list \<Rightarrow> um_uci \<Rightarrow> um_uci" where
  "load_intf uci_type load wireless uci =
     uci\<lparr>uci_tmp := fold (\<lambda>s tmp. if sec_type s = uci_type then snd (load s tmp) else tmp) wireless (uci_tmp uci)\<rparr>"

definition has_ifname :: "um_intf list \<Rightarrow> u8 list \<Rightarrow> bool" where
  "has_ifname l n = (\<exists>i\<in>set l. if_ifname i = n)"

text \<open>The first loop of \<open>intf_compare\<close>: what is left of \<open>cfg\<close>, and the table.\<close>

fun compare_delete :: "um_env \<Rightarrow> um_intf list \<Rightarrow> um_intf list \<Rightarrow> um_control \<Rightarrow> um_intf list \<times> um_control" where
  "compare_delete env tmp [] c = ([], c)"
| "compare_delete env tmp (intf_cfg # cfg) c =
     (if has_ifname tmp (if_ifname intf_cfg)
      then (let (cfg', c) = compare_delete env tmp cfg c in (intf_cfg # cfg', c))
      else compare_delete env tmp cfg (deluser_byif env intf_cfg c))"

text \<open>The second loop: what is left of \<open>tmp\<close>, and the new \<open>cfg\<close>.\<close>

fun compare_move :: "um_intf list \<Rightarrow> um_intf list \<Rightarrow> um_intf list \<times> um_intf list" where
  "compare_move [] cfg = ([], cfg)"
| "compare_move (intf_tmp # tmp) cfg =
     (if has_ifname cfg (if_ifname intf_tmp)
      then (let (tmp', cfg') = compare_move tmp cfg in (intf_tmp # tmp', cfg'))
      else compare_move tmp (intf_tmp # cfg))"

definition compare_uci :: "um_env \<Rightarrow> um_uci \<Rightarrow> um_control \<Rightarrow> um_uci \<times> um_control" where
  "compare_uci env u c =
     (let (cfg, c) = compare_delete env (uci_tmp u) (uci_cfg u) c;
          (tmp, cfg) = compare_move (uci_tmp u) cfg
      in (\<lparr>uci_cfg = cfg, uci_tmp = tmp\<rparr>, c))"

definition intf_compare :: "um_env \<Rightarrow> intf_type \<Rightarrow> um_control \<Rightarrow> int \<times> um_control" where
  "intf_compare env type c = (case type of
      UM_INTF_RADIO \<Rightarrow> (let (u, c) = compare_uci env (uci_radio c) c in (0, c\<lparr>uci_radio := u\<rparr>))
    | UM_INTF_WLAN \<Rightarrow> (let (u, c) = compare_uci env (uci_wlan c) c in (0, c\<lparr>uci_wlan := u\<rparr>))
    | UM_INTF_END \<Rightarrow> (err EINVAL0, c))"

text \<open>\<open>buf\<close> is what the calls of \<open>section_to_blob\<close> make of the blob buffer.\<close>

definition load_wireless :: "um_env \<Rightarrow> (u8 list \<Rightarrow> bool) \<Rightarrow> (blob list \<Rightarrow> blob list) \<Rightarrow> uci_section list \<Rightarrow> um_control \<Rightarrow> int \<times> um_control" where
  "load_wireless env alloc buf wireless c =
     (let c = c\<lparr>uci_radio := load_intf UM_UCI_INTF_RADIO (load_radio alloc) wireless (uci_radio c)\<rparr>;
          c = c\<lparr>uci_wlan := load_intf UM_UCI_INTF_WLAN (load_wlan alloc) wireless (uci_wlan c)\<rparr>;
          c = c\<lparr>blob_b := buf (blob_b c)\<rparr>;
          (_, c) = intf_compare env UM_INTF_RADIO c;
          (_, c) = intf_compare env UM_INTF_WLAN c
      in (0, c))"

definition um_uci_load :: "um_env \<Rightarrow> (u8 list \<Rightarrow> bool) \<Rightarrow> (blob list \<Rightarrow> blob list) \<Rightarrow> uci_section list option \<Rightarrow> um_control \<Rightarrow> int \<times> um_control" where
  "um_uci_load env alloc buf wireless c = (case wireless of
      None \<Rightarrow> (err EINVAL1, c)
    | Some w \<Rightarrow> load_wireless env alloc buf w c)"

subsection \<open>Comparing the lists\<close>

text \<open>The users \<open>deluser_byif\<close> deletes.\<close>

definition on_intf :: "um_intf \<Rightarrow> apuser \<Rightarrow> bool" where
  "on_intf intf u = (case if_type intf of
      UM_INTF_RADIO \<Rightarrow> match u ((USER_FILTER_INITER True)\<lparr>uf_radioid := if_radioid intf\<rparr>)
    | UM_INTF_WLAN \<Rightarrow> match u ((USER_FILTER_INITER True)\<lparr>uf_radioid := if_radioid intf, uf_wlanid := if_wlanid intf\<rparr>)
    | UM_INTF_END \<Rightarrow> False)"

lemma on_intf_iff:
  "on_intf i u \<longleftrightarrow> us_local u \<and> if_type i \<noteq> UM_INTF_END \<and> (0 \<le> if_radioid i \<longrightarrow> us_radioid u = if_radioid i)
     \<and> (if_type i = UM_INTF_WLAN \<and> 0 \<le> if_wlanid i \<longrightarrow> us_wlanid u = if_wlanid i)"
  by (auto simp: on_intf_def match_def USER_FILTER_INITER_def macmatch_def ipmatch_def is_good_mac_iff OS_ZEROMAC_def
      split: intf_type.splits)

text \<open>Dropping users from the table without touching the others.\<close>

definition users_kept :: "(apuser \<Rightarrow> bool) \<Rightarrow> um_control \<Rightarrow> um_control \<Rightarrow> bool" where
  "users_kept keep c c' \<longleftrightarrow> um_inv c' \<and> head_list c' = filter (\<lambda>a. keep (users c a)) (head_list c)
     \<and> (\<forall>a\<in>set (head_list c'). users c' a = users c a) \<and> uci_radio c' = uci_radio c \<and> uci_wlan c' = uci_wlan c"

lemma users_kept_refl: "um_inv c \<Longrightarrow> users_kept (\<lambda>_. True) c c"
  by (simp add: users_kept_def)

lemma users_kept_trans:
  assumes "users_kept p c c1" and "users_kept q c1 c2"
  shows "users_kept (\<lambda>u. p u \<and> q u) c c2"
proof -
  have "head_list c2 = filter (\<lambda>a. p (users c a) \<and> q (users c a)) (head_list c)"
  proof -
    have "head_list c2 = filter (\<lambda>a. p (users c a) \<and> q (users c1 a)) (head_list c)"
      using assms by (simp add: users_kept_def conj_commute)
    also have "\<dots> = filter (\<lambda>a. p (users c a) \<and> q (users c a)) (head_list c)"
      using assms(1) by (intro filter_cong) (auto simp: users_kept_def)
    finally show ?thesis .
  qed
  then show ?thesis
    using assms unfolding users_kept_def by auto
qed

lemma deluser_byif_kept:
  assumes "um_inv c"
  shows "users_kept (\<lambda>u. \<not> on_intf i u) c (deluser_byif env i c)"
proof -
  have "users_kept (\<lambda>u. \<not> match u flt) c (snd (um_user_delby env flt c))" for flt
    using delby.sweep_run [OF assms, of env flt "()"] by (auto simp: um_user_delby_def users_kept_def)
  then show ?thesis
    using users_kept_refl [OF assms] by (cases "if_type i") (simp_all add: deluser_byif_def on_intf_def Let_def)
qed

text \<open>The interfaces of \<open>cfg\<close> that a comparison with \<open>tmp\<close> drops.\<close>

definition dropped :: "um_intf list \<Rightarrow> um_intf list \<Rightarrow> um_intf list" where
  "dropped tmp cfg = filter (\<lambda>i. \<not> has_ifname tmp (if_ifname i)) cfg"

lemma compare_delete_run:
  "um_inv c \<Longrightarrow> \<exists>c'. compare_delete env tmp cfg c = (filter (\<lambda>i. has_ifname tmp (if_ifname i)) cfg, c')
    \<and> users_kept (\<lambda>u. \<forall>i\<in>set (dropped tmp cfg). \<not> on_intf i u) c c'"
proof (induction cfg arbitrary: c)
  case Nil
  then show ?case
    by (simp add: users_kept_refl dropped_def)
next
  case (Cons i cfg)
  show ?case
  proof (cases "has_ifname tmp (if_ifname i)")
    case True
    then show ?thesis
      using Cons.IH [OF Cons.prems] by (auto simp: dropped_def)
  next
    case False
    have k: "users_kept (\<lambda>u. \<not> on_intf i u) c (deluser_byif env i c)"
      by (rule deluser_byif_kept [OF Cons.prems])
    then obtain c' where "compare_delete env tmp cfg (deluser_byif env i c) = (filter (\<lambda>i. has_ifname tmp (if_ifname i)) cfg, c')"
      "users_kept (\<lambda>u. \<forall>i\<in>set (dropped tmp cfg). \<not> on_intf i u) (deluser_byif env i c) c'"
      using Cons.IH [of "deluser_byif env i c"] unfolding users_kept_def by blast
    then show ?thesis
      using False users_kept_trans [OF k] by (simp add: dropped_def)
  qed
qed

lemma has_ifname_simps [simp]:
  "has_ifname [] n \<longleftrightarrow> False" "has_ifname (i # l) n \<longleftrightarrow> if_ifname i = n \<or> has_ifname l n"
  "has_ifname (filter (\<lambda>i. P (if_ifname i)) l) n \<longleftrightarrow> has_ifname l n \<and> P n"
  by (auto simp: has_ifname_def)

lemma compare_move_names:
  "compare_move tmp cfg = (tmp', cfg') \<Longrightarrow>
   (has_ifname cfg' n \<longleftrightarrow> has_ifname cfg n \<or> has_ifname tmp n) \<and> (has_ifname tmp' n \<longrightarrow> has_ifname tmp n)
   \<and> (has_ifname cfg n \<and> has_ifname tmp n \<longrightarrow> has_ifname tmp' n)"
  by (induction tmp cfg arbitrary: tmp' cfg' rule: compare_move.induct) (auto split: if_splits prod.splits)

text \<open>What a comparison does to the lists and to the table.\<close>

lemma compare_uci_run:
  assumes "um_inv c"
  shows "\<exists>u' c'. compare_uci env u c = (u', c')
    \<and> users_kept (\<lambda>x. \<forall>i\<in>set (dropped (uci_tmp u) (uci_cfg u)). \<not> on_intf i x) c c'
    \<and> (\<forall>n. has_ifname (uci_cfg u') n \<longleftrightarrow> has_ifname (uci_tmp u) n)
    \<and> (\<forall>n. has_ifname (uci_cfg u) n \<and> has_ifname (uci_tmp u) n \<longrightarrow> has_ifname (uci_tmp u') n)"
proof -
  obtain c' where d: "compare_delete env (uci_tmp u) (uci_cfg u) c
      = (filter (\<lambda>i. has_ifname (uci_tmp u) (if_ifname i)) (uci_cfg u), c')"
    "users_kept (\<lambda>x. \<forall>i\<in>set (dropped (uci_tmp u) (uci_cfg u)). \<not> on_intf i x) c c'"
    using compare_delete_run [OF assms] by blast
  obtain tmp cfg where m: "compare_move (uci_tmp u) (filter (\<lambda>i. has_ifname (uci_tmp u) (if_ifname i)) (uci_cfg u)) = (tmp, cfg)"
    by fastforce
  have "compare_uci env u c = (\<lparr>uci_cfg = cfg, uci_tmp = tmp\<rparr>, c')"
    by (simp add: compare_uci_def d(1) m)
  moreover have "has_ifname cfg n \<longleftrightarrow> has_ifname (uci_tmp u) n"
    and "has_ifname (uci_cfg u) n \<and> has_ifname (uci_tmp u) n \<longrightarrow> has_ifname tmp n" for n
    using compare_move_names [OF m, of n] by auto
  ultimately show ?thesis
    using d(2) by (intro exI [of _ "\<lparr>uci_cfg = cfg, uci_tmp = tmp\<rparr>"] exI [of _ c'] conjI) simp_all
qed

subsection \<open>Loading\<close>

text \<open>The interface names a package asks for.\<close>

definition radio_loaded :: "(u8 list \<Rightarrow> bool) \<Rightarrow> uci_section list \<Rightarrow> u8 list \<Rightarrow> bool" where
  "radio_loaded alloc w n \<longleftrightarrow> (\<exists>s\<in>set w. sec_type s = UM_UCI_INTF_RADIO \<and> \<not> load_intf_disabled s \<and> alloc (sec_name s)
     \<and> n = strlcpy_loop (sec_name s) OS_IFNAMELEN)"

definition wlan_loaded :: "(u8 list \<Rightarrow> bool) \<Rightarrow> uci_section list \<Rightarrow> u8 list \<Rightarrow> bool" where
  "wlan_loaded alloc w n \<longleftrightarrow> (\<exists>s\<in>set w. \<exists>i. sec_type s = UM_UCI_INTF_WLAN \<and> sec_ifname s = Some i
     \<and> \<not> load_intf_disabled s \<and> alloc i \<and> n = strlcpy_loop i OS_IFNAMELEN)"

text \<open>One step of \<open>load_intf\<close>, for a loader that puts at most one interface in front.\<close>

lemma load_fold_names:
  assumes "\<And>s tmp. has_ifname (snd (load s tmp)) n \<longleftrightarrow> p s \<or> has_ifname tmp n"
  shows "has_ifname (fold (\<lambda>s tmp. if sec_type s = t then snd (load s tmp) else tmp) w tmp) n
    \<longleftrightarrow> (\<exists>s\<in>set w. sec_type s = t \<and> p s) \<or> has_ifname tmp n"
  by (induction w arbitrary: tmp) (auto simp: assms)

lemma load_radio_names:
  "has_ifname (snd (load_radio alloc s tmp)) n
    \<longleftrightarrow> (\<not> load_intf_disabled s \<and> alloc (sec_name s) \<and> n = strlcpy_loop (sec_name s) OS_IFNAMELEN) \<or> has_ifname tmp n"
  by (auto simp: load_radio_def load_intf_one_def intf_create_def Let_def split: option.splits)

lemma load_wlan_names:
  "has_ifname (snd (load_wlan alloc s tmp)) n
    \<longleftrightarrow> (\<exists>i. sec_ifname s = Some i \<and> \<not> load_intf_disabled s \<and> alloc i \<and> n = strlcpy_loop i OS_IFNAMELEN) \<or> has_ifname tmp n"
  by (auto simp: load_wlan_def load_intf_one_def intf_create_def split: option.splits prod.splits)

lemma load_intf_radio_names:
  "has_ifname (uci_tmp (load_intf UM_UCI_INTF_RADIO (load_radio alloc) w u)) n \<longleftrightarrow> radio_loaded alloc w n \<or> has_ifname (uci_tmp u) n"
  unfolding load_intf_def radio_loaded_def by (simp add: load_fold_names [OF load_radio_names])

lemma load_intf_wlan_names:
  "has_ifname (uci_tmp (load_intf UM_UCI_INTF_WLAN (load_wlan alloc) w u)) n \<longleftrightarrow> wlan_loaded alloc w n \<or> has_ifname (uci_tmp u) n"
  unfolding load_intf_def wlan_loaded_def by (simp add: load_fold_names [OF load_wlan_names])

lemma load_intf_cfg [simp]: "uci_cfg (load_intf t load w u) = uci_cfg u"
  by (simp add: load_intf_def)

lemma um_inv_uci [simp]:
  "um_inv (c\<lparr>uci_radio := u\<rparr>) \<longleftrightarrow> um_inv c" "um_inv (c\<lparr>uci_wlan := u\<rparr>) \<longleftrightarrow> um_inv c" "um_inv (c\<lparr>blob_b := b\<rparr>) \<longleftrightarrow> um_inv c"
  by (auto elim!: um_inv_cong)

text \<open>One load, for any old lists: the interfaces dropped are those in force that are neither in the
  package nor left over in \<open>tmp\<close>.\<close>

definition drop_radio :: "(u8 list \<Rightarrow> bool) \<Rightarrow> uci_section list \<Rightarrow> um_control \<Rightarrow> um_intf list" where
  "drop_radio alloc w c = filter (\<lambda>i. \<not> radio_loaded alloc w (if_ifname i) \<and> \<not> has_ifname (uci_tmp (uci_radio c)) (if_ifname i))
     (uci_cfg (uci_radio c))"

definition drop_wlan :: "(u8 list \<Rightarrow> bool) \<Rightarrow> uci_section list \<Rightarrow> um_control \<Rightarrow> um_intf list" where
  "drop_wlan alloc w c = filter (\<lambda>i. \<not> wlan_loaded alloc w (if_ifname i) \<and> \<not> has_ifname (uci_tmp (uci_wlan c)) (if_ifname i))
     (uci_cfg (uci_wlan c))"

lemma load_wireless_run:
  assumes "um_inv c"
  shows "\<exists>c'. load_wireless env alloc buf w c = (0, c') \<and> um_inv c'
    \<and> head_list c' = filter (\<lambda>a. \<forall>i\<in>set (drop_radio alloc w c) \<union> set (drop_wlan alloc w c). \<not> on_intf i (users c a)) (head_list c)
    \<and> (\<forall>a\<in>set (head_list c'). users c' a = users c a)
    \<and> (\<forall>n. has_ifname (uci_cfg (uci_radio c')) n \<longleftrightarrow> radio_loaded alloc w n \<or> has_ifname (uci_tmp (uci_radio c)) n)
    \<and> (\<forall>n. has_ifname (uci_cfg (uci_wlan c')) n \<longleftrightarrow> wlan_loaded alloc w n \<or> has_ifname (uci_tmp (uci_wlan c)) n)
    \<and> (\<forall>n. has_ifname (uci_cfg (uci_wlan c)) n \<and> (wlan_loaded alloc w n \<or> has_ifname (uci_tmp (uci_wlan c)) n)
         \<longrightarrow> has_ifname (uci_tmp (uci_wlan c')) n)"
proof -
  let ?r = "load_intf UM_UCI_INTF_RADIO (load_radio alloc) w (uci_radio c)"
    and ?w = "load_intf UM_UCI_INTF_WLAN (load_wlan alloc) w (uci_wlan c)"
  let ?c = "c\<lparr>uci_radio := ?r, uci_wlan := ?w, blob_b := buf (blob_b c)\<rparr>"
  have inv: "um_inv ?c"
    using assms by simp
  obtain r1 c1 where r1: "compare_uci env ?r ?c = (r1, c1)"
    "users_kept (\<lambda>x. \<forall>i\<in>set (dropped (uci_tmp ?r) (uci_cfg ?r)). \<not> on_intf i x) ?c c1"
    "\<forall>n. has_ifname (uci_cfg r1) n \<longleftrightarrow> has_ifname (uci_tmp ?r) n"
    using compare_uci_run [OF inv, of env ?r] by blast
  let ?d = "c1\<lparr>uci_radio := r1\<rparr>"
  have d: "um_inv ?d" "uci_wlan ?d = ?w"
    using r1(2) by (simp_all add: users_kept_def)
  obtain w1 c2 where w1: "compare_uci env ?w ?d = (w1, c2)"
    "users_kept (\<lambda>x. \<forall>i\<in>set (dropped (uci_tmp ?w) (uci_cfg ?w)). \<not> on_intf i x) ?d c2"
    "\<forall>n. has_ifname (uci_cfg w1) n \<longleftrightarrow> has_ifname (uci_tmp ?w) n"
    "\<forall>n. has_ifname (uci_cfg ?w) n \<and> has_ifname (uci_tmp ?w) n \<longrightarrow> has_ifname (uci_tmp w1) n"
    using compare_uci_run [OF d(1), of env ?w] by blast
  have drops: "dropped (uci_tmp ?r) (uci_cfg ?r) = drop_radio alloc w c" "dropped (uci_tmp ?w) (uci_cfg ?w) = drop_wlan alloc w c"
    by (simp_all add: dropped_def drop_radio_def drop_wlan_def load_intf_radio_names load_intf_wlan_names)
  have "load_wireless env alloc buf w c = (0, c2\<lparr>uci_wlan := w1\<rparr>)"
    using r1(1) w1(1) d(2) by (simp add: load_wireless_def intf_compare_def Let_def)
  moreover have "users_kept (\<lambda>x. \<forall>i\<in>set (drop_radio alloc w c). \<not> on_intf i x) (?c\<lparr>uci_radio := r1\<rparr>) ?d"
    using r1(2) unfolding drops users_kept_def by simp
  then have k: "users_kept (\<lambda>x. (\<forall>i\<in>set (drop_radio alloc w c). \<not> on_intf i x) \<and> (\<forall>i\<in>set (drop_wlan alloc w c). \<not> on_intf i x))
      (?c\<lparr>uci_radio := r1\<rparr>) c2"
    using users_kept_trans w1(2) unfolding drops by blast
  moreover have "has_ifname (uci_cfg r1) n \<longleftrightarrow> radio_loaded alloc w n \<or> has_ifname (uci_tmp (uci_radio c)) n"
    and "has_ifname (uci_cfg w1) n \<longleftrightarrow> wlan_loaded alloc w n \<or> has_ifname (uci_tmp (uci_wlan c)) n"
    and "has_ifname (uci_cfg (uci_wlan c)) n \<and> (wlan_loaded alloc w n \<or> has_ifname (uci_tmp (uci_wlan c)) n)
      \<longrightarrow> has_ifname (uci_tmp w1) n" for n
    using r1(3) w1(3,4) by (simp_all add: load_intf_radio_names load_intf_wlan_names)
  ultimately show ?thesis
    by (intro exI [of _ "c2\<lparr>uci_wlan := w1\<rparr>"] conjI) (simp_all add: users_kept_def ball_Un)
qed

lemma um_uci_load_inv [um_inv_intros]: "um_inv c \<Longrightarrow> um_inv (snd (um_uci_load env alloc buf w c))"
  using load_wireless_run [of c env alloc buf "the w"] by (cases w) (auto simp: um_uci_load_def)

text \<open>C31: loading the wireless configuration with no interfaces left over in \<open>tmp\<close> puts exactly the enabled
  radios and wlans of the package in force, keeps the user table consistent, and deletes exactly the local
  users of the interfaces that were in force and are no longer in the package.\<close>

theorem um_uci_load_applies:
  assumes "um_inv c" and "uci_tmp (uci_radio c) = []" and "uci_tmp (uci_wlan c) = []"
  shows "\<exists>c'. um_uci_load env alloc buf (Some w) c = (0, c') \<and> um_inv c'
    \<and> (\<forall>n. has_ifname (uci_cfg (uci_radio c')) n \<longleftrightarrow> radio_loaded alloc w n)
    \<and> (\<forall>n. has_ifname (uci_cfg (uci_wlan c')) n \<longleftrightarrow> wlan_loaded alloc w n)
    \<and> head_list c' = filter (\<lambda>a. \<not> (\<exists>i\<in>set (uci_cfg (uci_radio c)). \<not> radio_loaded alloc w (if_ifname i) \<and> on_intf i (users c a))
        \<and> \<not> (\<exists>i\<in>set (uci_cfg (uci_wlan c)). \<not> wlan_loaded alloc w (if_ifname i) \<and> on_intf i (users c a))) (head_list c)
    \<and> (\<forall>a\<in>set (head_list c'). users c' a = users c a)"
proof -
  have "(\<forall>i\<in>set (drop_radio alloc w c) \<union> set (drop_wlan alloc w c). \<not> on_intf i u) \<longleftrightarrow>
      \<not> (\<exists>i\<in>set (uci_cfg (uci_radio c)). \<not> radio_loaded alloc w (if_ifname i) \<and> on_intf i u)
      \<and> \<not> (\<exists>i\<in>set (uci_cfg (uci_wlan c)). \<not> wlan_loaded alloc w (if_ifname i) \<and> on_intf i u)" for u
    using assms(2,3) by (auto simp: drop_radio_def drop_wlan_def)
  then show ?thesis
    using load_wireless_run [OF assms(1), of env alloc buf w] assms(2,3) by (simp add: um_uci_load_def) blast
qed

text \<open>A wlan interface that two loads in a row have seen can never be removed again. The second load
  leaves its entry behind in \<open>tmp\<close>, so every later load, whatever package it reads, finds the
  interface there and keeps it in force.\<close>

theorem um_uci_load_never_removes:
  assumes "um_inv c" and "wlan_loaded alloc w n" and "wlan_loaded alloc w2 n"
  shows "has_ifname (uci_cfg (uci_wlan
    (fold (\<lambda>p c. snd (um_uci_load env alloc buf p c)) ([Some w, Some w2] @ ps) c))) n"
proof -
  have later: "um_inv d \<and> has_ifname (uci_cfg (uci_wlan d)) n \<and> has_ifname (uci_tmp (uci_wlan d)) n \<Longrightarrow>
    has_ifname (uci_cfg (uci_wlan (fold (\<lambda>p c. snd (um_uci_load env alloc buf p c)) ps d))) n" for d
  proof (induction ps arbitrary: d)
    case (Cons p ps)
    have "um_inv e \<and> has_ifname (uci_cfg (uci_wlan e)) n \<and> has_ifname (uci_tmp (uci_wlan e)) n"
      if "e = snd (um_uci_load env alloc buf p d)" for e
    proof (cases p)
      case None
      then show ?thesis
        using that Cons.prems by (simp add: um_uci_load_def)
    next
      case (Some w)
      obtain c' where "load_wireless env alloc buf w d = (0, c')" "um_inv c'" "has_ifname (uci_cfg (uci_wlan c')) n"
        "has_ifname (uci_tmp (uci_wlan c')) n"
        using load_wireless_run [of d env alloc buf w] Cons.prems by blast
      then show ?thesis
        using that Some by (simp add: um_uci_load_def)
    qed
    then show ?case
      using Cons.IH by simp
  qed simp
  obtain c1 where c1: "load_wireless env alloc buf w c = (0, c1)" "um_inv c1" "has_ifname (uci_cfg (uci_wlan c1)) n"
    using load_wireless_run [OF assms(1), of env alloc buf w] assms(2) by blast
  obtain c2 where "load_wireless env alloc buf w2 c1 = (0, c2)" "um_inv c2" "has_ifname (uci_cfg (uci_wlan c2)) n"
    "has_ifname (uci_tmp (uci_wlan c2)) n"
    using load_wireless_run [OF c1(2), of env alloc buf w2] assms(3) c1(3) by blast
  then show ?thesis
    using later [of c2] c1(1) by (simp add: um_uci_load_def)
qed

definition sample_wlan :: uci_section where
  "sample_wlan = \<lparr>sec_type = UM_UCI_INTF_WLAN, sec_name = [], sec_disable = None, sec_ifname = Some (asc ''wlan0-1'')\<rparr>"

lemma sample_wlan_loaded: "wlan_loaded (\<lambda>_. True) [sample_wlan] (asc ''wlan0-1'')"
proof -
  have "strlcpy_loop (asc ''wlan0-1'') OS_IFNAMELEN = asc ''wlan0-1''"
    by (simp add: asc_def OS_IFNAMELEN_def strlcpy_loop_take)
  then show ?thesis
    by (simp add: wlan_loaded_def sample_wlan_def load_intf_disabled_def)
qed

theorem um_uci_load_never_removes_witness:
  "has_ifname (uci_cfg (uci_wlan
    (fold (\<lambda>p c. snd (um_uci_load sample_env (\<lambda>_. True) (\<lambda>b. b) p c)) ([Some [sample_wlan], Some [sample_wlan]] @ [Some []]) umc_init)))
    (asc ''wlan0-1'')"
  by (rule um_uci_load_never_removes [OF um_inv_init sample_wlan_loaded sample_wlan_loaded])

theorem um_uci_load_applies_witness:
  "\<exists>c'. um_uci_load sample_env (\<lambda>_. True) (\<lambda>b. b) (Some [sample_wlan]) umc_init = (0, c')
    \<and> has_ifname (uci_cfg (uci_wlan c')) (asc ''wlan0-1'')"
  using um_uci_load_applies [OF um_inv_init, of sample_env "\<lambda>_. True" "\<lambda>b. b" "[sample_wlan]"] sample_wlan_loaded
  by (auto simp: umc_init_def)

end
