(* ===== verification/Um_Ubus.thy ===== *)
theory Um_Ubus
  imports Um_Uci
begin

text \<open>
  The bus side of the user manager (\<open>um/ubus.c\<close>): reports, and the \<open>getuser\<close>, \<open>reload\<close> and \<open>restart\<close> methods.
  A request arrives as the attributes \<open>blobmsg_parse\<close> finds under the policy of \<open>um.h\<close>. All messages
  are built in the one global buffer, so what a reply contains depends on what was written last.

  \<open>inet_addr\<close> is modelled on dotted decimal addresses, everything else being \<open>INADDR_NONE\<close>.
  \<open>blobmsg_get_u32\<close> on the \<open>wlan\<close> attribute, which the policy declares a string, is the parameter \<open>get_u32\<close>.
\<close>

subsection \<open>The code\<close>

definition get_cb :: "string option \<Rightarrow> apuser \<Rightarrow> blob list \<Rightarrow> u32 \<times> blob list" where
  "get_cb name user b = (mv2_OK, b @ [Table name (user_attrs user)])"

definition pushuserby :: "user_filter \<Rightarrow> um_control \<Rightarrow> int \<times> um_control" where
  "pushuserby flt c =
     (let b = [] @ [OpenArray ''users''];
          (e, b) = um_user_getby flt (get_cb None) b c;
          b = b @ [CloseArray]
      in (e, c\<lparr>blob_b := b\<rparr>))"

definition report :: "um_control \<Rightarrow> int \<times> um_control" where
  "report c =
     (let (e, c) = pushuserby (USER_FILTER_INITER True) c
      in if e < 0 then (e, c) else (0, notify ''um.report'' c))"

definition um_ubus_report :: "um_env \<Rightarrow> um_control \<Rightarrow> int \<times> um_control" where
  "um_ubus_report env c = (if env_ev_report env then report c else (0, c))"

fun inet_parts :: "nat \<Rightarrow> u8 list \<Rightarrow> u32 option" where
  "inet_parts 0 s = (if s = [] then Some 0 else None)"
| "inet_parts (Suc n) s =
     (let ds = takeWhile is_digit s; r = dropWhile is_digit s; v = digits_value ds
      in if ds = [] \<or> 255 < v then None
         else if n = 0 then (if r = [] then Some (word_of_int v) else None)
         else if take 1 r \<noteq> [46] then None
         else map_option (\<lambda>x. push_bit (8 * n) (word_of_int v) OR x) (inet_parts n (tl r)))"

definition inet_addr :: "u8 list \<Rightarrow> u32" where
  "inet_addr s = (case inet_parts 4 s of Some ip \<Rightarrow> ip | None \<Rightarrow> 0xffffffff)"

record getuser_attr =
  ga_local :: "bool option"
  ga_ap :: "u8 list option"
  ga_apmask :: "u8 list option"
  ga_mac :: "u8 list option"
  ga_macmask :: "u8 list option"
  ga_ip :: "u8 list option"
  ga_ipmask :: "u8 list option"
  ga_radio :: "u32 option"
  ga_wlan :: "u8 list option"

definition zero_attr :: getuser_attr where
  "zero_attr = \<lparr>ga_local = None, ga_ap = None, ga_apmask = None, ga_mac = None, ga_macmask = None,
     ga_ip = None, ga_ipmask = None, ga_radio = None, ga_wlan = None\<rparr>"

text \<open>The first component tells whether the answer is already in the buffer.\<close>

definition setfilter_ip :: "user_filter \<Rightarrow> getuser_attr \<Rightarrow> um_control \<Rightarrow> bool \<times> user_filter \<times> um_control" where
  "setfilter_ip flt attr c = (case ga_ip attr of
      None \<Rightarrow> (False, flt, c)
    | Some p \<Rightarrow>
       let onlyip = zero_attr\<lparr>ga_ip := Some p\<rparr>;
           ip = inet_addr p
       in if onlyip = attr
          then (True, flt, pushuser (map_option (users c) (um_user_getbyip c ip)) True None c)
          else (False, (case ga_ipmask attr of
                  None \<Rightarrow> flt\<lparr>uf_ip := ip\<rparr>
                | Some m \<Rightarrow> flt\<lparr>uf_ip := ip, uf_ipmask := inet_addr m\<rparr>), c))"

definition setfilter_mac :: "user_filter \<Rightarrow> getuser_attr \<Rightarrow> um_control \<Rightarrow> (bool \<times> user_filter \<times> um_control) outcome" where
  "setfilter_mac flt attr c = (case ga_mac attr of
      None \<Rightarrow> Ret (False, flt, c)
    | Some p \<Rightarrow>
       obind (os_getmac_bystring p) (\<lambda>mac.
         if zero_attr\<lparr>ga_mac := Some p\<rparr> = attr
         then Ret (True, flt, pushuser (map_option (users c) (um_user_getbymac c mac)) True None c)
         else (case ga_macmask attr of
                 None \<Rightarrow> Ret (False, flt\<lparr>uf_mac := os_maccpy (uf_mac flt) mac\<rparr>, c)
               | Some m \<Rightarrow> obind (os_getmac_bystring m) (\<lambda>mm.
                   Ret (False, flt\<lparr>uf_mac := os_maccpy (uf_mac flt) mac, uf_macmask := mm\<rparr>, c)))))"

definition setfilter_local :: "user_filter \<Rightarrow> getuser_attr \<Rightarrow> user_filter" where
  "setfilter_local flt attr = (case ga_local attr of Some p \<Rightarrow> flt\<lparr>uf_local := p\<rparr> | None \<Rightarrow> flt\<lparr>uf_local := False\<rparr>)"

definition setfilter_ap :: "user_filter \<Rightarrow> getuser_attr \<Rightarrow> user_filter outcome" where
  "setfilter_ap flt attr = (case ga_ap attr of
      None \<Rightarrow> Ret flt
    | Some p \<Rightarrow> obind (os_getmac_bystring p) (\<lambda>ap.
        (case ga_apmask attr of
           None \<Rightarrow> Ret (flt\<lparr>uf_ap := ap\<rparr>)
         | Some m \<Rightarrow> obind (os_getmac_bystring m) (\<lambda>mm. Ret (flt\<lparr>uf_ap := ap, uf_apmask := mm\<rparr>)))))"

definition setfilter_radio :: "user_filter \<Rightarrow> getuser_attr \<Rightarrow> user_filter" where
  "setfilter_radio flt attr = (case ga_radio attr of Some p \<Rightarrow> flt\<lparr>uf_radioid := sint p\<rparr> | None \<Rightarrow> flt)"

definition setfilter_wlan :: "(u8 list \<Rightarrow> u32) \<Rightarrow> user_filter \<Rightarrow> getuser_attr \<Rightarrow> user_filter" where
  "setfilter_wlan get_u32 flt attr = (case ga_wlan attr of Some p \<Rightarrow> flt\<lparr>uf_wlanid := sint (get_u32 p)\<rparr> | None \<Rightarrow> flt)"

definition um_ubus_send_reply :: "um_control \<Rightarrow> um_control" where
  "um_ubus_send_reply c = c\<lparr>msgs := msgs c @ [Reply (blob_b c)]\<rparr>"

definition getuser_filtered :: "user_filter \<Rightarrow> um_control \<Rightarrow> int \<times> um_control" where
  "getuser_filtered flt c =
     (let (e, c) = pushuserby flt c in if e < 0 then (e, c) else (0, um_ubus_send_reply c))"

definition um_ubus_handle_getuser :: "(u8 list \<Rightarrow> u32) \<Rightarrow> getuser_attr \<Rightarrow> um_control \<Rightarrow> (int \<times> um_control) outcome" where
  "um_ubus_handle_getuser get_u32 attr c =
     (let f = USER_FILTER_INITER False
      in if zero_attr = attr then Ret (getuser_filtered f c)
         else
           let f = setfilter_local f attr;
               (pushed, f, c) = setfilter_ip f attr c
           in if pushed then Ret (0, um_ubus_send_reply c)
              else obind (setfilter_mac f attr c) (\<lambda>(pushed, f, c).
                if pushed then Ret (0, um_ubus_send_reply c)
                else obind (setfilter_ap f attr) (\<lambda>f.
                  Ret (getuser_filtered (setfilter_wlan get_u32 (setfilter_radio f attr) attr) c))))"

definition um_ubus_handle_restart :: "um_control \<Rightarrow> int \<times> um_control" where
  "um_ubus_handle_restart c = (0, c)"

definition um_ubus_handle_reload :: "um_env \<Rightarrow> (u8 list \<Rightarrow> bool) \<Rightarrow> (blob list \<Rightarrow> blob list) \<Rightarrow> uci_section list option
    \<Rightarrow> um_control \<Rightarrow> int \<times> um_control" where
  "um_ubus_handle_reload env alloc buf wireless c = (let (_, c) = um_uci_load env alloc buf wireless c in (0, c))"

subsection \<open>Addresses in text\<close>

lemma digit_byte: "d < 10 \<Longrightarrow> is_digit (word_of_nat (48 + d)) \<and> uint (word_of_nat (48 + d) :: u8) = 48 + int d"
proof -
  assume "d < 10"
  then have "unat (word_of_nat (48 + d) :: u8) = 48 + d"
    by (simp add: unsigned_of_nat take_bit_nat_eq_self del: of_nat_add)
  then show ?thesis
    using \<open>d < 10\<close> by (simp add: is_digit_def word_le_nat_alt uint_nat del: of_nat_add)
qed

lemma print_dec_digits: "print_dec n \<noteq> [] \<and> (\<forall>ch\<in>set (print_dec n). is_digit ch)"
proof (induction n rule: print_dec.induct)
  case (1 n)
  have "print_dec n = (if n < 10 then [word_of_nat (48 + n)] else print_dec (n div 10) @ [word_of_nat (48 + n mod 10)])"
    by (rule print_dec.simps)
  then show ?case
    using 1 digit_byte [of n] digit_byte [of "n mod 10"] by (cases "n < 10") (simp_all del: of_nat_add)
qed

lemma digits_value_print_dec: "digits_value (print_dec n) = int n"
proof (induction n rule: print_dec.induct)
  case (1 n)
  show ?case
  proof (cases "n < 10")
    case True
    then show ?thesis
      using digit_byte [of n] by (subst print_dec.simps) (simp add: digits_value_def del: of_nat_add)
  next
    case False
    then have "digits_value (print_dec n) = 10 * int (n div 10) + (uint (word_of_nat (48 + n mod 10) :: u8) - 48)"
      using 1 by (subst print_dec.simps) (simp add: digits_value_def del: of_nat_add)
    also have "\<dots> = 10 * int (n div 10) + int (n mod 10)"
      using digit_byte [of "n mod 10"] by simp
    also have "\<dots> = int n"
      by (simp add: zdiv_int zmod_int)
    finally show ?thesis .
  qed
qed

lemma takeWhile_print_dec:
  assumes "r = [] \<or> \<not> is_digit (hd r)"
  shows "takeWhile is_digit (print_dec n @ r) = print_dec n" "dropWhile is_digit (print_dec n @ r) = r"
proof -
  have "takeWhile is_digit r = []" "dropWhile is_digit r = r"
    using assms by (cases r; simp)+
  then show "takeWhile is_digit (print_dec n @ r) = print_dec n" "dropWhile is_digit (print_dec n @ r) = r"
    using print_dec_digits [of n] by (simp_all add: takeWhile_append2 dropWhile_append2)
qed

lemma inet_parts_byte:
  "inet_parts 1 (print_dec (unat (b :: u8))) = Some (ucast b)"
  "0 < n \<Longrightarrow> inet_parts (Suc n) (print_dec (unat b) @ 46 # s) = map_option (\<lambda>x. push_bit (8 * n) (ucast b) OR x) (inet_parts n s)"
proof -
  have b: "\<not> 255 < int (unat b)"
    using unat_bound [of b] by (simp del: of_nat_unat)
  have v: "word_of_int (int (unat b)) = (ucast b :: u32)"
    by (simp only: ucast_eq uint_nat)
  have ne: "print_dec (unat b) \<noteq> []"
    using print_dec_digits by simp
  have dot: "46 # s = [] \<or> \<not> is_digit (hd (46 # s))"
    by (simp add: is_digit_def)
  show "inet_parts 1 (print_dec (unat b)) = Some (ucast b)"
    unfolding One_nat_def inet_parts.simps Let_def
      takeWhile_print_dec [OF disjI1 [OF refl], of "unat b", unfolded append_Nil2] digits_value_print_dec v
    by (simp only: b ne simp_thms if_False if_True)
  show "inet_parts (Suc n) (print_dec (unat b) @ 46 # s) = map_option (\<lambda>x. push_bit (8 * n) (ucast b) OR x) (inet_parts n s)"
    if "0 < n"
    unfolding inet_parts.simps Let_def takeWhile_print_dec [OF dot] digits_value_print_dec v
    using that b ne by simp
qed

text \<open>The dotted address \<open>os_ipstring\<close> prints is read back by \<open>inet_addr\<close> as the same address, so a
  \<open>getuser\<close> request by the printed address of a user looks that address up.\<close>

theorem ipstring_roundtrip: "inet_addr (os_ipstring ip) = ip"
proof -
  have p: "inet_parts 4 (os_ipstring ip) = Some (push_bit 24 (ucast (ucast (drop_bit 24 ip) :: u8))
      OR (push_bit 16 (ucast (ucast (drop_bit 16 ip) :: u8)) OR (push_bit 8 (ucast (ucast (drop_bit 8 ip) :: u8)) OR ucast (ucast ip :: u8))))"
    using inet_parts_byte(1) [of "ucast ip"]
    by (simp add: os_ipstring_def ip_bytes_def inet_parts_byte(2) numeral_eq_Suc del: inet_parts.simps)
  moreover have "push_bit 24 (ucast (ucast (drop_bit 24 ip) :: u8)) OR (push_bit 16 (ucast (ucast (drop_bit 16 ip) :: u8))
      OR (push_bit 8 (ucast (ucast (drop_bit 8 ip) :: u8)) OR ucast (ucast ip :: u8))) = ip"
  proof (rule bit_word_eqI)
    fix i
    assume "i < LENGTH(32)"
    then consider "i < 8" | "8 \<le> i" "i < 16" | "16 \<le> i" "i < 24" | "24 \<le> i" "i < 32"
      by fastforce
    then show "bit (push_bit 24 (ucast (ucast (drop_bit 24 ip) :: u8)) OR (push_bit 16 (ucast (ucast (drop_bit 16 ip) :: u8))
      OR (push_bit 8 (ucast (ucast (drop_bit 8 ip) :: u8)) OR ucast (ucast ip :: u8))) :: u32) i \<longleftrightarrow> bit ip i"
      by cases (auto simp: bit_simps)
  qed
  ultimately show ?thesis
    by (simp add: inet_addr_def)
qed

subsection \<open>Reports and requests\<close>

lemma match_local: "match u (USER_FILTER_INITER l) \<longleftrightarrow> (l \<longrightarrow> us_local u)"
  by (auto simp: match_def USER_FILTER_INITER_def macmatch_def ipmatch_def is_good_mac_iff OS_ZEROMAC_def)

definition user_tables :: "user_filter \<Rightarrow> um_control \<Rightarrow> blob list" where
  "user_tables flt c = map (\<lambda>a. Table None (user_attrs (users c a))) (filter (\<lambda>a. match (users c a) flt) (head_list c))"

lemma getby_loop:
  "um_user_foreach_loop (getby_cb flt (get_cb name)) xs b c =
    (0, b @ map (\<lambda>a. Table name (user_attrs (users c a))) (filter (\<lambda>a. match (users c a) flt) xs), c)"
  by (induction xs arbitrary: b) (simp_all add: getby_cb_def get_cb_def)

lemma pushuserby_run:
  "pushuserby flt c = (0, c\<lparr>blob_b := OpenArray ''users'' # user_tables flt c @ [CloseArray]\<rparr>)"
  by (simp add: pushuserby_def um_user_getby_def um_user_foreach_def getby_loop user_tables_def)

lemma getuser_filtered_run:
  "getuser_filtered flt c = (0, c\<lparr>blob_b := OpenArray ''users'' # user_tables flt c @ [CloseArray],
     msgs := msgs c @ [Reply (OpenArray ''users'' # user_tables flt c @ [CloseArray])]\<rparr>)"
  by (simp add: getuser_filtered_def pushuserby_run um_ubus_send_reply_def)

lemma bus_only_report [simp]: "bus_only c (snd (um_ubus_report env c))"
  by (simp add: um_ubus_report_def report_def pushuserby_run notify_def bus_only_def)

lemma bus_only_push [simp]: "bus_only c (pushuser u i n c)" "bus_only c (um_ubus_send_reply c)"
  "bus_only c (snd (getuser_filtered f c))"
  by (simp_all add: pushuser_def um_ubus_send_reply_def getuser_filtered_run bus_only_def split: option.split)

lemma setfilter_bus_only:
  "setfilter_ip f attr c = (p, g, d) \<Longrightarrow> bus_only c d"
  "setfilter_mac f attr c = Ret (p, g, d) \<Longrightarrow> bus_only c d"
  by (auto simp: setfilter_ip_def setfilter_mac_def Let_def obind_eq_Ret split: option.splits if_splits)

lemma bus_only_getuser:
  assumes "um_ubus_handle_getuser get_u32 attr c = Ret (e, c')"
  shows "bus_only c c'"
proof (cases "zero_attr = attr")
  case True
  then show ?thesis
    using assms bus_only_push(3) [of c "USER_FILTER_INITER False"] by (simp add: um_ubus_handle_getuser_def Let_def)
next
  case False
  obtain pushed f d where ip: "setfilter_ip (setfilter_local (USER_FILTER_INITER False) attr) attr c = (pushed, f, d)"
    by (metis prod_cases3)
  have d: "bus_only c d"
    by (rule setfilter_bus_only(1) [OF ip])
  show ?thesis
  proof (cases pushed)
    case True
    then show ?thesis
      using assms False ip bus_only_trans [OF d bus_only_push(2)] by (simp add: um_ubus_handle_getuser_def)
  next
    case no: False
    then obtain pushed' f' d' where m: "setfilter_mac f attr d = Ret (pushed', f', d')"
      and r: "(if pushed' then Ret (0, um_ubus_send_reply d') else obind (setfilter_ap f' attr) (\<lambda>f.
          Ret (getuser_filtered (setfilter_wlan get_u32 (setfilter_radio f attr) attr) d'))) = Ret (e, c')"
      using assms False ip by (auto simp: um_ubus_handle_getuser_def obind_eq_Ret)
    have "bus_only d' c'"
      using r by (auto simp: obind_eq_Ret split: if_splits) (metis bus_only_push(3) snd_conv)
    then show ?thesis
      using bus_only_trans [OF bus_only_trans [OF d setfilter_bus_only(2) [OF m]]] by blast
  qed
qed

text \<open>C36: \<open>um_ubus_report\<close>, when the event is on, sends exactly one \<open>um.report\<close> message that lists all local users
  of the table and no others, each once and in list order, and changes nothing else but the buffer.\<close>

theorem um_ubus_report_lists_local:
  assumes "env_ev_report env"
  shows "um_ubus_report env c = (0, c\<lparr>blob_b := blob_b (snd (um_ubus_report env c)),
    msgs := msgs c @ [Notify ''um.report'' (OpenArray ''users''
      # map (\<lambda>a. Table None (user_attrs (users c a))) (filter (\<lambda>a. us_local (users c a)) (head_list c)) @ [CloseArray])]\<rparr>)"
  using assms by (simp add: um_ubus_report_def report_def pushuserby_run notify_def user_tables_def match_local)

theorem um_ubus_report_lists_local_witness:
  "msgs (snd (um_ubus_report sample_env sample_um)) = [Notify ''um.report'' [OpenArray ''users'', Table None (user_attrs sample_user), CloseArray]]"
proof -
  have s: "env_ev_report sample_env" "us_local sample_user" "msgs sample_um = []"
    by (simp_all add: sample_env_def sample_user_def um_user_init_def sample_um_def insert_user_def in_list_def umc_init_def Let_def)
  show ?thesis
    using arg_cong [OF um_ubus_report_lists_local [OF s(1), of sample_um], of "\<lambda>x. msgs (snd x)"] s(2,3)
    by (simp add: sample_um_table)
qed

text \<open>A \<open>getuser\<close> request that names only a MAC address is answered with that user when the table has
  it. When the table does not have it, nothing is written to the buffer, and the reply carries whatever
  the last message left there: for instance all local users of the last report.\<close>

theorem um_ubus_handle_getuser_bymac:
  assumes "os_getmac_bystring p = Ret mac"
  shows "\<exists>c'. um_ubus_handle_getuser get_u32 (zero_attr\<lparr>ga_mac := Some p\<rparr>) c = Ret (0, c') \<and> bus_only c c'
    \<and> msgs c' = msgs c @ [Reply (case user_map c mac of Some u \<Rightarrow> [Table None (user_attrs u)] | None \<Rightarrow> blob_b c)]"
  using assms
  by (auto simp: um_ubus_handle_getuser_def zero_attr_def setfilter_local_def setfilter_ip_def setfilter_mac_def um_ubus_send_reply_def
      pushuser_def user_map_def bus_only_def Let_def split: option.splits)

theorem um_ubus_handle_getuser_bymac_witness:
  "\<exists>c'. um_ubus_handle_getuser (\<lambda>_. 0) (zero_attr\<lparr>ga_mac := Some (asc ''00:01:02:03:04:05'')\<rparr>) sample_um = Ret (0, c')
    \<and> msgs c' = msgs sample_um @ [Reply [Table None (user_attrs sample_user)]]"
proof -
  have "os_getmac_bystring (asc ''00:01:02:03:04:05'') = Ret [0, 1, 2, 3, 4, 5]"
    by code_simp
  from um_ubus_handle_getuser_bymac [OF this, of "\<lambda>_. 0" sample_um] show ?thesis
    by (auto simp: sample_um_map)
qed

end
