(* ===== verification/Um_L2.thy ===== *)
theory Um_L2
  imports Um_Ubus
begin

text \<open>
  Collecting stations (\<open>um/l2user.c\<close>) and portal users (\<open>um/l3user.c\<close>). Every figure about a station is the
  first line of what a shell pipeline prints: \<open>get_*\<close> runs \<open>popen\<close>, reads one line and drops its last
  character. What a pipeline prints is the parameter \<open>popen\<close>, indexed by the pipeline; \<open>None\<close> is a failing
  \<open>popen\<close>. Also outside are \<open>atof_k\<close>, the truncated thousandfold of \<open>atof\<close>, and the value of the variable
  \<open>minute\<close> of \<open>get_sta_uptime\<close>, which the code never sets.

  A pipeline that prints nothing makes the code write before the start of its buffer; such a run has no
  defined result and is \<open>None\<close> here. Two further defects are not part of the model: the buffer the \<open>get_*\<close> functions for
  addresses return is a local array, and the model uses the contents it had on return; \<open>get_ap_macaddr\<close> closes its pipe
  twice, and the model closes it once. So a \<open>Some\<close> result of \<open>l2user_timer\<close> says what the code means to do, and no
  property of the table rests on it: they are stated for \<open>um_user_update\<close> with \<open>l2user_update\<close>, or for all results. Numbers
  are those an \<open>int\<close> holds.
\<close>

subsection \<open>The code\<close>

datatype l2_cmd = Cmd_ap_mac | Cmd_vap_mac "u8 list" | Cmd_sta_mac "u8 list" int | Cmd_sta_ip "u8 list"
  | Cmd_connected_time "u8 list" "u8 list" "u8 list" nat nat | Cmd_inactive "u8 list" int
  | Cmd_rx_bytes "u8 list" int | Cmd_rx_packets "u8 list" int | Cmd_rx_bitrate "u8 list" int
  | Cmd_tx_bytes "u8 list" int | Cmd_tx_packets "u8 list" int | Cmd_tx_bitrate "u8 list" int
  | Cmd_signal "u8 list" int | Cmd_signal_avg "u8 list" int | Cmd_sta_total "u8 list" | Cmd_wlan_total

record l2_env =
  l2_popen :: "l2_cmd \<Rightarrow> u8 list option"
  l2_atof_k :: "u8 list \<Rightarrow> int"
  l2_minute :: u32

definition SPRINT_MAX_LEN :: nat where "SPRINT_MAX_LEN = 256"

definition fgets_line :: "nat \<Rightarrow> u8 list \<Rightarrow> u8 list" where
  "fgets_line sz out =
     (let l = takeWhile (\<lambda>ch. ch \<noteq> 10) out
      in take (sz - 1) (if length l < length out then l @ [10] else l))"

text \<open>\<open>szVal[strlen(szVal)-1] = 0\<close>.\<close>

definition chop :: "u8 list \<Rightarrow> u8 list option" where
  "chop s = (if s = [] then None else Some (butlast s))"

definition read_cmd :: "l2_env \<Rightarrow> l2_cmd \<Rightarrow> u8 list \<Rightarrow> u8 list option" where
  "read_cmd l cmd szVal = (case l2_popen l cmd of
      None \<Rightarrow> Some szVal
    | Some out \<Rightarrow> chop (if out = [] then szVal else takeWhile (\<lambda>ch. ch \<noteq> 0) (fgets_line SPRINT_MAX_LEN out)))"

definition get_ap_macaddr :: "l2_env \<Rightarrow> u8 list option" where
  "get_ap_macaddr l = read_cmd l Cmd_ap_mac []"

definition get_vap_macaddr :: "l2_env \<Rightarrow> u8 list \<Rightarrow> u8 list option" where
  "get_vap_macaddr l ifname = read_cmd l (Cmd_vap_mac ifname) []"

definition get_sta_macaddr :: "l2_env \<Rightarrow> u8 list \<Rightarrow> int \<Rightarrow> u8 list option" where
  "get_sta_macaddr l ifname stanum = read_cmd l (Cmd_sta_mac ifname stanum) []"

definition get_sta_ipaddr :: "l2_env \<Rightarrow> u8 list \<Rightarrow> u8 list option" where
  "get_sta_ipaddr l stamacaddr = read_cmd l (Cmd_sta_ip stamacaddr) []"

text \<open>The lines of the \<open>connected_time\<close> file: years, months, days and \<open>h:m:s\<close>. The fifth result
  overwrites \<open>hour\<close>.\<close>

definition get_sta_uptime :: "l2_env \<Rightarrow> u8 list \<Rightarrow> u8 list \<Rightarrow> u8 list \<Rightarrow> u32 option" where
  "get_sta_uptime l phy ifname stamacaddr =
     Option.bind (read_cmd l (Cmd_connected_time phy ifname stamacaddr 1 0) []) (\<lambda>szVal.
     let year = word_of_int (atoi szVal * 365 * 24 * 3600) in
     Option.bind (read_cmd l (Cmd_connected_time phy ifname stamacaddr 2 0) szVal) (\<lambda>szVal.
     let month = word_of_int (atoi szVal * 30 * 24 * 3600) in
     Option.bind (read_cmd l (Cmd_connected_time phy ifname stamacaddr 3 0) szVal) (\<lambda>szVal.
     let day = word_of_int (atoi szVal * 24 * 3600) in
     Option.bind (read_cmd l (Cmd_connected_time phy ifname stamacaddr 4 1) szVal) (\<lambda>szVal.
     let hour = (word_of_int (atoi szVal * 3600) :: u32) in
     Option.bind (read_cmd l (Cmd_connected_time phy ifname stamacaddr 4 2) szVal) (\<lambda>szVal.
     let hour = word_of_int (atoi szVal * 60) in
     Option.bind (read_cmd l (Cmd_connected_time phy ifname stamacaddr 4 3) szVal) (\<lambda>szVal.
     let second = word_of_int (atoi szVal) + l2_minute l + hour + day + month + year in
     Some second))))))"

definition get_sta_livetime :: "l2_env \<Rightarrow> u8 list \<Rightarrow> int \<Rightarrow> int option" where
  "get_sta_livetime l ifname stanum = map_option atoi (read_cmd l (Cmd_inactive ifname stanum) [])"

definition get_rx_bytes :: "l2_env \<Rightarrow> u8 list \<Rightarrow> int \<Rightarrow> int option" where
  "get_rx_bytes l ifname stanum = map_option atoi (read_cmd l (Cmd_rx_bytes ifname stanum) [])"

definition get_rx_packets :: "l2_env \<Rightarrow> u8 list \<Rightarrow> int \<Rightarrow> int option" where
  "get_rx_packets l ifname stanum = map_option atoi (read_cmd l (Cmd_rx_packets ifname stanum) [])"

definition get_rx_bitrate :: "l2_env \<Rightarrow> u8 list \<Rightarrow> int \<Rightarrow> int option" where
  "get_rx_bitrate l ifname stanum = map_option (l2_atof_k l) (read_cmd l (Cmd_rx_bitrate ifname stanum) [])"

definition get_tx_bytes :: "l2_env \<Rightarrow> u8 list \<Rightarrow> int \<Rightarrow> int option" where
  "get_tx_bytes l ifname stanum = map_option atoi (read_cmd l (Cmd_tx_bytes ifname stanum) [])"

definition get_tx_packets :: "l2_env \<Rightarrow> u8 list \<Rightarrow> int \<Rightarrow> int option" where
  "get_tx_packets l ifname stanum = map_option atoi (read_cmd l (Cmd_tx_packets ifname stanum) [])"

definition get_tx_bitrate :: "l2_env \<Rightarrow> u8 list \<Rightarrow> int \<Rightarrow> int option" where
  "get_tx_bitrate l ifname stanum = map_option (l2_atof_k l) (read_cmd l (Cmd_tx_bitrate ifname stanum) [])"

definition get_sta_signal :: "l2_env \<Rightarrow> u8 list \<Rightarrow> int \<Rightarrow> int option" where
  "get_sta_signal l ifname stanum = map_option atoi (read_cmd l (Cmd_signal ifname stanum) [])"

definition get_sta_signalavg :: "l2_env \<Rightarrow> u8 list \<Rightarrow> int \<Rightarrow> int option" where
  "get_sta_signalavg l ifname stanum = map_option atoi (read_cmd l (Cmd_signal_avg ifname stanum) [])"

definition get_sta_portalstate :: nat where
  "get_sta_portalstate = 2"

definition get_sta_total :: "l2_env \<Rightarrow> u8 list \<Rightarrow> int option" where
  "get_sta_total l ifname = map_option atoi (read_cmd l (Cmd_sta_total ifname) [])"

definition get_wlan_total :: "l2_env \<Rightarrow> int option" where
  "get_wlan_total l = map_option atoi (read_cmd l Cmd_wlan_total [])"

text \<open>\<open>sscanf\<close> with \<open>%x:%x:%x:%x:%x:%x\<close>: the integers after the first mismatch keep their values.\<close>

definition hexval :: "u8 \<Rightarrow> int option" where
  "hexval ch = (if 48 \<le> ch \<and> ch \<le> 57 then Some (uint ch - 48)
     else if 97 \<le> ch \<and> ch \<le> 102 then Some (uint ch - 87)
     else if 65 \<le> ch \<and> ch \<le> 70 then Some (uint ch - 55) else None)"

definition scan_x :: "u8 list \<Rightarrow> (int \<times> u8 list) option" where
  "scan_x s =
     (let s = dropWhile is_space s;
          neg = (take 1 s = [45]);
          s = (if take 1 s = [45] \<or> take 1 s = [43] then tl s else s);
          s = (if take 2 s = asc ''0x'' \<or> take 2 s = asc ''0X'' then drop 2 s else s);
          ds = takeWhile (\<lambda>ch. hexval ch \<noteq> None) s;
          v = foldl (\<lambda>n ch. 16 * n + the (hexval ch)) 0 ds
      in if ds = [] then None else Some ((if neg then - v else v), dropWhile (\<lambda>ch. hexval ch \<noteq> None) s))"

fun scan_xs :: "u8 list \<Rightarrow> int list \<Rightarrow> int list" where
  "scan_xs s [] = []"
| "scan_xs s (a # as) = (case scan_x s of
      None \<Rightarrow> a # as
    | Some (v, r) \<Rightarrow> (case scan_lit [58] r of None \<Rightarrow> v # as | Some r \<Rightarrow> v # scan_xs r as))"

definition mac_bytes :: "int list \<Rightarrow> u8 list" where
  "mac_bytes as = map word_of_int as"

subsubsection \<open>Updating and walking\<close>

text \<open>The assignments of \<open>l2user_update\<close> to \<open>dst\<close>.\<close>

definition l2user_fill :: "um_env \<Rightarrow> bool \<Rightarrow> apuser \<Rightarrow> apuser \<Rightarrow> apuser" where
  "l2user_fill env created dst src =
     (let dst = (if created then dst\<lparr>us_wifi := (us_wifi dst)\<lparr>wi_uptime := env_now env\<rparr>\<rparr> else dst);
          dst = dst\<lparr>us_ap := os_maccpy (us_ap dst) (us_ap src)\<rparr>;
          dst = dst\<lparr>us_ifname := strlcpy_loop (us_ifname src) OS_IFNAMELEN\<rparr>;
          dst = dst\<lparr>us_vap := os_maccpy (us_vap dst) (us_vap src)\<rparr>;
          dst = dst\<lparr>us_local := us_local src, us_radioid := us_radioid src, us_wlanid := us_wlanid src, us_ip := us_ip src\<rparr>;
          dst = dst\<lparr>us_wifi := (us_wifi dst)\<lparr>wi_uptime := wi_uptime (us_wifi src), wi_livetime := wi_livetime (us_wifi src),
                  wi_rx := wi_rx (us_wifi src), wi_tx := wi_tx (us_wifi src), wi_signal := wi_signal (us_wifi src)\<rparr>\<rparr>
      in dst\<lparr>us_portal := (us_portal dst)\<lparr>po_type := po_type (us_portal src), po_state := po_state (us_portal src)\<rparr>\<rparr>)"

definition l2user_update :: "um_env \<Rightarrow> um_user_update_f" where
  "l2user_update env created dst src c =
     (let c = (if created then c else um_ubus_update_cb env dst src c) in (l2user_fill env created dst src, c))"

text \<open>One round of the loop of \<open>l2user_timer\<close>: the information on station \<open>stanum\<close>. The six integers \<open>as\<close> live
  across the scans.\<close>

definition l2user_info :: "l2_env \<Rightarrow> um_intf \<Rightarrow> int \<Rightarrow> apuser \<Rightarrow> int list \<Rightarrow> (apuser \<times> int list) option" where
  "l2user_info l intf stanum info as =
     Option.bind (get_sta_macaddr l (if_ifname intf) stanum) (\<lambda>s. let as = scan_xs s as; info = info\<lparr>us_mac := mac_bytes as\<rparr> in
     Option.bind (get_ap_macaddr l) (\<lambda>s. let as = scan_xs s as; info = info\<lparr>us_ap := mac_bytes as\<rparr> in
     Option.bind (get_vap_macaddr l (if_ifname intf)) (\<lambda>s. let as = scan_xs s as; info = info\<lparr>us_vap := mac_bytes as\<rparr>;
       stamacaddr = macstring_body (us_mac info) 58 in
     Option.bind (get_sta_ipaddr l stamacaddr) (\<lambda>s. let info = info\<lparr>us_ip := inet_addr s, us_ifname := if_ifname intf\<rparr> in
     Option.bind (get_rx_bytes l (if_ifname intf) stanum) (\<lambda>rxb.
     Option.bind (get_rx_packets l (if_ifname intf) stanum) (\<lambda>rxp.
     Option.bind (get_rx_bitrate l (if_ifname intf) stanum) (\<lambda>rxr.
     Option.bind (get_tx_bytes l (if_ifname intf) stanum) (\<lambda>txb.
     Option.bind (get_tx_packets l (if_ifname intf) stanum) (\<lambda>txp.
     Option.bind (get_tx_bitrate l (if_ifname intf) stanum) (\<lambda>txr.
     Option.bind (get_sta_signal l (if_ifname intf) stanum) (\<lambda>sig.
     Option.bind (get_sta_uptime l (asc ''phy0'') (if_ifname intf) stamacaddr) (\<lambda>up.
     Option.bind (get_sta_livetime l (if_ifname intf) stanum) (\<lambda>live.
       let w = us_wifi info;
           w = w\<lparr>wi_rx := (wi_rx w)\<lparr>rx_bytes := word_of_int rxb, rx_packets := word_of_int rxp, rx_rate := word_of_int rxr\<rparr>,
                 wi_tx := (wi_tx w)\<lparr>tx_bytes := word_of_int txb, tx_packets := word_of_int txp, tx_rate := word_of_int txr\<rparr>,
                 wi_signal := sig, wi_uptime := up, wi_livetime := word_of_int live\<rparr>;
           info = info\<lparr>us_wifi := w, us_wlanid := if_wlanid intf, us_radioid := if_radioid intf,
                       us_portal := (us_portal info)\<lparr>po_type := 0, po_state := get_sta_portalstate\<rparr>\<rparr>
       in Some (info, as))))))))))))))"

fun l2user_loop :: "l2_env \<Rightarrow> um_env \<Rightarrow> um_intf \<Rightarrow> nat \<Rightarrow> int \<Rightarrow> apuser \<Rightarrow> int list \<Rightarrow> um_control \<Rightarrow> (int \<times> um_control) option" where
  "l2user_loop l env intf 0 stanum info as c = Some (0, c)"
| "l2user_loop l env intf (Suc n) stanum info as c =
     Option.bind (l2user_info l intf stanum info as) (\<lambda>(info, as).
       case um_user_update env c info (l2user_update env) of
         (None, c) \<Rightarrow> Some (err ENOMEM, c)
       | (Some _, c) \<Rightarrow> l2user_loop l env intf n (stanum + 1) info as c)"

text \<open>The loop runs for \<open>stanum = 1 .. statotal\<close>.\<close>

definition l2user_timer :: "l2_env \<Rightarrow> um_env \<Rightarrow> um_intf \<Rightarrow> um_control \<Rightarrow> (int \<times> um_control) option" where
  "l2user_timer l env intf c =
     Option.bind (get_sta_total l (if_ifname intf)) (\<lambda>statotal.
       if 0 = statotal then Some (0, c)
       else l2user_loop l env intf (nat statotal) 1 (um_user_init True) [0, 0, 0, 0, 0, 0] c)"

fun um_l2user_loop :: "l2_env \<Rightarrow> um_env \<Rightarrow> um_intf list \<Rightarrow> um_control \<Rightarrow> (int \<times> um_control) option" where
  "um_l2user_loop l env [] c = Some (0, c)"
| "um_l2user_loop l env (intf # cfg) c =
     Option.bind (l2user_timer l env intf c) (\<lambda>(e, c). if e < 0 then Some (e, c) else um_l2user_loop l env cfg c)"

definition um_l2user_timer :: "l2_env \<Rightarrow> um_env \<Rightarrow> um_control \<Rightarrow> (int \<times> um_control) option" where
  "um_l2user_timer l env c = um_l2user_loop l env (uci_cfg (uci_wlan c)) c"

definition l3user_fill :: "um_env \<Rightarrow> bool \<Rightarrow> apuser \<Rightarrow> apuser \<Rightarrow> apuser" where
  "l3user_fill env created dst src =
     (if created then dst
      else
        let p = us_portal dst;
            p = (if 0 = po_uptime p then p\<lparr>po_uptime := env_now env\<rparr> else p);
            p = p\<lparr>po_livetime := env_now env - po_uptime p\<rparr>;
            p = p\<lparr>po_rx := po_rx (us_portal src), po_tx := po_tx (us_portal src),
                  po_type := po_type (us_portal src), po_state := po_state (us_portal src)\<rparr>
        in dst\<lparr>us_portal := p\<rparr>)"

definition l3user_update :: "um_env \<Rightarrow> um_user_update_f" where
  "l3user_update env created dst src c =
     (let c = (if created then c else um_ubus_update_cb env dst src c) in (l3user_fill env created dst src, c))"

definition l3user_timer :: "um_env \<Rightarrow> um_intf \<Rightarrow> um_control \<Rightarrow> int \<times> um_control" where
  "l3user_timer env intf c =
     (let info = um_user_init True
      in case um_user_update env c info (l3user_update env) of
           (None, c) \<Rightarrow> (err ENOMEM, c)
         | (Some _, c) \<Rightarrow> (0, c))"

definition um_l3user_timer :: "um_control \<Rightarrow> int \<times> um_control" where
  "um_l3user_timer c = (0, c)"

subsection \<open>Both update functions are hooks of the table\<close>

lemma fill_keeps_mac [simp]: "us_mac (l2user_fill env created u info) = us_mac u" "us_mac (l3user_fill env created u info) = us_mac u"
  by (simp_all add: l2user_fill_def l3user_fill_def Let_def)

interpretation l2: update_hook "l2user_update env" "l2user_fill env"
  "\<lambda>created u info. if created then [] else update_msgs env u info" for env
  by unfold_locales (simp_all add: l2user_update_def)

interpretation l3: update_hook "l3user_update env" "l3user_fill env"
  "\<lambda>created u info. if created then [] else update_msgs env u info" for env
  by unfold_locales (simp_all add: l3user_update_def)

text \<open>C4: with a usable MAC address, \<open>um_user_update\<close> called with \<open>l2user_update\<close> refines the assignment of one
  key of a map. It returns the record now found under that address, keeps the table consistent, sets that
  key to the filled-in record with its aging counter reset, creating the record if there was none, and
  leaves every other key alone.\<close>

theorem l2user_update_refines_map:
  assumes "um_inv c" and "length (us_mac info) = 6" and "is_good_mac (us_mac info)" and "malloc_fresh env"
    and "user_map c (us_mac info) = None \<Longrightarrow> env_malloc env c \<noteq> None"
    and "v = (case user_map c (us_mac info) of Some u \<Rightarrow> l2user_fill env False u info
          | None \<Rightarrow> l2user_fill env True (new_user env (us_mac info)) info)"
  shows "\<exists>a c'. um_user_update env c info (l2user_update env) = (Some a, c') \<and> um_inv c'
    \<and> (\<forall>m. length m = 6 \<longrightarrow> user_map c' m = ((user_map c)(us_mac info \<mapsto> v\<lparr>us_aging := um_agtimes env\<rparr>)) m)
    \<and> um_user_getbymac c' (us_mac info) = Some a"
  by (rule l2.update_map [OF assms])

theorem l2user_update_refines_map_witness:
  "\<exists>a c'. um_user_update sample_env umc_init sample_user (l2user_update sample_env) = (Some a, c')
    \<and> um_user_getbymac c' [0, 1, 2, 3, 4, 5] = Some a"
proof -
  have "env_malloc sample_env umc_init \<noteq> None"
    by (simp add: sample_env_def)
  then show ?thesis
    using l2user_update_refines_map [OF um_inv_init, of sample_user sample_env] sample_env_fresh
    by (auto simp: sample_user_mac)
qed

subsection \<open>What a station line says\<close>

lemma hex_digit_facts:
  assumes "d < 16"
  shows "hexval (hex_digit d) = Some (int d)" "\<not> is_space (hex_digit d)" "hex_digit d \<notin> {43, 45, 58, 88, 120}"
proof -
  have "\<forall>d\<in>set [0..<16]. hexval (hex_digit d) = Some (int d) \<and> \<not> is_space (hex_digit d)
      \<and> \<not> List.member [43, 45, 58, 88, 120] (hex_digit d)"
    by code_simp
  then have "hexval (hex_digit d) = Some (int d) \<and> \<not> is_space (hex_digit d) \<and> \<not> List.member [43, 45, 58, 88, 120] (hex_digit d)"
    using assms by (metis atLeastLessThan_iff le0 set_upt)
  then show "hexval (hex_digit d) = Some (int d)" "\<not> is_space (hex_digit d)" "hex_digit d \<notin> {43, 45, 58, 88, 120}"
    by simp_all
qed

lemma scan_x_print_2x:
  assumes "r = [] \<or> hexval (hd r) = None"
  shows "scan_x (print_2x b @ r) = Some (uint b, r)"
proof -
  let ?h = "hex_digit (unat b div 16)" and ?l = "hex_digit (unat b mod 16)"
  have "unat b div 16 < 16" "unat b mod 16 < 16"
    using unat_bound [of b] by simp_all
  note h = hex_digit_facts [OF this(1)] and l = hex_digit_facts [OF this(2)]
  have r: "takeWhile (\<lambda>ch. hexval ch \<noteq> None) r = []" "dropWhile (\<lambda>ch. hexval ch \<noteq> None) r = r"
    using assms by (cases r; simp)+
  have v: "16 * int (unat b div 16) + int (unat b mod 16) = uint b"
    by (simp add: uint_nat zdiv_int zmod_int del: of_nat_unat)
  have x: "\<not> (take 2 (?h # ?l # r) = asc ''0x'' \<or> take 2 (?h # ?l # r) = asc ''0X'')"
    using l(3) by (auto simp: asc_def)
  have t: "takeWhile (\<lambda>ch. hexval ch \<noteq> None) (?h # ?l # r) = [?h, ?l]"
    "dropWhile (\<lambda>ch. hexval ch \<noteq> None) (?h # ?l # r) = r" "dropWhile is_space (?h # ?l # r) = ?h # ?l # r"
    using h(1,2) l(1) r by simp_all
  have sign: "take 1 (?h # ?l # r) \<noteq> [45]" "take 1 (?h # ?l # r) \<noteq> [43]"
    using h(3) by simp_all
  show ?thesis
    using h(1) l(1) v x sign t unfolding scan_x_def print_2x_def append_Cons append_Nil Let_def by simp
qed

lemma length_scan_xs [simp]: "length (scan_xs s as) = length as"
  by (induction s as rule: scan_xs.induct) (auto split: option.splits prod.splits)

lemma scan_xs_macstring:
  "mac \<noteq> [] \<Longrightarrow> length as = length mac \<Longrightarrow> scan_xs (macstring_body mac 58) as = map uint mac"
proof (induction mac "58 :: u8" arbitrary: as rule: macstring_body.induct)
  case (2 b)
  then obtain a where "as = [a]"
    by (cases as) auto
  then show ?case
    using scan_x_print_2x [of "[]" b] by (simp add: scan_lit_def)
next
  case (3 b b' bs)
  then obtain a as' where as: "as = a # as'" "length as' = length (b' # bs)"
    by (cases as) auto
  have "hexval 58 = None"
    by (simp add: hexval_def)
  then show ?case
    using 3(1) [OF _ as(2)] as scan_x_print_2x [of "58 # macstring_body (b' # bs) 58" b] by (simp add: scan_lit_def)
qed simp

text \<open>Every pipeline prints something that does not start with a NUL byte. This describes a good day, not the shell:
  the rule \<open>l2user_timer_refreshes\<close> below is about such rounds only, and \<open>l2user_no_lease_undefined\<close> about others.\<close>

definition shell_ok :: "l2_env \<Rightarrow> bool" where
  "shell_ok l \<longleftrightarrow> (\<forall>cmd. \<exists>ch out. l2_popen l cmd = Some (ch # out) \<and> ch \<noteq> 0)"

lemma read_cmd_ok:
  assumes "shell_ok l"
  shows "\<exists>t. read_cmd l cmd szVal = Some t"
proof -
  obtain ch out where o: "l2_popen l cmd = Some (ch # out)" "ch \<noteq> 0"
    using assms unfolding shell_ok_def by blast
  have "takeWhile (\<lambda>ch. ch \<noteq> 0) (fgets_line SPRINT_MAX_LEN (ch # out)) \<noteq> []"
    using o(2) by (cases "ch = 10") (auto simp: fgets_line_def SPRINT_MAX_LEN_def Let_def)
  then show ?thesis
    using o(1) by (simp add: read_cmd_def chop_def)
qed

lemma bind_Some: "\<exists>x. p = Some x \<Longrightarrow> (\<And>x. \<exists>y. f x = Some y) \<Longrightarrow> \<exists>y. Option.bind p f = Some y"
  by auto

lemma getters_ok:
  assumes "shell_ok l"
  shows "\<exists>x. get_ap_macaddr l = Some x" "\<exists>x. get_vap_macaddr l i = Some x" "\<exists>x. get_sta_ipaddr l m = Some x"
    "\<exists>x. get_rx_bytes l i n = Some x" "\<exists>x. get_rx_packets l i n = Some x" "\<exists>x. get_rx_bitrate l i n = Some x"
    "\<exists>x. get_tx_bytes l i n = Some x" "\<exists>x. get_tx_packets l i n = Some x" "\<exists>x. get_tx_bitrate l i n = Some x"
    "\<exists>x. get_sta_signal l i n = Some x" "\<exists>x. get_sta_livetime l i n = Some x" "\<exists>x. get_sta_uptime l phy i m = Some x"
proof -
  show "\<exists>x. get_ap_macaddr l = Some x" "\<exists>x. get_vap_macaddr l i = Some x" "\<exists>x. get_sta_ipaddr l m = Some x"
    by (simp_all add: get_ap_macaddr_def get_vap_macaddr_def get_sta_ipaddr_def read_cmd_ok [OF assms])
  show "\<exists>x. get_rx_bytes l i n = Some x" "\<exists>x. get_rx_packets l i n = Some x" "\<exists>x. get_rx_bitrate l i n = Some x"
    "\<exists>x. get_tx_bytes l i n = Some x" "\<exists>x. get_tx_packets l i n = Some x" "\<exists>x. get_tx_bitrate l i n = Some x"
    "\<exists>x. get_sta_signal l i n = Some x" "\<exists>x. get_sta_livetime l i n = Some x"
    unfolding get_rx_bytes_def get_rx_packets_def get_rx_bitrate_def get_tx_bytes_def get_tx_packets_def get_tx_bitrate_def
      get_sta_signal_def get_sta_livetime_def using read_cmd_ok [OF assms] by (metis option.simps(9))+
  show "\<exists>x. get_sta_uptime l phy i m = Some x"
    unfolding get_sta_uptime_def Let_def by (intro bind_Some read_cmd_ok [OF assms]) auto
qed

lemma l2user_info_ok:
  assumes "shell_ok l" and "get_sta_macaddr l (if_ifname intf) k = Some (macstring_body mac 58)"
    and "length mac = 6" and "length as = 6"
  shows "\<exists>info' as'. l2user_info l intf k info as = Some (info', as') \<and> length as' = 6 \<and> us_mac info' = mac
    \<and> us_local info' = us_local info \<and> us_ifname info' = if_ifname intf \<and> us_radioid info' = if_radioid intf
    \<and> us_wlanid info' = if_wlanid intf"
proof -
  note g = getters_ok [OF assms(1)]
  have mac: "mac_bytes (scan_xs (macstring_body mac 58) as) = mac"
  proof -
    have "mac \<noteq> []"
      using assms(3) by auto
    then show ?thesis
      using scan_xs_macstring [of mac as] assms(3,4) by (simp add: mac_bytes_def map_idI)
  qed
  obtain sap svap sip where s: "get_ap_macaddr l = Some sap" "get_vap_macaddr l (if_ifname intf) = Some svap"
    "get_sta_ipaddr l (macstring_body mac 58) = Some sip"
    using g(1-3) by metis
  obtain rxb rxp rxr txb txp txr sig live up where f: "get_rx_bytes l (if_ifname intf) k = Some rxb"
    "get_rx_packets l (if_ifname intf) k = Some rxp" "get_rx_bitrate l (if_ifname intf) k = Some rxr"
    "get_tx_bytes l (if_ifname intf) k = Some txb" "get_tx_packets l (if_ifname intf) k = Some txp"
    "get_tx_bitrate l (if_ifname intf) k = Some txr" "get_sta_signal l (if_ifname intf) k = Some sig"
    "get_sta_livetime l (if_ifname intf) k = Some live"
    "get_sta_uptime l (asc ''phy0'') (if_ifname intf) (macstring_body mac 58) = Some up"
    using g(4-12) by metis
  show ?thesis
    unfolding l2user_info_def assms(2) using s f mac assms(4) by (simp add: Let_def)
qed

text \<open>The users a round of \<open>l2user_timer\<close> leaves: every station refreshed, everyone else unchanged.\<close>

definition refreshed :: "um_env \<Rightarrow> um_intf \<Rightarrow> apuser \<Rightarrow> bool" where
  "refreshed env intf u \<longleftrightarrow> us_local u \<and> us_aging u = um_agtimes env \<and> us_radioid u = if_radioid intf
     \<and> us_wlanid u = if_wlanid intf \<and> us_ifname u = strlcpy_loop (if_ifname intf) OS_IFNAMELEN"

lemma refreshed_fill:
  assumes "us_local info" and "us_ifname info = if_ifname intf" and "us_radioid info = if_radioid intf" and "us_wlanid info = if_wlanid intf"
  shows "refreshed env intf ((l2user_fill env created u info)\<lparr>us_aging := um_agtimes env\<rparr>)"
  using assms by (simp add: refreshed_def l2user_fill_def Let_def)

lemma l2user_loop_refreshes:
  assumes "shell_ok l" and "malloc_fresh env" and "\<And>c. env_malloc env c \<noteq> None"
  shows "um_inv c \<Longrightarrow> us_local info \<Longrightarrow> length as = 6 \<Longrightarrow>
    (\<And>i. i < n \<Longrightarrow> get_sta_macaddr l (if_ifname intf) (k + int i) = Some (macstring_body (mac i) 58) \<and> length (mac i) = 6 \<and> is_good_mac (mac i)) \<Longrightarrow>
    \<exists>c'. l2user_loop l env intf n k info as c = Some (0, c') \<and> um_inv c'
      \<and> (\<forall>m. length m = 6 \<longrightarrow> (if m \<in> mac ` {..<n} then \<exists>u. user_map c' m = Some u \<and> refreshed env intf u else user_map c' m = user_map c m))"
proof (induction n arbitrary: k info as c mac)
  case 0
  then show ?case
    by simp
next
  case (Suc n)
  have m0: "get_sta_macaddr l (if_ifname intf) k = Some (macstring_body (mac 0) 58)" "length (mac 0) = 6" "is_good_mac (mac 0)"
    using Suc.prems(4) [of 0] by simp_all
  obtain info' as' where i: "l2user_info l intf k info as = Some (info', as')" "length as' = 6" "us_mac info' = mac 0"
    "us_local info'" "us_ifname info' = if_ifname intf" "us_radioid info' = if_radioid intf" "us_wlanid info' = if_wlanid intf"
    using l2user_info_ok [OF assms(1) m0(1,2) Suc.prems(3), of info] Suc.prems(2) by blast
  define v where "v = (case user_map c (us_mac info') of Some u \<Rightarrow> l2user_fill env False u info'
    | None \<Rightarrow> l2user_fill env True (new_user env (us_mac info')) info')"
  have fresh: "refreshed env intf (v\<lparr>us_aging := um_agtimes env\<rparr>)"
    unfolding v_def using refreshed_fill [OF i(4-7)] by (auto split: option.split)
  obtain a c1 where c1: "um_user_update env c info' (l2user_update env) = (Some a, c1)" "um_inv c1"
    "\<forall>m. length m = 6 \<longrightarrow> user_map c1 m = ((user_map c)(mac 0 \<mapsto> v\<lparr>us_aging := um_agtimes env\<rparr>)) m"
    using l2.update_map [OF Suc.prems(1) _ _ assms(2) _ v_def] i(3) m0(2,3) assms(3) by auto
  have rest: "get_sta_macaddr l (if_ifname intf) (k + 1 + int j) = Some (macstring_body (mac (Suc j)) 58)
      \<and> length (mac (Suc j)) = 6 \<and> is_good_mac (mac (Suc j))" if "j < n" for j
    using Suc.prems(4) [of "Suc j"] that by (simp add: algebra_simps)
  obtain c' where c': "l2user_loop l env intf n (k + 1) info' as' c1 = Some (0, c')" "um_inv c'"
    "\<forall>m. length m = 6 \<longrightarrow> (if m \<in> (\<lambda>j. mac (Suc j)) ` {..<n} then \<exists>u. user_map c' m = Some u \<and> refreshed env intf u else user_map c' m = user_map c1 m)"
    using Suc.IH [OF c1(2) i(4,2) rest] by blast
  have "mac ` {..<Suc n} = insert (mac 0) ((\<lambda>j. mac (Suc j)) ` {..<n})"
    unfolding lessThan_Suc_eq_insert_0 by (simp add: image_image)
  then have "if m \<in> mac ` {..<Suc n} then \<exists>u. user_map c' m = Some u \<and> refreshed env intf u else user_map c' m = user_map c m"
    if "length m = 6" for m
    using c'(3) c1(3) that fresh by (cases "m = mac 0") (auto split: if_splits)
  then show ?case
    using i(1) c1(1) c'(1,2) by simp
qed

text \<open>One round of \<open>l2user_timer\<close> over an interface whose stations all have printable lines returns 0, keeps
  the table consistent, and leaves every station of the interface in the table, local, tied to that
  interface and with a full aging counter, while every user that is not a station stays as it was.\<close>

theorem l2user_timer_refreshes:
  assumes "um_inv c" and "shell_ok l" and "malloc_fresh env" and "\<And>c. env_malloc env c \<noteq> None"
    and "get_sta_total l (if_ifname intf) = Some (int n)"
    and "\<And>i. i < n \<Longrightarrow> get_sta_macaddr l (if_ifname intf) (1 + int i) = Some (macstring_body (mac i) 58)
          \<and> length (mac i) = 6 \<and> is_good_mac (mac i)"
  shows "\<exists>c'. l2user_timer l env intf c = Some (0, c') \<and> um_inv c'
    \<and> (\<forall>m. length m = 6 \<longrightarrow> (if m \<in> mac ` {..<n} then \<exists>u. user_map c' m = Some u \<and> refreshed env intf u
          else user_map c' m = user_map c m))"
proof -
  have "us_local (um_user_init True)"
    by (simp add: um_user_init_def)
  from l2user_loop_refreshes [OF assms(2-4) assms(1) this _ assms(6)] show ?thesis
    using assms(1,5) by (cases "n = 0") (simp_all add: l2user_timer_def)
qed

definition sample_l2 :: l2_env where
  "sample_l2 = \<lparr>l2_popen = (\<lambda>cmd. Some (case cmd of Cmd_sta_total _ \<Rightarrow> asc ''1'' @ [10]
       | Cmd_sta_mac _ _ \<Rightarrow> asc ''00:01:02:03:04:05'' @ [10] | _ \<Rightarrow> asc ''0'' @ [10])), l2_atof_k = (\<lambda>_. 0), l2_minute = 0\<rparr>"

definition sample_intf :: um_intf where
  "sample_intf = \<lparr>if_type = UM_INTF_WLAN, if_ifname = asc ''wlan0-1'', if_radioid = 0, if_wlanid = 1\<rparr>"

lemma sample_l2_ok: "shell_ok sample_l2"
  by (auto simp: shell_ok_def sample_l2_def asc_def split: l2_cmd.split)

lemma sample_l2_reads: "get_sta_total sample_l2 (if_ifname sample_intf) = Some (int 1)"
  "get_sta_macaddr sample_l2 (if_ifname sample_intf) 1 = Some (macstring_body [0, 1, 2, 3, 4, 5] 58)"
  by code_simp+

theorem l2user_timer_refreshes_witness:
  "\<exists>c'. l2user_timer sample_l2 sample_env sample_intf umc_init = Some (0, c')
    \<and> (\<exists>u. user_map c' [0, 1, 2, 3, 4, 5] = Some u \<and> refreshed sample_env sample_intf u)"
proof -
  have "env_malloc sample_env c \<noteq> None" for c
    by (simp add: sample_env_def)
  from l2user_timer_refreshes [OF um_inv_init sample_l2_ok sample_env_fresh this sample_l2_reads(1), of "\<lambda>_. [0, 1, 2, 3, 4, 5]"]
  show ?thesis
    using sample_l2_reads(2) sample_user_mac(2) by (force simp: image_constant_conv lessThan_empty_iff)
qed

lemma l2user_info_no_lease:
  assumes "get_sta_macaddr l (if_ifname intf) k = Some (macstring_body mac 58)" and "length mac = 6" and "length as = 6"
    and "l2_popen l (Cmd_sta_ip (macstring_body mac 58)) = Some []"
  shows "l2user_info l intf k info as = None"
proof -
  have "mac \<noteq> []"
    using assms(2) by auto
  then have mac: "mac_bytes (scan_xs (macstring_body mac 58) as) = mac"
    using scan_xs_macstring [of mac as] assms(2,3) by (simp add: mac_bytes_def map_idI)
  have "get_sta_ipaddr l (macstring_body mac 58) = None"
    using assms(4) by (simp add: get_sta_ipaddr_def read_cmd_def chop_def)
  then show ?thesis
    unfolding l2user_info_def assms(1) using mac by (simp add: Let_def bind_eq_None_conv)
qed

lemma l2user_info_mac: "l2user_info l intf k info as = Some (info', as') \<Longrightarrow> length as = 6 \<Longrightarrow> length (us_mac info') = 6 \<and> length as' = 6"
  by (auto simp: l2user_info_def Let_def mac_bytes_def split: bind_splits)

lemma l2user_loop_no_lease:
  assumes "length mac = 6" and "l2_popen l (Cmd_sta_ip (macstring_body mac 58)) = Some []"
  shows "j < n \<Longrightarrow> get_sta_macaddr l (if_ifname intf) (k + int j) = Some (macstring_body mac 58) \<Longrightarrow> length as = 6 \<Longrightarrow>
    l2user_loop l env intf n k info as c = None \<or> 0 < j \<and> (\<exists>c'. l2user_loop l env intf n k info as c = Some (err ENOMEM, c'))"
proof (induction n arbitrary: j k info as c)
  case (Suc n)
  show ?case
  proof (cases j)
    case 0
    then show ?thesis
      using l2user_info_no_lease [OF _ assms(1) Suc.prems(3) assms(2)] Suc.prems(2) by simp
  next
    case (Suc i)
    then have i: "i < n" "get_sta_macaddr l (if_ifname intf) (k + 1 + int i) = Some (macstring_body mac 58)"
      using Suc.prems(1,2) by (simp_all add: algebra_simps)
    show ?thesis
    proof (cases "l2user_info l intf k info as")
      case (Some r)
      obtain info' as' where r: "r = (info', as')"
        by fastforce
      then have "length as' = 6"
        using l2user_info_mac [OF _ Suc.prems(3)] Some by blast
      note IH = Suc.IH [OF i this, of info']
      show ?thesis
        using IH Some r \<open>j = Suc i\<close>
        by (cases "um_user_update env c info' (l2user_update env)") (auto split: option.split)
    qed simp
  qed
qed simp

text \<open>C37: a station without a DHCP lease breaks the collector. When the pipelines give the number of stations and the
  address of station \<open>i\<close> as they should, and the lookup of that address prints nothing, \<open>get_sta_ipaddr\<close> writes before
  the start of its buffer, whatever the other pipelines print. So for the first station the round has no defined
  result, and for a later one it has none either, unless it stops before that with \<open>-ENOMEM\<close> because an earlier
  station cannot be stored. It never completes.\<close>

theorem l2user_no_lease_undefined:
  assumes "get_sta_total l (if_ifname intf) = Some n" and "1 \<le> i" and "i \<le> n"
    and "get_sta_macaddr l (if_ifname intf) i = Some (macstring_body mac 58)" and "length mac = 6"
    and "l2_popen l (Cmd_sta_ip (macstring_body mac 58)) = Some []"
  shows "l2user_timer l env intf c = None \<or> 1 < i \<and> (\<exists>c'. l2user_timer l env intf c = Some (err ENOMEM, c'))"
proof -
  define j where "j = nat (i - 1)"
  have j: "j < nat n" "i = 1 + int j"
    using assms(2,3) by (simp_all add: j_def)
  then have m: "get_sta_macaddr l (if_ifname intf) (1 + int j) = Some (macstring_body mac 58)"
    using assms(4) by simp
  have "l2user_loop l env intf (nat n) 1 (um_user_init True) [0, 0, 0, 0, 0, 0] c = None
      \<or> 0 < j \<and> (\<exists>c'. l2user_loop l env intf (nat n) 1 (um_user_init True) [0, 0, 0, 0, 0, 0] c = Some (err ENOMEM, c'))"
    by (rule l2user_loop_no_lease [OF assms(5,6) j(1) m]) simp
  then show ?thesis
    using assms(1-3) j(2) by (auto simp: l2user_timer_def)
qed

theorem l2user_no_lease_undefined_witness:
  "l2user_timer (sample_l2\<lparr>l2_popen := (l2_popen sample_l2)(Cmd_sta_ip (macstring_body [0, 1, 2, 3, 4, 5] 58) := Some [])\<rparr>)
    sample_env sample_intf umc_init = None"
proof -
  let ?l = "sample_l2\<lparr>l2_popen := (l2_popen sample_l2)(Cmd_sta_ip (macstring_body [0, 1, 2, 3, 4, 5] 58) := Some [])\<rparr>"
  have "get_sta_total ?l (if_ifname sample_intf) = Some 1"
    "get_sta_macaddr ?l (if_ifname sample_intf) 1 = Some (macstring_body [0, 1, 2, 3, 4, 5] 58)"
    using sample_l2_reads by (simp_all add: get_sta_total_def get_sta_macaddr_def read_cmd_def)
  then show ?thesis
    using l2user_no_lease_undefined [of ?l sample_intf 1 1 "[0, 1, 2, 3, 4, 5]" sample_env umc_init] by simp
qed

text \<open>The timers keep the invariant, whatever the pipelines print.\<close>

lemma l2user_loop_inv:
  "l2user_loop l env intf n k info as c = Some (e, c') \<Longrightarrow> malloc_fresh env \<Longrightarrow> um_inv c \<Longrightarrow> length as = 6 \<Longrightarrow>
   um_inv c' \<and> uci_radio c' = uci_radio c \<and> uci_wlan c' = uci_wlan c"
proof (induction n arbitrary: k info as c)
  case (Suc n)
  obtain info' as' where i: "l2user_info l intf k info as = Some (info', as')"
    and r: "(case um_user_update env c info' (l2user_update env) of (None, c) \<Rightarrow> Some (err ENOMEM, c)
       | (Some _, c) \<Rightarrow> l2user_loop l env intf n (k + 1) info' as' c) = Some (e, c')"
    using Suc.prems(1) by (auto split: bind_splits)
  obtain u d where u: "um_user_update env c info' (l2user_update env) = (u, d)"
    by fastforce
  note len = l2user_info_mac [OF i Suc.prems(4)]
  have d: "um_inv d \<and> uci_radio d = uci_radio c \<and> uci_wlan d = uci_wlan c"
    by (rule l2.update_inv [OF Suc.prems(3) _ Suc.prems(2) u]) (use len in simp)
  show ?case
  proof (cases u)
    case None
    then show ?thesis
      using r u d by simp
  next
    case (Some a)
    then have "l2user_loop l env intf n (k + 1) info' as' d = Some (e, c')"
      using r u by simp
    then show ?thesis
      using Suc.IH Suc.prems(2) d len by metis
  qed
qed simp

lemma um_l2user_loop_inv:
  "um_l2user_loop l env cfg c = Some (e, c') \<Longrightarrow> malloc_fresh env \<Longrightarrow> um_inv c \<Longrightarrow>
   um_inv c' \<and> uci_radio c' = uci_radio c \<and> uci_wlan c' = uci_wlan c"
proof (induction cfg arbitrary: c)
  case (Cons intf cfg)
  then obtain e1 c1 where t: "l2user_timer l env intf c = Some (e1, c1)"
    and r: "(if e1 < 0 then Some (e1, c1) else um_l2user_loop l env cfg c1) = Some (e, c')"
    by (auto split: bind_splits)
  have c1: "um_inv c1 \<and> uci_radio c1 = uci_radio c \<and> uci_wlan c1 = uci_wlan c"
    using t Cons.prems(2,3) l2user_loop_inv [of l env intf _ 1 "um_user_init True" "[0, 0, 0, 0, 0, 0]" c e1 c1]
    by (auto simp: l2user_timer_def split: bind_splits if_splits)
  show ?case
  proof (cases "e1 < 0")
    case True
    then show ?thesis
      using r c1 by simp
  next
    case False
    then show ?thesis
      using r c1 Cons.IH Cons.prems(2) by (metis (full_types))
  qed
qed simp

lemma um_l2user_timer_inv [um_inv_intros]:
  "um_l2user_timer l env c = Some (e, c') \<Longrightarrow> malloc_fresh env \<Longrightarrow> um_inv c \<Longrightarrow> um_inv c'"
  using um_l2user_loop_inv by (auto simp: um_l2user_timer_def)

end
