(* ===== verification/Um_Main.thy ===== *)
theory Um_Main
  imports Um_L2
begin

text \<open>
  The user manager process (\<open>um/um.c\<close> and the connection handling of \<open>um/ubus.c\<close>): aging, the four timers,
  start-up, and the event loop as a step relation. \<open>uloop\<close> and \<open>libubus\<close> are outside; a step is one event they
  deliver, with the outside world of that moment in it: the clock and settings, what the shell pipelines
  print, the configuration read, whether a reconnection succeeds. A timer event can only come from an armed
  timer. A handler that aborts the process or has no defined result has no successor.
\<close>

subsection \<open>The code\<close>

definition aging_cb :: "um_env \<Rightarrow> unit um_foreach_f" where
  "aging_cb env a d c =
     (if us_local (users c a)
      then
        let c = c\<lparr>users := (users c)(a := (users c a)\<lparr>us_aging := us_aging (users c a) - 1\<rparr>)\<rparr>
        in if us_aging (users c a) \<le> 0 then (let (_, c) = um_user_del env c (Some a) in (mv2_OK, d, c)) else (mv2_OK, d, c)
      else (mv2_OK, d, c))"

definition aging :: "um_env \<Rightarrow> um_control \<Rightarrow> int \<times> um_control" where
  "aging env c = (let (e, _, c) = um_user_foreach (aging_cb env) () c in (e, c))"

datatype um_timer = TM_wifi | TM_portal | TM_aging | TM_report

record um_proc =
  pr_ctl :: um_control
  pr_timer :: "um_timer \<Rightarrow> u32 option"
  pr_ctx :: bool
  pr_retry :: "u32 option"

text \<open>The settings \<open>timerms\<close> reads through \<open>appkey_get\<close> are the argument \<open>ms\<close>.\<close>

definition uloop_timeout_set :: "um_timer \<Rightarrow> u32 \<Rightarrow> um_proc \<Rightarrow> um_proc" where
  "uloop_timeout_set t ms p = p\<lparr>pr_timer := (pr_timer p)(t \<mapsto> ms)\<rparr>"

definition usertimer :: "um_timer \<Rightarrow> (um_timer \<Rightarrow> u32) \<Rightarrow> (um_control \<Rightarrow> (int \<times> um_control) option) \<Rightarrow> um_proc \<Rightarrow> um_proc option" where
  "usertimer t timerms timer p =
     (let p = uloop_timeout_set t (timerms t) p
      in map_option (\<lambda>(_, c). p\<lparr>pr_ctl := c\<rparr>) (timer (pr_ctl p)))"

definition wifitimer :: "(um_timer \<Rightarrow> u32) \<Rightarrow> l2_env \<Rightarrow> um_env \<Rightarrow> um_proc \<Rightarrow> um_proc option" where
  "wifitimer ms l env = usertimer TM_wifi ms (um_l2user_timer l env)"

definition portaltimer :: "(um_timer \<Rightarrow> u32) \<Rightarrow> um_proc \<Rightarrow> um_proc option" where
  "portaltimer ms = usertimer TM_portal ms (\<lambda>c. Some (um_l3user_timer c))"

definition agingtimer :: "(um_timer \<Rightarrow> u32) \<Rightarrow> um_env \<Rightarrow> um_proc \<Rightarrow> um_proc option" where
  "agingtimer ms env = usertimer TM_aging ms (\<lambda>c. Some (aging env c))"

definition reporttimer :: "(um_timer \<Rightarrow> u32) \<Rightarrow> um_env \<Rightarrow> um_proc \<Rightarrow> um_proc option" where
  "reporttimer ms env = usertimer TM_report ms (\<lambda>c. Some (um_ubus_report env c))"

text \<open>\<open>reconnect_timer\<close>; the retry timer of \<open>2 * 1000\<close> milliseconds is its own.\<close>

definition reconnect_timer :: "bool \<Rightarrow> um_proc \<Rightarrow> um_proc" where
  "reconnect_timer ok p = (if \<not> ok then p\<lparr>pr_retry := Some 2000\<rparr> else p\<lparr>pr_ctx := True\<rparr>)"

definition connection_lost :: "bool \<Rightarrow> um_proc \<Rightarrow> um_proc" where
  "connection_lost ok p = reconnect_timer ok (p\<lparr>pr_ctx := False\<rparr>)"

definition um_ubus_connect :: "bool \<Rightarrow> um_proc \<Rightarrow> int \<times> um_proc" where
  "um_ubus_connect ok p = (if \<not> ok then (err EIO, p) else (0, p\<lparr>pr_ctx := True\<rparr>))"

definition um_ubus_init :: "bool \<Rightarrow> um_proc \<Rightarrow> int \<times> um_proc" where
  "um_ubus_init ok p = (let (e, p) = um_ubus_connect ok p in if e < 0 then (e, p) else (0, p))"

definition addusertimer :: "um_timer \<Rightarrow> (um_timer \<Rightarrow> u32) \<Rightarrow> um_proc \<Rightarrow> um_proc" where
  "addusertimer t timerms p = uloop_timeout_set t (timerms t) p"

definition um_proc_init :: um_proc where
  "um_proc_init = \<lparr>pr_ctl = umc_init, pr_timer = (\<lambda>_. None), pr_ctx = False, pr_retry = None\<rparr>"

text \<open>\<open>main\<close> up to \<open>uloop_run\<close>: the error it exits with, or the process that enters the loop.\<close>

definition um_main :: "um_env \<Rightarrow> (u8 list \<Rightarrow> bool) \<Rightarrow> (blob list \<Rightarrow> blob list) \<Rightarrow> uci_section list option \<Rightarrow> bool
    \<Rightarrow> (um_timer \<Rightarrow> u32) \<Rightarrow> int + um_proc" where
  "um_main env alloc buf wireless conn ms =
     (let p = um_proc_init;
          (e, c) = um_uci_load env alloc buf wireless (pr_ctl p);
          p = p\<lparr>pr_ctl := c\<rparr>
      in if e < 0 then Inl e
         else
           let (e, p) = um_ubus_init conn p
           in if e < 0 then Inl e
              else Inr (addusertimer TM_report ms (addusertimer TM_aging ms (addusertimer TM_portal ms (addusertimer TM_wifi ms p)))))"

subsection \<open>The event loop\<close>

datatype um_event = Ev_wifi "um_timer \<Rightarrow> u32" l2_env um_env | Ev_portal "um_timer \<Rightarrow> u32" | Ev_aging "um_timer \<Rightarrow> u32" um_env
  | Ev_report "um_timer \<Rightarrow> u32" um_env | Ev_getuser "u8 list \<Rightarrow> u32" getuser_attr | Ev_restart
  | Ev_reload um_env "u8 list \<Rightarrow> bool" "blob list \<Rightarrow> blob list" "uci_section list option" | Ev_lost bool | Ev_retry bool

text \<open>\<open>uloop\<close> disarms a timer before it calls the handler.\<close>

definition disarm :: "um_timer \<Rightarrow> um_proc \<Rightarrow> um_proc" where
  "disarm t p = p\<lparr>pr_timer := (pr_timer p)(t := None)\<rparr>"

inductive um_step :: "um_proc \<Rightarrow> um_event \<Rightarrow> um_proc \<Rightarrow> bool" where
  wifi: "pr_timer p TM_wifi \<noteq> None \<Longrightarrow> wifitimer ms l env (disarm TM_wifi p) = Some p' \<Longrightarrow> um_step p (Ev_wifi ms l env) p'"
| portal: "pr_timer p TM_portal \<noteq> None \<Longrightarrow> portaltimer ms (disarm TM_portal p) = Some p' \<Longrightarrow> um_step p (Ev_portal ms) p'"
| aging: "pr_timer p TM_aging \<noteq> None \<Longrightarrow> agingtimer ms env (disarm TM_aging p) = Some p' \<Longrightarrow> um_step p (Ev_aging ms env) p'"
| report: "pr_timer p TM_report \<noteq> None \<Longrightarrow> reporttimer ms env (disarm TM_report p) = Some p' \<Longrightarrow> um_step p (Ev_report ms env) p'"
| getuser: "pr_ctx p \<Longrightarrow> um_ubus_handle_getuser get_u32 attr (pr_ctl p) = Ret (e, c) \<Longrightarrow>
    um_step p (Ev_getuser get_u32 attr) (p\<lparr>pr_ctl := c\<rparr>)"
| restart: "pr_ctx p \<Longrightarrow> um_step p Ev_restart (p\<lparr>pr_ctl := snd (um_ubus_handle_restart (pr_ctl p))\<rparr>)"
| reload: "pr_ctx p \<Longrightarrow> um_step p (Ev_reload env alloc buf w) (p\<lparr>pr_ctl := snd (um_ubus_handle_reload env alloc buf w (pr_ctl p))\<rparr>)"
| lost: "pr_ctx p \<Longrightarrow> um_step p (Ev_lost ok) (connection_lost ok p)"
| retry: "pr_retry p \<noteq> None \<Longrightarrow> um_step p (Ev_retry ok) (reconnect_timer ok (p\<lparr>pr_retry := None\<rparr>))"

inductive_cases um_stepE: "um_step p e p'"

inductive um_run :: "um_proc \<Rightarrow> um_event list \<Rightarrow> um_proc \<Rightarrow> bool" where
  um_run_nil: "um_run p [] p"
| um_run_step: "um_run p es q \<Longrightarrow> um_step q e r \<Longrightarrow> um_run p (es @ [e]) r"

text \<open>The allocator behaves in every event.\<close>

fun ev_ok :: "um_event \<Rightarrow> bool" where
  "ev_ok (Ev_wifi ms l env) = malloc_fresh env"
| "ev_ok _ = True"

subsection \<open>Aging\<close>

definition aged :: "apuser \<Rightarrow> apuser" where
  "aged u = (if us_local u then u\<lparr>us_aging := us_aging u - 1\<rparr> else u)"

definition aged_out :: "apuser \<Rightarrow> bool" where
  "aged_out u \<longleftrightarrow> us_local u \<and> us_aging u \<le> 0"

interpretation ag: sweep "aging_cb env" env aged aged_out for env
  by unfold_locales (simp_all add: aging_cb_def aged_def aged_out_def split_beta Let_def)

lemma aging_inv [um_inv_intros]: "um_inv c \<Longrightarrow> um_inv (snd (aging env c))"
  using ag.sweep_run [of c env "()"] by (auto simp: aging_def)

lemma aging_map:
  assumes "um_inv c" and "length m = 6"
  shows "user_map (snd (aging env c)) m =
    (case user_map c m of None \<Rightarrow> None | Some u \<Rightarrow> if aged_out (aged u) then None else Some (aged u))"
proof -
  obtain e d c' where r: "um_user_foreach (aging_cb env) () c = (e, d, c')"
    by (metis prod_cases3)
  then show ?thesis
    using ag.sweep_map [OF assms(1) r assms(2)] by (simp add: aging_def)
qed

lemma aging_iter:
  assumes "um_inv c" and "length m = 6" and "user_map c m = Some u" and "0 < n"
  shows "user_map (((\<lambda>c. snd (aging env c)) ^^ n) c) m =
    (if \<not> us_local u then Some u else if us_aging u \<le> int n then None else Some (u\<lparr>us_aging := us_aging u - int n\<rparr>))"
proof -
  let ?r = "\<lambda>c. snd (aging env c)"
  have inv: "um_inv ((?r ^^ k) c)" for k
    using assms(1) by (induction k) (simp_all add: aging_inv)
  have "user_map ((?r ^^ Suc k) c) m =
    (if \<not> us_local u then Some u else if us_aging u \<le> int (Suc k) then None else Some (u\<lparr>us_aging := us_aging u - int (Suc k)\<rparr>))" for k
  proof (induction k)
    case 0
    then show ?case
      using aging_map [OF assms(1,2), of env] assms(3) by (simp add: aged_def aged_out_def)
  next
    case (Suc k)
    have "user_map ((?r ^^ Suc (Suc k)) c) m = user_map (?r ((?r ^^ Suc k) c)) m"
      by simp
    then show ?case
      unfolding aging_map [OF inv assms(2)] Suc by (auto simp: aged_def aged_out_def)
  qed
  from this [of "n - 1"] show ?thesis
    using assms(4) by simp
qed

text \<open>After \<open>n\<close> rounds of \<open>aging\<close> without an update, a user that is not local is still there unchanged, a
  local user with more than \<open>n\<close> rounds left is there with \<open>n\<close> fewer, and a local user with no more than \<open>n\<close>
  rounds left is gone.\<close>

theorem aging_rounds:
  assumes "um_inv c" and "length m = 6" and "user_map c m = Some u" and "0 < n"
  shows "user_map (((\<lambda>c. snd (aging env c)) ^^ n) c) m =
    (if \<not> us_local u then Some u else if us_aging u \<le> int n then None else Some (u\<lparr>us_aging := us_aging u - int n\<rparr>))"
  using assms by (rule aging_iter)

theorem aging_rounds_witness: "user_map (((\<lambda>c. snd (aging sample_env c)) ^^ 2) sample_um) [0, 1, 2, 3, 4, 5] = None"
  using aging_rounds [OF sample_um_inv _ sample_um_map, of 2 sample_env] by (simp add: sample_user_def um_user_init_def)

subsection \<open>Invariants of the process\<close>

lemma um_step_inv:
  assumes "um_step p e p'" and "ev_ok e" and "um_inv (pr_ctl p)"
  shows "um_inv (pr_ctl p')"
  using assms
proof (induction rule: um_step.induct)
  case (wifi p ms l env p')
  then show ?case
    by (auto simp: wifitimer_def usertimer_def uloop_timeout_set_def disarm_def intro: um_l2user_timer_inv)
next
  case (report p ms env p')
  then show ?case
    using um_inv_bus_only [OF bus_only_report]
    by (auto simp: reporttimer_def usertimer_def uloop_timeout_set_def disarm_def split_beta)
next
  case (getuser p get_u32 attr e c)
  then show ?case
    using um_inv_bus_only [OF bus_only_getuser] by auto
qed (auto simp: portaltimer_def agingtimer_def usertimer_def uloop_timeout_set_def disarm_def um_l3user_timer_def split_beta aging_inv
  um_ubus_handle_restart_def um_ubus_handle_reload_def um_uci_load_inv connection_lost_def reconnect_timer_def)

definition timers_armed :: "um_proc \<Rightarrow> bool" where
  "timers_armed p \<longleftrightarrow> (\<forall>t. pr_timer p t \<noteq> None)"

lemma um_step_timers:
  assumes "um_step p e p'" and "timers_armed p"
  shows "timers_armed p'"
  using assms
  by (induction rule: um_step.induct)
    (auto simp: timers_armed_def wifitimer_def portaltimer_def agingtimer_def reporttimer_def usertimer_def uloop_timeout_set_def
      disarm_def connection_lost_def reconnect_timer_def split_beta split: if_splits)

lemma um_main_started:
  assumes "um_main env alloc buf wireless conn ms = Inr p"
  shows "um_inv (pr_ctl p)" "timers_armed p" "pr_ctx p"
proof -
  have inv: "um_inv (snd (um_uci_load env alloc buf wireless umc_init))"
    by (rule um_uci_load_inv [OF um_inv_init])
  have "um_inv (pr_ctl p) \<and> timers_armed p \<and> pr_ctx p"
    using assms inv
    by (auto simp: um_main_def um_proc_init_def um_ubus_init_def um_ubus_connect_def addusertimer_def uloop_timeout_set_def
        timers_armed_def Let_def split: prod.splits if_splits) (metis um_timer.exhaust)
  then show "um_inv (pr_ctl p)" "timers_armed p" "pr_ctx p"
    by simp_all
qed

text \<open>C3: in every state the started process can reach, by any sequence of timer events, bus requests, reloads and
  reconnections, the user table is consistent, no timer has been lost, and a process that is off the bus
  has its reconnection timer armed.\<close>

theorem um_reachable_invariant:
  assumes "um_main env alloc buf wireless conn ms = Inr p" and "um_run p es q" and "\<forall>e\<in>set es. ev_ok e"
  shows "um_inv (pr_ctl q) \<and> timers_armed q \<and> (pr_ctx q \<or> pr_retry q \<noteq> None)"
  using assms(2,1,3)
proof (induction rule: um_run.induct)
  case (um_run_nil p)
  then show ?case
    using um_main_started [OF um_run_nil(1)] by simp
next
  case (um_run_step p es q e r)
  then have IH: "um_inv (pr_ctl q)" "timers_armed q" "pr_ctx q \<or> pr_retry q \<noteq> None" "ev_ok e"
    by auto
  have "pr_ctx r \<or> pr_retry r \<noteq> None"
    using um_run_step(2) IH(3)
    by cases (auto simp: wifitimer_def portaltimer_def agingtimer_def reporttimer_def usertimer_def uloop_timeout_set_def
      disarm_def connection_lost_def reconnect_timer_def split_beta)
  then show ?case
    using um_step_inv [OF um_run_step(2) IH(4,1)] um_step_timers [OF um_run_step(2) IH(2)] by blast
qed

theorem um_reachable_invariant_witness:
  "\<exists>p q. um_main sample_env (\<lambda>_. True) (\<lambda>b. b) (Some [sample_wlan]) True (\<lambda>_. 5000) = Inr p
    \<and> um_run p [Ev_aging (\<lambda>_. 5000) sample_env] q \<and> um_inv (pr_ctl q) \<and> timers_armed q"
proof -
  obtain c where "um_uci_load sample_env (\<lambda>_. True) (\<lambda>b. b) (Some [sample_wlan]) umc_init = (0, c)"
    using load_wireless_run [OF um_inv_init, of sample_env "\<lambda>_. True" "\<lambda>b. b" "[sample_wlan]"] by (auto simp: um_uci_load_def)
  then obtain p where p: "um_main sample_env (\<lambda>_. True) (\<lambda>b. b) (Some [sample_wlan]) True (\<lambda>_. 5000) = Inr p"
    by (auto simp: um_main_def um_proc_init_def um_ubus_init_def um_ubus_connect_def)
  obtain q where "agingtimer (\<lambda>_. 5000) sample_env (disarm TM_aging p) = Some q"
    by (auto simp: agingtimer_def usertimer_def Let_def)
  then have "um_step p (Ev_aging (\<lambda>_. 5000) sample_env) q"
    using um_main_started(2) [OF p] by (intro um_step.aging) (simp_all add: timers_armed_def)
  then have r: "um_run p [Ev_aging (\<lambda>_. 5000) sample_env] q"
    using um_run_step [OF um_run_nil] by fastforce
  show ?thesis
    using p r um_reachable_invariant [OF p r] by auto
qed

end
