(* ===== verification/Os_List.thy ===== *)
theory Os_List
  imports Os_Prelude "HOL-Library.Monad_Syntax"
begin

text \<open>
  Intrusive lists of \<open>utils/list.h\<close>: circular doubly linked lists with a head (\<open>list_head\<close>) and hash chains
  (\<open>hlist_head\<close>, \<open>hlist_node\<close>). The nodes live in a memory of cells, so the aliasing between the node
  that is inserted, its neighbours and the head is explicit, and a read or write of a cell that does
  not exist (a NULL pointer above all) is \<open>None\<close>. The refinement lemmas say that on well-formed
  memories every operation runs and does to the lists what the corresponding operation does to a
  family of HOL lists; this is why the other theories may use HOL lists.
\<close>

section \<open>Circular lists\<close>

subsection \<open>Memory\<close>

text \<open>A \<open>struct list_head\<close> at address \<open>a\<close> has the two cells \<open>Next a\<close> and \<open>Prev a\<close>. \<open>NULL\<close> is 0.\<close>

datatype cell = Next addr | Prev addr

type_synonym mem = "cell \<rightharpoonup> addr"

definition store :: "cell \<Rightarrow> addr \<Rightarrow> mem \<Rightarrow> mem option" where
  "store c v m = (if m c = None then None else Some (m(c \<mapsto> v)))"

subsection \<open>Operations\<close>

definition INIT_LIST_HEAD :: "addr \<Rightarrow> mem \<Rightarrow> mem option" where
  "INIT_LIST_HEAD l m = do {
     m \<leftarrow> store (Next l) l m;
     store (Prev l) l m }"

definition list_add_between :: "addr \<Rightarrow> addr \<Rightarrow> addr \<Rightarrow> mem \<Rightarrow> mem option" where
  "list_add_between new prv nxt m = do {
     m \<leftarrow> store (Prev nxt) new m;
     m \<leftarrow> store (Next new) nxt m;
     m \<leftarrow> store (Prev new) prv m;
     store (Next prv) new m }"

definition list_add :: "addr \<Rightarrow> addr \<Rightarrow> mem \<Rightarrow> mem option" where
  "list_add new h m = do { nxt \<leftarrow> m (Next h); list_add_between new h nxt m }"

definition list_add_tail :: "addr \<Rightarrow> addr \<Rightarrow> mem \<Rightarrow> mem option" where
  "list_add_tail new h m = do { prv \<leftarrow> m (Prev h); list_add_between new prv h m }"

definition list_del_between :: "addr \<Rightarrow> addr \<Rightarrow> mem \<Rightarrow> mem option" where
  "list_del_between prv nxt m = do {
     m \<leftarrow> store (Prev nxt) prv m;
     store (Next prv) nxt m }"

definition list_del_entry :: "addr \<Rightarrow> mem \<Rightarrow> mem option" where
  "list_del_entry e m = do {
     prv \<leftarrow> m (Prev e);
     nxt \<leftarrow> m (Next e);
     list_del_between prv nxt m }"

definition list_del :: "addr \<Rightarrow> mem \<Rightarrow> mem option" where
  "list_del e m = do {
     prv \<leftarrow> m (Prev e);
     nxt \<leftarrow> m (Next e);
     m \<leftarrow> list_del_between prv nxt m;
     m \<leftarrow> store (Next e) 0 m;
     store (Prev e) 0 m }"

definition list_replace :: "addr \<Rightarrow> addr \<Rightarrow> mem \<Rightarrow> mem option" where
  "list_replace old new m = do {
     onext \<leftarrow> m (Next old);
     m \<leftarrow> store (Next new) onext m;
     nnext \<leftarrow> m (Next new);
     m \<leftarrow> store (Prev nnext) new m;
     oprev \<leftarrow> m (Prev old);
     m \<leftarrow> store (Prev new) oprev m;
     nprev \<leftarrow> m (Prev new);
     store (Next nprev) new m }"

definition list_replace_init :: "addr \<Rightarrow> addr \<Rightarrow> mem \<Rightarrow> mem option" where
  "list_replace_init old new m = do { m \<leftarrow> list_replace old new m; INIT_LIST_HEAD old m }"

definition list_del_init :: "addr \<Rightarrow> mem \<Rightarrow> mem option" where
  "list_del_init e m = do { m \<leftarrow> list_del_entry e m; INIT_LIST_HEAD e m }"

definition list_move :: "addr \<Rightarrow> addr \<Rightarrow> mem \<Rightarrow> mem option" where
  "list_move l h m = do { m \<leftarrow> list_del_entry l m; list_add l h m }"

definition list_move_tail :: "addr \<Rightarrow> addr \<Rightarrow> mem \<Rightarrow> mem option" where
  "list_move_tail l h m = do { m \<leftarrow> list_del_entry l m; list_add_tail l h m }"

definition list_is_last :: "addr \<Rightarrow> addr \<Rightarrow> mem \<Rightarrow> bool option" where
  "list_is_last l h m = do { nxt \<leftarrow> m (Next l); Some (nxt = h) }"

definition list_empty :: "addr \<Rightarrow> mem \<Rightarrow> bool option" where
  "list_empty h m = do { nxt \<leftarrow> m (Next h); Some (nxt = h) }"

definition list_empty_careful :: "addr \<Rightarrow> mem \<Rightarrow> bool option" where
  "list_empty_careful h m = do {
     nxt \<leftarrow> m (Next h);
     prv \<leftarrow> m (Prev h);
     Some (nxt = h \<and> nxt = prv) }"

definition list_rotate_left :: "addr \<Rightarrow> mem \<Rightarrow> mem option" where
  "list_rotate_left h m = do {
     empty \<leftarrow> list_empty h m;
     if \<not> empty then do { fst \<leftarrow> m (Next h); list_move_tail fst h m } else Some m }"

definition list_is_singular :: "addr \<Rightarrow> mem \<Rightarrow> bool option" where
  "list_is_singular h m = do {
     empty \<leftarrow> list_empty h m;
     nxt \<leftarrow> m (Next h);
     prv \<leftarrow> m (Prev h);
     Some (\<not> empty \<and> nxt = prv) }"

definition list_cut_between :: "addr \<Rightarrow> addr \<Rightarrow> addr \<Rightarrow> mem \<Rightarrow> mem option" where
  "list_cut_between l h e m = do {
     new_first \<leftarrow> m (Next e);
     hnext \<leftarrow> m (Next h);
     m \<leftarrow> store (Next l) hnext m;
     lnext \<leftarrow> m (Next l);
     m \<leftarrow> store (Prev lnext) l m;
     m \<leftarrow> store (Prev l) e m;
     m \<leftarrow> store (Next e) l m;
     m \<leftarrow> store (Next h) new_first m;
     store (Prev new_first) h m }"

definition list_cut_position :: "addr \<Rightarrow> addr \<Rightarrow> addr \<Rightarrow> mem \<Rightarrow> mem option" where
  "list_cut_position l h e m = do {
     empty \<leftarrow> list_empty h m;
     singular \<leftarrow> list_is_singular h m;
     hnext \<leftarrow> m (Next h);
     if empty then Some m
     else if singular \<and> hnext \<noteq> e \<and> h \<noteq> e then Some m
     else if e = h then INIT_LIST_HEAD l m
     else list_cut_between l h e m }"

definition list_splice_between :: "addr \<Rightarrow> addr \<Rightarrow> addr \<Rightarrow> mem \<Rightarrow> mem option" where
  "list_splice_between l prv nxt m = do {
     fst \<leftarrow> m (Next l);
     lst \<leftarrow> m (Prev l);
     m \<leftarrow> store (Prev fst) prv m;
     m \<leftarrow> store (Next prv) fst m;
     m \<leftarrow> store (Next lst) nxt m;
     store (Prev nxt) lst m }"

definition list_splice :: "addr \<Rightarrow> addr \<Rightarrow> mem \<Rightarrow> mem option" where
  "list_splice l h m = do {
     empty \<leftarrow> list_empty l m;
     if \<not> empty then do { nxt \<leftarrow> m (Next h); list_splice_between l h nxt m } else Some m }"

definition list_splice_tail :: "addr \<Rightarrow> addr \<Rightarrow> mem \<Rightarrow> mem option" where
  "list_splice_tail l h m = do {
     empty \<leftarrow> list_empty l m;
     if \<not> empty then do { prv \<leftarrow> m (Prev h); list_splice_between l prv h m } else Some m }"

definition list_splice_init :: "addr \<Rightarrow> addr \<Rightarrow> mem \<Rightarrow> mem option" where
  "list_splice_init l h m = do {
     empty \<leftarrow> list_empty l m;
     if \<not> empty then do {
       nxt \<leftarrow> m (Next h);
       m \<leftarrow> list_splice_between l h nxt m;
       INIT_LIST_HEAD l m }
     else Some m }"

definition list_splice_tail_init :: "addr \<Rightarrow> addr \<Rightarrow> mem \<Rightarrow> mem option" where
  "list_splice_tail_init l h m = do {
     empty \<leftarrow> list_empty l m;
     if \<not> empty then do {
       prv \<leftarrow> m (Prev h);
       m \<leftarrow> list_splice_between l prv h m;
       INIT_LIST_HEAD l m }
     else Some m }"

text \<open>
  The loops take the body as a parameter: it gets the cursor and may change the memory and a state of
  its own, as \<open>break\<close>-free loop bodies of the code do. Nothing bounds them, so a loop that never comes back
  to the head is \<open>None\<close>. \<open>list_entry\<close> is the identity here: a structure is named by the address of its node.
\<close>

type_synonym 's body = "addr \<Rightarrow> mem \<times> 's \<Rightarrow> (mem \<times> 's) option"

partial_function (option) list_for_each_from :: "'s body \<Rightarrow> addr \<Rightarrow> addr \<Rightarrow> mem \<times> 's \<Rightarrow> (mem \<times> 's) option" where
  "list_for_each_from body h pos st =
     (if pos = h then Some st
      else Option.bind (body pos st) (\<lambda>st.
           Option.bind (fst st (Next pos)) (\<lambda>nxt. list_for_each_from body h nxt st)))"

definition list_for_each :: "'s body \<Rightarrow> addr \<Rightarrow> mem \<times> 's \<Rightarrow> (mem \<times> 's) option" where
  "list_for_each body h st = do { pos \<leftarrow> fst st (Next h); list_for_each_from body h pos st }"

partial_function (option) list_for_each_prev_from :: "'s body \<Rightarrow> addr \<Rightarrow> addr \<Rightarrow> mem \<times> 's \<Rightarrow> (mem \<times> 's) option" where
  "list_for_each_prev_from body h pos st =
     (if pos = h then Some st
      else Option.bind (body pos st) (\<lambda>st.
           Option.bind (fst st (Prev pos)) (\<lambda>prv. list_for_each_prev_from body h prv st)))"

definition list_for_each_prev :: "'s body \<Rightarrow> addr \<Rightarrow> mem \<times> 's \<Rightarrow> (mem \<times> 's) option" where
  "list_for_each_prev body h st = do { pos \<leftarrow> fst st (Prev h); list_for_each_prev_from body h pos st }"

partial_function (option) list_for_each_safe_from :: "'s body \<Rightarrow> addr \<Rightarrow> addr \<Rightarrow> addr \<Rightarrow> mem \<times> 's \<Rightarrow> (mem \<times> 's) option" where
  "list_for_each_safe_from body h pos n st =
     (if pos = h then Some st
      else Option.bind (body pos st) (\<lambda>st.
           Option.bind (fst st (Next n)) (\<lambda>nn. list_for_each_safe_from body h n nn st)))"

definition list_for_each_safe :: "'s body \<Rightarrow> addr \<Rightarrow> mem \<times> 's \<Rightarrow> (mem \<times> 's) option" where
  "list_for_each_safe body h st = do {
     pos \<leftarrow> fst st (Next h);
     n \<leftarrow> fst st (Next pos);
     list_for_each_safe_from body h pos n st }"

text \<open>A loop that leaves with \<open>break\<close> at the first node that satisfies \<open>P\<close>: the node, or \<open>NULL\<close> at the end.\<close>

partial_function (option) list_search_from :: "(addr \<Rightarrow> bool) \<Rightarrow> addr \<Rightarrow> addr \<Rightarrow> mem \<Rightarrow> addr option" where
  "list_search_from P h pos m =
     (if pos = h then Some 0
      else if P pos then Some pos
      else Option.bind (m (Next pos)) (\<lambda>nxt. list_search_from P h nxt m))"

definition list_search :: "(addr \<Rightarrow> bool) \<Rightarrow> addr \<Rightarrow> mem \<Rightarrow> addr option" where
  "list_search P h m = do { pos \<leftarrow> m (Next h); list_search_from P h pos m }"

subsection \<open>Lists as paths of cells\<close>

text \<open>\<open>lpath m xs\<close>: each element of \<open>xs\<close> is linked to the next, in both directions.\<close>

fun lpath :: "mem \<Rightarrow> addr list \<Rightarrow> bool" where
  "lpath m (x # y # zs) \<longleftrightarrow> m (Next x) = Some y \<and> m (Prev y) = Some x \<and> lpath m (y # zs)"
| "lpath m _ \<longleftrightarrow> True"

definition ring :: "mem \<Rightarrow> addr \<Rightarrow> addr list \<Rightarrow> bool" where
  "ring m h xs \<longleftrightarrow> distinct (h # xs) \<and> lpath m (h # xs @ [h])"

lemma lpath_append: "lpath m (us @ x # vs) \<longleftrightarrow> lpath m (us @ [x]) \<and> lpath m (x # vs)"
proof (induction us)
  case (Cons a us)
  then show ?case
    by (cases us) auto
qed simp

lemma lpath_cong:
  assumes "\<And>a. a \<in> set (butlast xs) \<Longrightarrow> m' (Next a) = m (Next a)" "\<And>a. a \<in> set (tl xs) \<Longrightarrow> m' (Prev a) = m (Prev a)"
  shows "lpath m' xs = lpath m xs"
  using assms by (induction m xs rule: lpath.induct) auto

text \<open>The cells a path is made of: every operation only writes cells of paths it knows.\<close>

lemma lpath_upd [simp]:
  "a \<notin> set (butlast xs) \<Longrightarrow> lpath (m(Next a \<mapsto> v)) xs = lpath m xs"
  "a \<notin> set (tl xs) \<Longrightarrow> lpath (m(Prev a \<mapsto> v)) xs = lpath m xs"
  by (rule lpath_cong; auto)+

lemma store_Some [simp]: "c \<in> dom m \<Longrightarrow> store c v m = Some (m(c \<mapsto> v))"
  by (auto simp: store_def)

lemma store_dom: "store c v m = Some m' \<Longrightarrow> dom m' = dom m"
  by (auto simp: store_def split: if_splits)

definition nodes :: "mem \<Rightarrow> addr set" where
  "nodes m = {a. Next a \<in> dom m \<and> Prev a \<in> dom m}"

text \<open>A ring seen from one of its links: \<open>us\<close> leads from the head to \<open>p\<close>, \<open>vs\<close> from \<open>q\<close> back to the head.\<close>

lemma ring_links:
  assumes "h # as = us @ [p]" "bs @ [h] = q # vs"
  shows "ring m h (as @ bs) \<longleftrightarrow> distinct (h # as @ bs) \<and> lpath m (us @ [p]) \<and> m (Next p) = Some q \<and> m (Prev q) = Some p \<and> lpath m (q # vs)"
proof -
  have "h # (as @ bs) @ [h] = us @ p # q # vs"
    using assms by (metis append.assoc append_Cons append_Nil)
  then show ?thesis
    using lpath_append [of m us p "q # vs"] by (auto simp: ring_def)
qed

lemma ring_link_split:
  obtains us p q vs where "h # as = us @ [p]" "bs @ [h] = q # vs"
  by (metis neq_Nil_conv snoc_eq_iff_butlast)

lemma ring_link_upd:
  assumes "h # as = us @ [p]" "bs @ [h] = q # vs"
  shows "a \<notin> set us \<Longrightarrow> lpath (m(Next a \<mapsto> v)) (us @ [p]) = lpath m (us @ [p])"
    "a \<notin> set as \<Longrightarrow> lpath (m(Prev a \<mapsto> v)) (us @ [p]) = lpath m (us @ [p])"
    "a \<notin> set bs \<Longrightarrow> lpath (m(Next a \<mapsto> v)) (q # vs) = lpath m (q # vs)"
    "a \<notin> set vs \<Longrightarrow> lpath (m(Prev a \<mapsto> v)) (q # vs) = lpath m (q # vs)"
proof -
  have "tl (us @ [p]) = as" "butlast (q # vs) = bs"
    using assms by (metis list.sel(3)) (metis assms(2) butlast_snoc)
  then show "a \<notin> set us \<Longrightarrow> lpath (m(Next a \<mapsto> v)) (us @ [p]) = lpath m (us @ [p])"
    "a \<notin> set as \<Longrightarrow> lpath (m(Prev a \<mapsto> v)) (us @ [p]) = lpath m (us @ [p])"
    "a \<notin> set bs \<Longrightarrow> lpath (m(Next a \<mapsto> v)) (q # vs) = lpath m (q # vs)"
    "a \<notin> set vs \<Longrightarrow> lpath (m(Prev a \<mapsto> v)) (q # vs) = lpath m (q # vs)"
    using lpath_upd [of a "us @ [p]" m v] lpath_upd [of a "q # vs" m v] by simp_all
qed

lemma ring_link_distinct:
  assumes "h # as = us @ [p]" "bs @ [h] = q # vs" "distinct (h # as @ bs)"
  shows "p \<in> insert h (set as)" "q \<in> insert h (set bs)" "set us \<subseteq> insert h (set as)" "set vs \<subseteq> insert h (set bs)"
    "p \<notin> set us" "p \<notin> set bs" "q \<notin> set as" "q \<notin> set vs"
proof -
  have sets: "insert h (set as) = insert p (set us)" "insert h (set bs) = insert q (set vs)"
    using arg_cong [OF assms(1), of set] arg_cong [OF assms(2), of set] by auto
  have "distinct (us @ [p])" "distinct (q # vs)"
    using assms(3) by (auto simp flip: assms(1,2))
  then show "p \<in> insert h (set as)" "q \<in> insert h (set bs)" "set us \<subseteq> insert h (set as)" "set vs \<subseteq> insert h (set bs)"
    "p \<notin> set us" "p \<notin> set bs" "q \<notin> set as" "q \<notin> set vs"
    using sets assms(3) by auto
qed

text \<open>\<open>touches S m m'\<close>: only cells of nodes in \<open>S\<close> were written.\<close>

definition touches :: "addr set \<Rightarrow> mem \<Rightarrow> mem \<Rightarrow> bool" where
  "touches S m m' \<longleftrightarrow> dom m' = dom m \<and> (\<forall>a. a \<notin> S \<longrightarrow> m' (Next a) = m (Next a) \<and> m' (Prev a) = m (Prev a))"

lemma touches_trans: "touches S m m' \<Longrightarrow> touches T m' m'' \<Longrightarrow> touches (S \<union> T) m m''"
  by (auto simp: touches_def)

lemma touches_mono: "touches S m m' \<Longrightarrow> S \<subseteq> T \<Longrightarrow> touches T m m'"
  by (auto simp: touches_def)

lemma nodes_touches: "touches S m m' \<Longrightarrow> nodes m' = nodes m"
  by (simp add: touches_def nodes_def)

lemma ring_touches: "touches S m m' \<Longrightarrow> S \<inter> insert h (set xs) = {} \<Longrightarrow> ring m' h xs = ring m h xs"
proof -
  assume t: "touches S m m'" "S \<inter> insert h (set xs) = {}"
  have "lpath m' (h # xs @ [h]) = lpath m (h # xs @ [h])"
    using t by (intro lpath_cong) (auto simp: touches_def butlast_append split: if_splits)
  then show ?thesis
    by (simp add: ring_def)
qed

lemma lpath_Prev: "lpath m (x # xs) \<Longrightarrow> a \<in> set xs \<Longrightarrow> Prev a \<in> dom m"
  by (induction xs arbitrary: x) auto

lemma lpath_Next: "lpath m (xs @ [x]) \<Longrightarrow> a \<in> set xs \<Longrightarrow> Next a \<in> dom m"
proof -
  assume l: "lpath m (xs @ [x])" and "a \<in> set xs"
  then obtain ys zs where "xs = ys @ a # zs"
    using split_list by metis
  then show ?thesis
    using l lpath_append [of m ys a "zs @ [x]"] by (cases zs) auto
qed

lemma ring_nodes: "ring m h xs \<Longrightarrow> insert h (set xs) \<subseteq> nodes m"
  using lpath_Prev [of m h "xs @ [h]"] lpath_Next [of m "h # xs" h] by (auto simp: ring_def nodes_def)

lemma nodes_dom: "a \<in> nodes m \<Longrightarrow> Next a \<in> dom m" "a \<in> nodes m \<Longrightarrow> Prev a \<in> dom m"
  by (simp_all add: nodes_def)

subsection \<open>Operations on one list\<close>

lemma INIT_LIST_HEAD_ring:
  "n \<in> nodes m \<Longrightarrow> \<exists>m'. INIT_LIST_HEAD n m = Some m' \<and> ring m' n [] \<and> touches {n} m m'"
  by (auto simp: INIT_LIST_HEAD_def nodes_def ring_def touches_def)

lemma list_add_between_ring:
  assumes "ring m h (as @ bs)" "h # as = us @ [p]" "bs @ [h] = q # vs" "n \<in> nodes m" "n \<notin> insert h (set (as @ bs))"
  shows "\<exists>m'. list_add_between n p q m = Some m' \<and> ring m' h (as @ n # bs) \<and> touches (insert h (insert n (set (as @ bs)))) m m'"
proof -
  define m' where "m' = m(Prev q \<mapsto> n, Next n \<mapsto> q, Prev n \<mapsto> p, Next p \<mapsto> n)"
  note r = assms(1) [unfolded ring_links [OF assms(2,3)]]
  note d = ring_link_distinct [OF assms(2,3) conjunct1 [OF r]]
  note upd = ring_link_upd [OF assms(2,3)]
  have np: "n \<noteq> p" "n \<noteq> q" "n \<notin> set us" "n \<notin> set vs"
    using d assms(5) by auto
  have dom: "Prev q \<in> dom m" "Next p \<in> dom m" "Next n \<in> dom m" "Prev n \<in> dom m"
    using r assms(4) by (auto simp: nodes_def)
  then have "list_add_between n p q m = Some m'"
    by (simp add: list_add_between_def m'_def)
  moreover have "touches (insert h (insert n (set (as @ bs)))) m m'"
    using dom d np by (auto simp: touches_def m'_def)
  moreover have "ring m' h (as @ n # bs)"
    using r d np assms(5) ring_links [of h as us p "n # bs" n "q # vs"] assms(2,3)
    by (auto simp: m'_def upd)
  ultimately show ?thesis
    by blast
qed

lemma list_add_ring:
  assumes "ring m h xs" "n \<in> nodes m" "n \<notin> insert h (set xs)"
  shows "\<exists>m'. list_add n h m = Some m' \<and> ring m' h (n # xs) \<and> touches (insert h (insert n (set xs))) m m'"
proof -
  obtain q vs where q: "xs @ [h] = q # vs"
    by (cases "xs @ [h]") auto
  then have "m (Next h) = Some q"
    using assms(1) by (simp add: ring_def)
  then show ?thesis
    using list_add_between_ring [of m h "[]" xs "[]" h q vs n] assms q by (simp add: list_add_def)
qed

lemma list_add_tail_ring:
  assumes "ring m h xs" "n \<in> nodes m" "n \<notin> insert h (set xs)"
  shows "\<exists>m'. list_add_tail n h m = Some m' \<and> ring m' h (xs @ [n]) \<and> touches (insert h (insert n (set xs))) m m'"
proof -
  obtain us p where p: "h # xs = us @ [p]"
    by (metis ring_link_split)
  then have "m (Prev h) = Some p"
    using assms(1) ring_links [of h xs us p "[]" h "[]" m] by simp
  then show ?thesis
    using list_add_between_ring [of m h xs "[]" us p h "[]" n] assms p by (simp add: list_add_tail_def)
qed

lemma list_del_entry_ring:
  assumes "ring m h (as @ e # bs)"
  shows "\<exists>m'. list_del_entry e m = Some m' \<and> ring m' h (as @ bs) \<and> touches (insert h (set (as @ bs))) m m'
    \<and> list_del e m = Some (m'(Next e \<mapsto> 0, Prev e \<mapsto> 0))"
proof -
  obtain us p q vs where s: "h # as = us @ [p]" "bs @ [h] = q # vs"
    by (rule ring_link_split)
  have r: "distinct (h # as @ bs)" "e \<notin> insert h (set (as @ bs))" "lpath m (us @ [p])" "m (Next p) = Some e" "m (Prev e) = Some p"
    "m (Next e) = Some q" "m (Prev q) = Some e" "lpath m (q # vs)"
    using assms ring_links [of h as us p "e # bs" e "q # vs" m] s by auto
  define m' where "m' = m(Prev q \<mapsto> p, Next p \<mapsto> q)"
  note d = ring_link_distinct [OF s r(1)]
  have dom: "Prev q \<in> dom m" "Next p \<in> dom m" "Next e \<in> dom m" "Prev e \<in> dom m"
    using r by auto
  then have "list_del_entry e m = Some m'" "list_del e m = Some (m'(Next e \<mapsto> 0, Prev e \<mapsto> 0))"
    using r by (simp_all add: list_del_entry_def list_del_def list_del_between_def m'_def)
  moreover have "touches (insert h (set (as @ bs))) m m'"
    using dom d by (auto simp: touches_def m'_def)
  moreover have "ring m' h (as @ bs)"
    using r d by (auto simp: m'_def ring_links [OF s] ring_link_upd [OF s])
  ultimately show ?thesis
    by blast
qed

text \<open>A ring that is not empty, seen from its head; the path inside it does not mention the head.\<close>

lemma lpath_inner:
  assumes "xs \<noteq> []"
  shows "lpath m (us @ p # xs @ q # vs) \<longleftrightarrow> lpath m (us @ [p]) \<and> m (Next p) = Some (hd xs) \<and> m (Prev (hd xs)) = Some p
    \<and> lpath m xs \<and> m (Next (last xs)) = Some q \<and> m (Prev q) = Some (last xs) \<and> lpath m (q # vs)"
proof -
  have "lpath m (xs @ q # vs) \<longleftrightarrow> lpath m xs \<and> m (Next (last xs)) = Some q \<and> m (Prev q) = Some (last xs) \<and> lpath m (q # vs)"
  proof -
    have eq: "xs @ q # vs = butlast xs @ last xs # q # vs"
      using assms by (metis append.assoc append_Cons append_Nil append_butlast_last_id)
    show ?thesis
      unfolding eq lpath_append [of m "butlast xs" "last xs" "q # vs"] using assms by simp
  qed
  moreover have "lpath m (p # xs @ q # vs) \<longleftrightarrow> m (Next p) = Some (hd xs) \<and> m (Prev (hd xs)) = Some p \<and> lpath m (xs @ q # vs)"
    using assms by (cases xs) auto
  ultimately show ?thesis
    using lpath_append [of m us p "xs @ q # vs"] by auto
qed

lemma ring_inner:
  "xs \<noteq> [] \<Longrightarrow> ring m h xs \<longleftrightarrow> distinct (h # xs) \<and> m (Next h) = Some (hd xs) \<and> m (Prev (hd xs)) = Some h
    \<and> lpath m xs \<and> m (Next (last xs)) = Some h \<and> m (Prev h) = Some (last xs)"
  using lpath_inner [of xs m "[]" h h "[]"] by (auto simp: ring_def)

lemma ring_Nil: "ring m h [] \<longleftrightarrow> m (Next h) = Some h \<and> m (Prev h) = Some h"
  by (auto simp: ring_def)

lemma inner_upd:
  assumes "distinct xs" "xs \<noteq> []"
  shows "a \<notin> set xs \<or> a = last xs \<Longrightarrow> lpath (m(Next a \<mapsto> v)) xs = lpath m xs"
    "a \<notin> set xs \<or> a = hd xs \<Longrightarrow> lpath (m(Prev a \<mapsto> v)) xs = lpath m xs"
proof -
  have "last xs \<notin> set (butlast xs)" "hd xs \<notin> set (tl xs)"
    using assms by (metis append_butlast_last_id distinct_append not_distinct_conv_prefix)
      (metis assms(1) assms(2) distinct.simps(2) list.collapse)
  then show "a \<notin> set xs \<or> a = last xs \<Longrightarrow> lpath (m(Next a \<mapsto> v)) xs = lpath m xs"
    "a \<notin> set xs \<or> a = hd xs \<Longrightarrow> lpath (m(Prev a \<mapsto> v)) xs = lpath m xs"
    by (auto intro!: lpath_upd dest: in_set_butlastD list.set_sel(2) [OF assms(2)])
qed

lemma list_replace_ring:
  assumes "ring m h (as @ e # bs)" "n \<in> nodes m" "n \<notin> insert h (set (as @ e # bs))"
  shows "\<exists>m'. list_replace e n m = Some m' \<and> ring m' h (as @ n # bs) \<and> touches (insert h (insert n (set (as @ bs)))) m m'"
proof -
  obtain us p q vs where s: "h # as = us @ [p]" "bs @ [h] = q # vs"
    by (rule ring_link_split)
  have r: "distinct (h # as @ bs)" "e \<notin> insert h (set (as @ bs))" "lpath m (us @ [p])" "m (Next p) = Some e" "m (Prev e) = Some p"
    "m (Next e) = Some q" "m (Prev q) = Some e" "lpath m (q # vs)"
    using assms(1) ring_links [of h as us p "e # bs" e "q # vs" m] s by auto
  define m' where "m' = m(Next n \<mapsto> q, Prev q \<mapsto> n, Prev n \<mapsto> p, Next p \<mapsto> n)"
  note d = ring_link_distinct [OF s r(1)]
  have np: "n \<noteq> p" "n \<noteq> q" "n \<notin> set us" "n \<notin> set vs" "q \<noteq> e" "p \<noteq> e"
    using d assms(3) r(2) by auto
  have dom: "Prev q \<in> dom m" "Next p \<in> dom m" "Next n \<in> dom m" "Prev n \<in> dom m"
    using r assms(2) by (auto simp: nodes_def)
  then have "list_replace e n m = Some m'"
    using r np by (simp add: list_replace_def m'_def)
  moreover have "touches (insert h (insert n (set (as @ bs)))) m m'"
    using dom d by (auto simp: touches_def m'_def)
  moreover have "ring m' h (as @ n # bs)"
    using r d np assms(3) ring_links [of h as us p "n # bs" n "q # vs" m'] s
    by (auto simp: m'_def ring_link_upd [OF s])
  ultimately show ?thesis
    by blast
qed

lemma list_replace_head_ring:
  assumes "ring m h xs" "n \<in> nodes m" "n \<notin> insert h (set xs)"
  shows "\<exists>m'. list_replace h n m = Some m' \<and> ring m' n xs \<and> touches (insert h (insert n (set xs))) m m'"
proof (cases "xs = []")
  case True
  then have "m (Next h) = Some h" "m (Prev h) = Some h" "n \<noteq> h"
    using assms by (simp_all add: ring_Nil)
  moreover from this have "list_replace h n m = Some (m(Next n \<mapsto> h, Prev h \<mapsto> n, Prev n \<mapsto> n, Next n \<mapsto> n))"
    using nodes_dom [OF assms(2)] by (simp add: list_replace_def domIff)
  ultimately show ?thesis
    using True nodes_dom [OF assms(2)] by (auto simp: ring_Nil touches_def)
next
  case False
  define m' where "m' = m(Next n \<mapsto> hd xs, Prev (hd xs) \<mapsto> n, Prev n \<mapsto> last xs, Next (last xs) \<mapsto> n)"
  note r = assms(1) [unfolded ring_inner [OF False]]
  have ne: "n \<noteq> hd xs" "n \<noteq> last xs" "h \<noteq> hd xs" "h \<noteq> last xs" "hd xs \<in> set xs" "last xs \<in> set xs"
    using assms(3) r False by auto
  have dom: "Prev (hd xs) \<in> dom m" "Next (last xs) \<in> dom m" "Next n \<in> dom m" "Prev n \<in> dom m"
    using r assms(2) by (auto simp: nodes_def)
  then have "list_replace h n m = Some m'"
    using r ne by (simp add: list_replace_def m'_def)
  moreover have "touches (insert h (insert n (set xs))) m m'"
    using dom ne by (auto simp: touches_def m'_def)
  moreover have "ring m' n xs"
    using r ne assms(3) unfolding ring_inner [OF False] by (simp add: m'_def inner_upd [OF _ False])
  ultimately show ?thesis
    by blast
qed

lemma list_splice_between_ring:
  assumes "ring m h (as @ bs)" "h # as = us @ [p]" "bs @ [h] = q # vs" "ring m l ys" "ys \<noteq> []"
    and "insert h (set (as @ bs)) \<inter> insert l (set ys) = {}"
  shows "\<exists>m'. list_splice_between l p q m = Some m' \<and> ring m' h (as @ ys @ bs) \<and> touches (insert h (set (as @ ys @ bs))) m m'"
proof -
  define m' where "m' = m(Prev (hd ys) \<mapsto> p, Next p \<mapsto> hd ys, Next (last ys) \<mapsto> q, Prev q \<mapsto> last ys)"
  note r = assms(1) [unfolded ring_links [OF assms(2,3)]] assms(4) [unfolded ring_inner [OF assms(5)]]
  note d = ring_link_distinct [OF assms(2,3) conjunct1 [OF r(1)]]
  have disj: "set (h # as @ bs) \<inter> set ys = {}"
    using assms(6) by auto
  then have ne: "p \<notin> set ys" "q \<notin> set ys" "hd ys \<in> set ys" "last ys \<in> set ys" "set us \<inter> set ys = {}" "set vs \<inter> set ys = {}"
    using d assms(5) by auto
  have dom: "Prev (hd ys) \<in> dom m" "Next (last ys) \<in> dom m" "Next p \<in> dom m" "Prev q \<in> dom m"
    using r by auto
  then have "list_splice_between l p q m = Some m'"
    using r by (simp add: list_splice_between_def m'_def)
  moreover have "touches (insert h (set (as @ ys @ bs))) m m'"
    using dom d ne by (auto simp: touches_def m'_def)
  moreover have "ring m' h (as @ ys @ bs)"
  proof -
    have "h # (as @ ys @ bs) @ [h] = us @ p # ys @ q # vs"
      using assms(2,3) by (metis append.assoc append_Cons append_Nil)
    moreover have "distinct (h # as @ ys @ bs)"
      using r disj by auto
    moreover have "lpath m' (us @ [p])" "lpath m' (q # vs)"
    proof -
      have "hd ys \<notin> set as" "last ys \<notin> set us" "last ys \<notin> set bs" "hd ys \<notin> set vs"
        using ne(3-6) disj by auto
      then show "lpath m' (us @ [p])" "lpath m' (q # vs)"
        using r(1) d by (simp_all add: m'_def ring_link_upd [OF assms(2,3)])
    qed
    moreover have "lpath m' ys"
      using r ne by (simp add: m'_def inner_upd [OF _ assms(5)])
    moreover have "m' (Next p) = Some (hd ys)" "m' (Prev (hd ys)) = Some p" "m' (Next (last ys)) = Some q" "m' (Prev q) = Some (last ys)"
      using ne by (auto simp: m'_def)
    ultimately show ?thesis
      by (simp add: ring_def lpath_inner [OF assms(5)])
  qed
  ultimately show ?thesis
    by blast
qed

lemma list_cut_between_ring:
  assumes "ring m h (as @ e # bs)" "l \<in> nodes m" "l \<notin> insert h (set (as @ e # bs))"
  shows "\<exists>m'. list_cut_between l h e m = Some m' \<and> ring m' l (as @ [e]) \<and> ring m' h bs
    \<and> touches (insert h (insert l (set (as @ e # bs)))) m m'"
proof -
  obtain q vs where q: "bs @ [h] = q # vs"
    by (cases "bs @ [h]") auto
  let ?xs = "as @ [e]"
  define m' where "m' = m(Next l \<mapsto> hd ?xs, Prev (hd ?xs) \<mapsto> l, Prev l \<mapsto> e, Next e \<mapsto> l, Next h \<mapsto> q, Prev q \<mapsto> h)"
  have d: "distinct (h # as @ e # bs)"
    using assms(1) by (simp add: ring_def)
  have "lpath m ([] @ h # ?xs @ q # vs)"
    using assms(1) by (simp add: ring_def flip: q)
  then have r: "m (Next h) = Some (hd ?xs)" "m (Prev (hd ?xs)) = Some h" "lpath m ?xs" "m (Next e) = Some q" "m (Prev q) = Some e" "lpath m (q # vs)"
    unfolding lpath_inner [of ?xs, OF snoc_eq_iff_butlast [THEN iffD1, THEN conjunct1, OF refl]] by simp_all
  have "hd ?xs \<in> set ?xs"
    by (cases as) auto
  moreover have "q \<in> insert h (set bs)"
    using q by (cases bs) auto
  ultimately have ne: "hd ?xs \<in> set ?xs" "q \<in> insert h (set bs)"
    by blast+
  then have ne': "l \<noteq> hd ?xs" "h \<noteq> hd ?xs" "q \<noteq> l" "q \<noteq> hd ?xs" "e \<noteq> h" "l \<noteq> e" "l \<noteq> h" "q \<notin> set ?xs" "h \<notin> set ?xs" "l \<notin> set ?xs" "hd ?xs \<notin> set bs"
    using d assms(3) by (auto split: if_splits)
  have dom: "Prev (hd ?xs) \<in> dom m" "Next e \<in> dom m" "Next h \<in> dom m" "Prev q \<in> dom m" "Next l \<in> dom m" "Prev l \<in> dom m"
    using r assms(2) by (auto simp: nodes_def)
  then have "list_cut_between l h e m = Some m'"
    using r by (simp add: list_cut_between_def m'_def)
  moreover have "touches (insert h (insert l (set (as @ e # bs)))) m m'"
    using dom ne by (auto simp: touches_def m'_def)
  moreover have "ring m' l ?xs"
    using r(3) ne' d assms(3) by (simp add: ring_inner m'_def inner_upd)
  moreover have "ring m' h bs"
  proof -
    have s: "h # [] = [] @ [h]"
      by simp
    have "set vs \<subseteq> insert h (set bs)" "q \<notin> set vs"
      using ring_link_distinct(4,8) [OF s q] d by auto
    then have "l \<notin> set vs" "hd ?xs \<notin> set vs"
      using ne' assms(3) by auto
    then have "lpath m' (q # vs)"
      using r(6) ne' d \<open>q \<notin> set vs\<close> assms(3) by (simp add: m'_def ring_link_upd(3,4) [OF s q])
    then show ?thesis
      using ring_links [OF s q] ne' d by (simp add: m'_def)
  qed
  ultimately show ?thesis
    by blast
qed

lemma list_tests:
  assumes "ring m h xs"
  shows "list_empty h m = Some (xs = [])" "list_empty_careful h m = Some (xs = [])" "list_is_singular h m = Some (length xs = 1)"
proof (atomize (full), cases "xs = []")
  case True
  then show "list_empty h m = Some (xs = []) \<and> list_empty_careful h m = Some (xs = []) \<and> list_is_singular h m = Some (length xs = 1)"
    using assms by (simp add: ring_Nil list_empty_def list_empty_careful_def list_is_singular_def)
next
  case False
  have r: "m (Next h) = Some (hd xs)" "m (Prev h) = Some (last xs)" "hd xs \<noteq> h" "distinct xs"
    using assms False hd_in_set [OF False] by (auto simp: ring_inner)
  have "hd xs = last xs \<longleftrightarrow> length xs = 1"
    using r(4) False by (cases xs) auto
  then show "list_empty h m = Some (xs = []) \<and> list_empty_careful h m = Some (xs = []) \<and> list_is_singular h m = Some (length xs = 1)"
    using r False by (simp add: list_empty_def list_empty_careful_def list_is_singular_def)
qed

lemma list_is_last_ring:
  assumes "ring m h xs" "e \<in> set xs"
  shows "list_is_last e h m = Some (e = last xs)"
proof -
  obtain as bs where xs: "xs = as @ e # bs"
    using assms(2) split_list by metis
  obtain us p q vs where s: "h # as = us @ [p]" "bs @ [h] = q # vs"
    by (rule ring_link_split)
  have "m (Next e) = Some q" "distinct (h # as @ e # bs)"
    using assms(1) ring_links [of h as us p "e # bs" e "q # vs" m] s by (auto simp: xs)
  moreover have "q = h \<longleftrightarrow> bs = []"
    using s(2) calculation(2) by (cases bs) auto
  ultimately show ?thesis
    using last_in_set [of bs] by (auto simp: list_is_last_def xs)
qed

subsection \<open>Families of lists\<close>

text \<open>
  \<open>L\<close> maps the head of each list of a program to the nodes on it; \<open>A\<close> is the set of all list nodes. A
  family is well formed when every list is a ring and no node is on two lists or a head and on a list.
\<close>

type_synonym lists = "addr \<rightharpoonup> addr list"

definition apart :: "lists \<Rightarrow> addr set \<Rightarrow> bool" where
  "apart L S \<longleftrightarrow> (\<forall>g ys. L g = Some ys \<longrightarrow> (\<forall>a \<in> S. a \<noteq> g \<and> a \<notin> set ys))"

definition family :: "addr set \<Rightarrow> mem \<Rightarrow> lists \<Rightarrow> bool" where
  "family A m L \<longleftrightarrow> A = nodes m \<and> (\<forall>h xs. L h = Some xs \<longrightarrow> ring m h xs \<and> apart (L(h := None)) (insert h (set xs)))"

lemma apart_None [intro]: "apart L S \<Longrightarrow> apart (L(k := None)) S"
  by (simp add: apart_def)

lemma apartD: "apart L S \<Longrightarrow> L g = Some ys \<Longrightarrow> S \<inter> insert g (set ys) = {}"
  by (auto simp: apart_def)

lemma apart_Some [simp]: "apart (L(h \<mapsto> xs)) S \<longleftrightarrow> apart (L(h := None)) S \<and> S \<inter> insert h (set xs) = {}"
  by (auto simp: apart_def)

lemma apart_mono: "apart L S \<Longrightarrow> T \<subseteq> S \<Longrightarrow> apart L T"
  by (fastforce simp: apart_def)

lemma apart_Un: "apart L (S \<union> T) \<longleftrightarrow> apart L S \<and> apart L T"
  unfolding apart_def by blast

lemma family_ring: "family A m L \<Longrightarrow> L h = Some xs \<Longrightarrow> ring m h xs"
  by (simp add: family_def)

lemma family_apart: "family A m L \<Longrightarrow> L h = Some xs \<Longrightarrow> apart (L(h := None)) (insert h (set xs))"
  by (simp add: family_def)

lemma family_None: "family A m L \<Longrightarrow> family A m (L(k := None))"
  unfolding family_def by (metis apart_None fun_upd_apply fun_upd_twist option.distinct(1))

lemma family_touches: "family A m L \<Longrightarrow> touches S m m' \<Longrightarrow> apart L S \<Longrightarrow> family A m' L"
  using nodes_touches [of S m m'] ring_touches [of S m m'] apartD [of L S] by (simp add: family_def)

lemma family_put:
  assumes "family A m L" "ring m h xs" "apart (L(h := None)) (insert h (set xs))"
  shows "family A m (L(h \<mapsto> xs))"
proof -
  have "apart ((L(h \<mapsto> xs))(g := None)) (insert g (set ys))" if "(L(h \<mapsto> xs)) g = Some ys" for g ys
  proof (cases "g = h")
    case False
    then have "L g = Some ys" "apart ((L(g := None))(h := None)) (insert g (set ys))"
      using that assms(1) by (auto simp: family_def)
    moreover have "insert g (set ys) \<inter> insert h (set xs) = {}"
      using apartD [OF assms(3), of g ys] False calculation(1) by auto
    ultimately show ?thesis
      using False [symmetric] by (simp add: fun_upd_twist [of h g])
  qed (use that assms(3) in auto)
  then show ?thesis
    using assms(1,2) by (simp add: family_def)
qed

lemma family_replace:
  assumes "family A m L" "L h = Some xs" "apart L N" "touches (insert h (N \<union> set xs)) m m'" "ring m' h xs'" "set xs' \<subseteq> N \<union> set xs"
  shows "family A m' (L(h \<mapsto> xs'))"
proof -
  have a: "apart (L(h := None)) (insert h (N \<union> set xs))"
    using family_apart [OF assms(1,2)] apart_None [OF assms(3), of h] apart_Un [of "L(h := None)" N "insert h (set xs)"] by simp
  then have "family A m' (L(h := None))"
    using family_touches [OF family_None [OF assms(1)] assms(4)] by blast
  moreover have "apart (L(h := None)) (insert h (set xs'))"
    using assms(6) by (intro apart_mono [OF a]) auto
  ultimately show ?thesis
    using family_put [of A m' "L(h := None)" h xs'] assms(5) by simp
qed

lemma family_init:
  assumes "family A m L" "n \<in> A" "apart (L(n := None)) {n}"
  shows "\<exists>m'. INIT_LIST_HEAD n m = Some m' \<and> family A m' (L(n \<mapsto> []))"
proof -
  obtain m' where m': "INIT_LIST_HEAD n m = Some m'" "ring m' n []" "touches {n} m m'"
    using INIT_LIST_HEAD_ring [of n m] assms(1,2) by (auto simp: family_def)
  then have "family A m' (L(n := None))"
    using family_touches [OF family_None [OF assms(1)]] assms(3) by blast
  then show ?thesis
    using family_put [of A m' "L(n := None)" n "[]"] assms(3) m' by auto
qed

subsection \<open>What the operations do to a family\<close>

datatype list_op =
    ListInit addr | ListAdd addr addr | ListAddTail addr addr | ListDel addr | ListDelInit addr
  | ListReplace addr addr | ListReplaceInit addr addr | ListMove addr addr | ListMoveTail addr addr
  | ListRotateLeft addr | ListCut addr addr addr | ListSplice addr addr | ListSpliceTail addr addr
  | ListSpliceInit addr addr | ListSpliceTailInit addr addr

fun list_run :: "list_op \<Rightarrow> mem \<Rightarrow> mem option" where
  "list_run (ListInit l) = INIT_LIST_HEAD l"
| "list_run (ListAdd n h) = list_add n h"
| "list_run (ListAddTail n h) = list_add_tail n h"
| "list_run (ListDel e) = list_del e"
| "list_run (ListDelInit e) = list_del_init e"
| "list_run (ListReplace e n) = list_replace e n"
| "list_run (ListReplaceInit e n) = list_replace_init e n"
| "list_run (ListMove e h) = list_move e h"
| "list_run (ListMoveTail e h) = list_move_tail e h"
| "list_run (ListRotateLeft h) = list_rotate_left h"
| "list_run (ListCut l h e) = list_cut_position l h e"
| "list_run (ListSplice l h) = list_splice l h"
| "list_run (ListSpliceTail l h) = list_splice_tail l h"
| "list_run (ListSpliceInit l h) = list_splice_init l h"
| "list_run (ListSpliceTailInit l h) = list_splice_tail_init l h"

text \<open>
  \<open>unused A L n\<close>: \<open>n\<close> is a node on no list; it may be a head, whose list is then given up. The rules say what an
  operation does to the lists: a node that is taken off is unused, one that is taken off and
  initialised is the head of an empty list.
\<close>

definition unused :: "addr set \<Rightarrow> lists \<Rightarrow> addr \<Rightarrow> bool" where
  "unused A L n \<longleftrightarrow> n \<in> A \<and> apart (L(n := None)) {n}"

inductive list_step :: "addr set \<Rightarrow> lists \<Rightarrow> list_op \<Rightarrow> lists \<Rightarrow> bool" for A :: "addr set" where
  init: "unused A L n \<Longrightarrow> list_step A L (ListInit n) (L(n \<mapsto> []))"
| add: "unused A L n \<Longrightarrow> n \<noteq> h \<Longrightarrow> L h = Some xs \<Longrightarrow> list_step A L (ListAdd n h) (L(n := None, h \<mapsto> n # xs))"
| add_tail: "unused A L n \<Longrightarrow> n \<noteq> h \<Longrightarrow> L h = Some xs \<Longrightarrow> list_step A L (ListAddTail n h) (L(n := None, h \<mapsto> xs @ [n]))"
| del: "L h = Some (as @ e # bs) \<Longrightarrow> list_step A L (ListDel e) (L(h \<mapsto> as @ bs))"
| del_init: "L h = Some (as @ e # bs) \<Longrightarrow> list_step A L (ListDelInit e) (L(h \<mapsto> as @ bs, e \<mapsto> []))"
| replace: "unused A L n \<Longrightarrow> n \<noteq> h \<Longrightarrow> L h = Some (as @ e # bs) \<Longrightarrow> list_step A L (ListReplace e n) (L(n := None, h \<mapsto> as @ n # bs))"
| replace_head: "unused A L n \<Longrightarrow> n \<noteq> h \<Longrightarrow> L h = Some xs \<Longrightarrow> list_step A L (ListReplace h n) (L(h := None, n \<mapsto> xs))"
| replace_init: "list_step A L (ListReplace e n) L' \<Longrightarrow> list_step A L (ListReplaceInit e n) (L'(e \<mapsto> []))"
| move: "L h = Some (as @ e # bs) \<Longrightarrow> (L(h \<mapsto> as @ bs)) g = Some ys \<Longrightarrow> list_step A L (ListMove e g) (L(h \<mapsto> as @ bs, g \<mapsto> e # ys))"
| move_tail: "L h = Some (as @ e # bs) \<Longrightarrow> (L(h \<mapsto> as @ bs)) g = Some ys \<Longrightarrow> list_step A L (ListMoveTail e g) (L(h \<mapsto> as @ bs, g \<mapsto> ys @ [e]))"
| rotate_left: "L h = Some xs \<Longrightarrow> list_step A L (ListRotateLeft h) (L(h \<mapsto> rotate1 xs))"
| cut: "unused A L l \<Longrightarrow> l \<noteq> h \<Longrightarrow> L h = Some (as @ e # bs) \<Longrightarrow> list_step A L (ListCut l h e) (L(l \<mapsto> as @ [e], h \<mapsto> bs))"
| cut_none: "unused A L l \<Longrightarrow> L h = Some xs \<Longrightarrow> list_step A L (ListCut l h h) (if xs = [] then L else L(l \<mapsto> []))"
| splice: "l \<noteq> h \<Longrightarrow> L l = Some ys \<Longrightarrow> L h = Some xs \<Longrightarrow> list_step A L (ListSplice l h) (if ys = [] then L else L(l := None, h \<mapsto> ys @ xs))"
| splice_tail: "l \<noteq> h \<Longrightarrow> L l = Some ys \<Longrightarrow> L h = Some xs \<Longrightarrow> list_step A L (ListSpliceTail l h) (if ys = [] then L else L(l := None, h \<mapsto> xs @ ys))"
| splice_init: "l \<noteq> h \<Longrightarrow> L l = Some ys \<Longrightarrow> L h = Some xs \<Longrightarrow> list_step A L (ListSpliceInit l h) (L(l \<mapsto> [], h \<mapsto> ys @ xs))"
| splice_tail_init: "l \<noteq> h \<Longrightarrow> L l = Some ys \<Longrightarrow> L h = Some xs \<Longrightarrow> list_step A L (ListSpliceTailInit l h) (L(l \<mapsto> [], h \<mapsto> xs @ ys))"

text \<open>\<open>sim m L x L'\<close>: started in a memory with the lists \<open>L\<close>, the operation ran and left the lists \<open>L'\<close>.\<close>

definition done_with :: "addr set \<Rightarrow> mem option \<Rightarrow> lists \<Rightarrow> bool" where
  "done_with A x L' \<longleftrightarrow> (\<exists>m'. x = Some m' \<and> family A m' L')"

lemma done_with_bind: "done_with A x L1 \<Longrightarrow> (\<And>m1. family A m1 L1 \<Longrightarrow> done_with A (f m1) L') \<Longrightarrow> done_with A (Option.bind x f) L'"
  by (auto simp: done_with_def)

lemma done_with_Some [simp]: "done_with A (Some m) L \<longleftrightarrow> family A m L"
  by (simp add: done_with_def)

lemma family_unused: "family A m L \<Longrightarrow> unused A L n \<Longrightarrow> n \<noteq> h \<Longrightarrow> L h = Some xs \<Longrightarrow> n \<in> nodes m \<and> n \<notin> insert h (set xs)"
  using apartD [of "L(n := None)" "{n}" h xs] by (simp add: family_def unused_def)

lemma sim_init: "family A m L \<Longrightarrow> unused A L n \<Longrightarrow> done_with A (INIT_LIST_HEAD n m) (L(n \<mapsto> []))"
  using family_init by (auto simp: unused_def done_with_def)

lemma sim_one:
  assumes "family A m L" "L h = Some xs" "unused A L n" "n \<noteq> h"
    and "\<exists>m'. x = Some m' \<and> ring m' h xs' \<and> touches (insert h (insert n (set xs))) m m'" "set xs' \<subseteq> insert n (set xs)"
  shows "done_with A x (L(n := None, h \<mapsto> xs'))"
  using assms family_replace [OF family_None [OF assms(1)], of n h xs "{n}" _ xs'] by (auto simp: unused_def done_with_def)

lemma sim_add: "family A m L \<Longrightarrow> unused A L n \<Longrightarrow> n \<noteq> h \<Longrightarrow> L h = Some xs \<Longrightarrow> done_with A (list_add n h m) (L(n := None, h \<mapsto> n # xs))"
  using list_add_ring [OF family_ring] family_unused by (intro sim_one) auto

lemma sim_add_tail: "family A m L \<Longrightarrow> unused A L n \<Longrightarrow> n \<noteq> h \<Longrightarrow> L h = Some xs \<Longrightarrow> done_with A (list_add_tail n h m) (L(n := None, h \<mapsto> xs @ [n]))"
  using list_add_tail_ring [OF family_ring] family_unused by (intro sim_one) auto

lemma sim_replace: "family A m L \<Longrightarrow> unused A L n \<Longrightarrow> n \<noteq> h \<Longrightarrow> L h = Some (as @ e # bs) \<Longrightarrow>
  done_with A (list_replace e n m) (L(n := None, h \<mapsto> as @ n # bs))"
  using list_replace_ring [OF family_ring, of A m L h as e bs n] family_unused [of A m L n h]
  by (intro sim_one) (auto intro: touches_mono)

lemma sim_del_entry:
  assumes "family A m L" "L h = Some (as @ e # bs)"
  shows "done_with A (list_del_entry e m) (L(h \<mapsto> as @ bs))" "done_with A (list_del e m) (L(h \<mapsto> as @ bs))"
    "unused A (L(h \<mapsto> as @ bs)) e"
proof -
  have r: "ring m h (as @ e # bs)"
    using family_ring [OF assms] .
  obtain m' where m': "list_del_entry e m = Some m'" "ring m' h (as @ bs)" "touches (insert h (set (as @ bs))) m m'"
      "list_del e m = Some (m'(Next e \<mapsto> 0, Prev e \<mapsto> 0))"
    using list_del_entry_ring [OF r] by blast
  have "touches (insert h ({} \<union> set (as @ e # bs))) m m'"
    by (rule touches_mono [OF m'(3)]) auto
  then have f: "family A m' (L(h \<mapsto> as @ bs))"
    using family_replace [OF assms, of "{}" m' "as @ bs"] m'(2) by (auto simp: apart_def)
  then show "done_with A (list_del_entry e m) (L(h \<mapsto> as @ bs))"
    by (simp add: m')
  have "apart (L(h := None)) {e}"
    by (rule apart_mono [OF family_apart [OF assms]]) simp
  then have off: "apart (L(h \<mapsto> as @ bs)) {e}"
    using r by (auto simp: ring_def)
  then show un: "unused A (L(h \<mapsto> as @ bs)) e"
    using ring_nodes [OF r] assms(1) apart_None [OF off, of e] by (simp add: unused_def family_def)
  have "touches {e} m' (m'(Next e \<mapsto> 0, Prev e \<mapsto> 0))"
    using un f by (auto simp: touches_def unused_def family_def nodes_def)
  then show "done_with A (list_del e m) (L(h \<mapsto> as @ bs))"
    using family_touches [OF f _ off] m'(4) by simp
qed

lemma unused_member:
  assumes "family A m L" "L h = Some (as @ e # bs)"
  shows "L e = None" "e \<noteq> h"
proof -
  show "e \<noteq> h"
    using family_ring [OF assms] by (auto simp: ring_def)
  then show "L e = None"
    using apartD [OF family_apart [OF assms], of e] by (cases "L e") auto
qed

lemma sim_move_to:
  assumes "family A m L" "L h = Some (as @ e # bs)" "(L(h \<mapsto> as @ bs)) g = Some ys"
  shows "done_with A (list_move e g m) (L(h \<mapsto> as @ bs, g \<mapsto> e # ys))"
    "done_with A (list_move_tail e g m) (L(h \<mapsto> as @ bs, g \<mapsto> ys @ [e]))"
proof -
  note del = sim_del_entry [OF assms(1,2)]
  have e: "(L(h \<mapsto> as @ bs)) e = None"
    using unused_member [OF assms(1,2)] by simp
  then have eg: "e \<noteq> g" "(L(h \<mapsto> as @ bs))(e := None) = L(h \<mapsto> as @ bs)"
    using assms(3) by (auto simp: fun_upd_idem_iff)
  show "done_with A (list_move e g m) (L(h \<mapsto> as @ bs, g \<mapsto> e # ys))"
    unfolding list_move_def using done_with_bind [OF del(1) sim_add [OF _ del(3) eg(1) assms(3)]] unfolding eg(2) .
  show "done_with A (list_move_tail e g m) (L(h \<mapsto> as @ bs, g \<mapsto> ys @ [e]))"
    unfolding list_move_tail_def using done_with_bind [OF del(1) sim_add_tail [OF _ del(3) eg(1) assms(3)]] unfolding eg(2) .
qed

lemma sim_rotate_left:
  assumes "family A m L" "L h = Some xs"
  shows "done_with A (list_rotate_left h m) (L(h \<mapsto> rotate1 xs))"
proof (cases xs)
  case Nil
  then show ?thesis
    using assms list_tests(1) [OF family_ring [OF assms]] by (simp add: list_rotate_left_def fun_upd_idem)
next
  case (Cons x ys)
  then have "m (Next h) = Some x"
    using family_ring [OF assms] by (simp add: ring_def)
  then show ?thesis
    using Cons sim_move_to(2) [of A m L h "[]" x ys h ys] assms list_tests(1) [OF family_ring [OF assms]]
    by (simp add: list_rotate_left_def)
qed

lemma sim_replace_head:
  assumes "family A m L" "unused A L n" "n \<noteq> h" "L h = Some xs"
  shows "done_with A (list_replace h n m) (L(h := None, n \<mapsto> xs))"
proof -
  obtain m' where m': "list_replace h n m = Some m'" "ring m' n xs" "touches (insert h (insert n (set xs))) m m'"
    using list_replace_head_ring [OF family_ring [OF assms(1,4)]] family_unused [OF assms] by blast
  have a: "apart (L(h := None, n := None)) (insert h (insert n (set xs)))"
    using apart_None [OF family_apart [OF assms(1,4)], of n] assms(2) apart_None [of "L(n := None)" "{n}" h]
      apart_Un [of "L(h := None, n := None)" "{n}" "insert h (set xs)"] fun_upd_twist [OF assms(3), of L None None]
    by (simp add: unused_def insert_commute)
  then have "family A m' (L(h := None, n := None))"
    using family_touches [OF family_None [OF family_None [OF assms(1)]] m'(3)] by blast
  then have "family A m' (L(h := None, n := None, n \<mapsto> xs))"
    using m'(2) by (rule family_put) (auto intro: apart_mono [OF a])
  then show ?thesis
    by (simp add: m')
qed

lemma sim_cut:
  assumes "family A m L" "unused A L l" "l \<noteq> h" "L h = Some (as @ e # bs)"
  shows "done_with A (list_cut_position l h e m) (L(l \<mapsto> as @ [e], h \<mapsto> bs))"
proof -
  note r = family_ring [OF assms(1,4)]
  obtain m' where m': "list_cut_between l h e m = Some m'" "ring m' l (as @ [e])" "ring m' h bs"
      "touches (insert h (insert l (set (as @ e # bs)))) m m'"
    using list_cut_between_ring [OF r] family_unused [OF assms] by blast
  have "m (Next h) = Some (hd (as @ [e]))" "e \<noteq> h" "length (as @ e # bs) = 1 \<longrightarrow> hd (as @ [e]) = e"
    using r by (cases as; auto simp: ring_def)+
  then have run: "list_cut_position l h e m = Some m'"
    using m'(1) list_tests(1,3) [OF r] by (auto simp: list_cut_position_def)
  have tw: "L(h := None, l := None) = L(l := None, h := None)"
    using assms(3) by (simp add: fun_upd_twist)
  have a: "apart (L(l := None, h := None)) (insert h (insert l (set (as @ e # bs))))"
    using apart_None [OF family_apart [OF assms(1,4)], of l] assms(2) apart_None [of "L(l := None)" "{l}" h] tw
      apart_Un [of "L(l := None, h := None)" "{l}" "insert h (set (as @ e # bs))"]
    by (simp add: unused_def insert_commute)
  then have "family A m' (L(l := None, h := None))"
    using family_touches [OF family_None [OF family_None [OF assms(1)]] m'(4)] by blast
  then have "family A m' (L(l := None, h := None, l \<mapsto> as @ [e]))"
    using m'(2) by (rule family_put) (auto intro: apart_mono [OF a] apart_mono [OF apart_None [OF a]])
  then have "family A m' (L(l := None, h := None, l \<mapsto> as @ [e], h \<mapsto> bs))"
    using m'(3)
  proof (rule family_put)
    have "apart (L(l := None, h := None)) (insert h (set bs))" "insert h (set bs) \<inter> insert l (set (as @ [e])) = {}"
      using r family_unused [OF assms] by (auto intro: apart_mono [OF a] simp: ring_def)
    then show "apart (L(l := None, h := None, l \<mapsto> as @ [e], h := None)) (insert h (set bs))"
      using assms(3) by (simp add: fun_upd_twist [of l h])
  qed
  then show ?thesis
    using assms(3) by (simp add: run fun_upd_twist [of h l])
qed

lemma sim_splice_between:
  assumes "family A m L" "l \<noteq> h" "L l = Some ys" "ys \<noteq> []" "L h = Some (as @ bs)" "h # as = us @ [p]" "bs @ [h] = q # vs"
  shows "done_with A (list_splice_between l p q m) (L(l := None, h \<mapsto> as @ ys @ bs))"
proof -
  have a: "apart (L(l := None)) (insert l (set ys))"
    using family_apart [OF assms(1,3)] .
  then have "insert h (set (as @ bs)) \<inter> insert l (set ys) = {}"
    using apartD [of "L(l := None)" "insert l (set ys)" h "as @ bs"] assms(2,5) by auto
  then obtain m' where m': "list_splice_between l p q m = Some m'" "ring m' h (as @ ys @ bs)" "touches (insert h (set (as @ ys @ bs))) m m'"
    using list_splice_between_ring [OF family_ring [OF assms(1,5)] assms(6,7) family_ring [OF assms(1,3)] assms(4)] by blast
  have "insert h (set ys \<union> set (as @ bs)) = insert h (set (as @ ys @ bs))"
    by auto
  moreover have "apart (L(l := None)) (set ys)"
    by (rule apart_mono [OF a]) auto
  ultimately show ?thesis
    using family_replace [OF family_None [OF assms(1)], of l h "as @ bs" "set ys" m' "as @ ys @ bs"] m' assms(2,5) by auto
qed

lemma sim_splice:
  assumes "family A m L" "l \<noteq> h" "L l = Some ys" "ys \<noteq> []" "L h = Some xs"
  shows "\<exists>q. m (Next h) = Some q \<and> done_with A (list_splice_between l h q m) (L(l := None, h \<mapsto> ys @ xs))"
    and "\<exists>p. m (Prev h) = Some p \<and> done_with A (list_splice_between l p h m) (L(l := None, h \<mapsto> xs @ ys))"
proof -
  obtain us p where p: "h # xs = us @ [p]"
    by (metis ring_link_split)
  obtain q vs where q: "xs @ [h] = q # vs"
    by (metis ring_link_split)
  have "m (Next h) = Some q" "m (Prev h) = Some p"
    using family_ring [OF assms(1,5)] ring_links [of h "[]" "[]" h xs q vs m] ring_links [of h xs us p "[]" h "[]" m] p q by simp_all
  moreover have "done_with A (list_splice_between l h q m) (L(l := None, h \<mapsto> ys @ xs))"
    using sim_splice_between [OF assms(1-4), of "[]" xs "[]" h q vs] assms(5) q by simp
  moreover have "done_with A (list_splice_between l p h m) (L(l := None, h \<mapsto> xs @ ys))"
    using sim_splice_between [OF assms(1-4), of xs "[]" us p h "[]"] assms(5) p by simp
  ultimately show "\<exists>q. m (Next h) = Some q \<and> done_with A (list_splice_between l h q m) (L(l := None, h \<mapsto> ys @ xs))"
    "\<exists>p. m (Prev h) = Some p \<and> done_with A (list_splice_between l p h m) (L(l := None, h \<mapsto> xs @ ys))"
    by blast+
qed

lemma unused_head:
  assumes "family A m L" "l \<noteq> h" "L l = Some ys" "L h = Some xs" "set zs \<subseteq> set ys \<union> set xs"
  shows "unused A (L(l := None, h \<mapsto> zs)) l"
proof -
  have r: "ring m l ys" "apart (L(l := None)) (insert l (set ys))"
    using family_ring [OF assms(1,3)] family_apart [OF assms(1,3)] by auto
  then have "l \<notin> set ys" "l \<notin> set xs" "l \<in> A"
    using apartD [OF r(2), of h xs] assms(1,2,4) ring_nodes [OF r(1)] by (auto simp: ring_def family_def)
  moreover have "apart (L(l := None, h := None, l := None)) {l}"
    by (intro apart_None apart_mono [OF r(2)]) simp
  ultimately show ?thesis
    using assms(2,5) by (auto simp: unused_def fun_upd_twist [of h l])
qed

lemma sim_splice_ops:
  assumes "family A m L" "l \<noteq> h" "L l = Some ys" "L h = Some xs"
  shows "done_with A (list_splice l h m) (if ys = [] then L else L(l := None, h \<mapsto> ys @ xs))
    \<and> done_with A (list_splice_tail l h m) (if ys = [] then L else L(l := None, h \<mapsto> xs @ ys))
    \<and> done_with A (list_splice_init l h m) (L(l \<mapsto> [], h \<mapsto> ys @ xs))
    \<and> done_with A (list_splice_tail_init l h m) (L(l \<mapsto> [], h \<mapsto> xs @ ys))"
proof (cases "ys = []")
  case True
  then have "L(l \<mapsto> [], h \<mapsto> xs) = L"
    using assms by (auto simp: fun_eq_iff)
  then show ?thesis
    using assms(1) True list_tests(1) [OF family_ring [OF assms(1,3)]]
    by (simp add: list_splice_def list_splice_tail_def list_splice_init_def list_splice_tail_init_def)
next
  case False
  have tw: "L(l := None, h \<mapsto> zs, l \<mapsto> []) = L(l \<mapsto> [], h \<mapsto> zs)" for zs
    using assms(2) by (simp add: fun_upd_twist [of h l])
  have init: "done_with A (Option.bind x (INIT_LIST_HEAD l)) (L(l \<mapsto> [], h \<mapsto> zs))"
    if "done_with A x (L(l := None, h \<mapsto> zs))" "set zs \<subseteq> set ys \<union> set xs" for x zs
    using done_with_bind [OF that(1) sim_init [OF _ unused_head [OF assms that(2)]]] by (simp only: tw)
  show ?thesis
    using sim_splice [OF assms(1-3) False assms(4)] False list_tests(1) [OF family_ring [OF assms(1,3)]]
    by (auto intro!: init simp: list_splice_def list_splice_tail_def list_splice_init_def list_splice_tail_init_def)
qed

lemma unused_replaced:
  assumes "family A m L" "list_step A L (ListReplace e n) L'"
  shows "unused A L' e"
  using assms(2)
proof (cases rule: list_step.cases)
  case (replace h as bs)
  note r = family_ring [OF assms(1) replace(4)]
  have "apart (L(h := None, n := None)) {e}"
    by (rule apart_mono [OF apart_None [OF family_apart [OF assms(1) replace(4)]]]) simp
  moreover have "e \<in> A" "e \<notin> insert h (set (as @ bs))"
    using assms(1) r ring_nodes [OF r] by (auto simp: family_def ring_def)
  moreover have "e \<noteq> n"
    using family_unused [OF assms(1) replace(2,3,4)] by auto
  ultimately have "apart L' {e}"
    using replace by (simp add: fun_upd_twist [of h n])
  then show ?thesis
    using \<open>e \<in> A\<close> apart_None by (simp add: unused_def)
next
  case (replace_head xs)
  note r = family_ring [OF assms(1) replace_head(4)]
  have "apart (L(e := None, n := None)) {e}"
    by (rule apart_mono [OF apart_None [OF family_apart [OF assms(1) replace_head(4)]]]) simp
  moreover have "e \<in> A" "e \<notin> set xs"
    using assms(1) r ring_nodes [OF r] by (auto simp: family_def ring_def)
  ultimately have "apart L' {e}"
    using replace_head by simp
  then show ?thesis
    using \<open>e \<in> A\<close> apart_None by (simp add: unused_def)
qed

lemma sim_del_init: "family A m L \<Longrightarrow> L h = Some (as @ e # bs) \<Longrightarrow> done_with A (list_del_init e m) (L(h \<mapsto> as @ bs, e \<mapsto> []))"
  unfolding list_del_init_def by (rule done_with_bind [OF sim_del_entry(1) sim_init [OF _ sim_del_entry(3)]])

lemma sim_step: "list_step A L op L' \<Longrightarrow> family A m L \<Longrightarrow> done_with A (list_run op m) L'"
proof (induction rule: list_step.induct)
  case (replace_init L e n L')
  then have "done_with A (list_replace e n m) L'"
    by simp
  from done_with_bind [OF this sim_init [OF _ unused_replaced [OF replace_init(3,1)]]] show ?case
    by (simp only: list_run.simps list_replace_init_def)
next
  case (cut_none L l h xs)
  obtain q where "m (Next h) = Some q"
    using ring_nodes [OF family_ring [OF cut_none(3,2)]] by (auto simp: nodes_def)
  then show ?case
    using list_tests(1,3) [OF family_ring [OF cut_none(3,2)]] sim_init [OF cut_none(3,1)] cut_none(3)
    by (simp add: list_cut_position_def del: fun_upd_apply)
qed (simp_all add: sim_init sim_add sim_add_tail sim_del_entry sim_del_init sim_replace sim_replace_head
  sim_move_to sim_rotate_left sim_cut sim_splice_ops)

text \<open>C13: the list operations of \<open>list.h\<close> are operations on lists. In a memory where every list is a ring and no
  node is on two lists, each operation that its rule in \<open>list_step\<close> allows runs without touching memory that is
  not there, and leaves all lists, those it did not name included, as the rule says, again as rings
  with no node shared.\<close>

theorem list_ops_refine_lists:
  assumes "family A m L" and "list_step A L op L'"
  shows "\<exists>m'. list_run op m = Some m' \<and> family A m' L'"
  using sim_step [OF assms(2,1)] by (simp add: done_with_def)

text \<open>A memory with two lists, one with two nodes and one empty, and one node on neither.\<close>

definition sample_lists :: lists where
  "sample_lists = [1 \<mapsto> [3, 4], 2 \<mapsto> []]"

definition sample_mem :: mem where
  "sample_mem = [Next 1 \<mapsto> 3, Prev 3 \<mapsto> 1, Next 3 \<mapsto> 4, Prev 4 \<mapsto> 3, Next 4 \<mapsto> 1, Prev 1 \<mapsto> 4,
     Next 2 \<mapsto> 2, Prev 2 \<mapsto> 2, Next 5 \<mapsto> 0, Prev 5 \<mapsto> 0]"

lemma sample_family: "family {1, 2, 3, 4, 5} sample_mem sample_lists"
proof -
  have "nodes sample_mem = {1, 2, 3, 4, 5}"
    by (auto simp: nodes_def sample_mem_def split: if_splits)
  moreover have "ring sample_mem 1 [3, 4]" "ring sample_mem 2 []"
    by (simp_all add: ring_def sample_mem_def)
  ultimately show ?thesis
    by (auto simp: family_def sample_lists_def apart_def split: if_splits)
qed

theorem list_ops_refine_lists_witness:
  "\<exists>m'. list_run (ListMoveTail 3 2) sample_mem = Some m' \<and> family {1, 2, 3, 4, 5} m' (sample_lists(1 \<mapsto> [4], 2 \<mapsto> [3]))"
proof -
  have "list_step {1, 2, 3, 4, 5} sample_lists (ListMoveTail 3 2) (sample_lists(1 \<mapsto> [] @ [4], 2 \<mapsto> [] @ [3]))"
    by (rule list_step.move_tail) (simp_all add: sample_lists_def)
  from list_ops_refine_lists [OF sample_family this] show ?thesis
    by simp
qed

subsection \<open>Loops\<close>

lemma ring_next:
  assumes "ring m h (as @ bs)"
  shows "m (Next (last (h # as))) = Some (hd (bs @ [h]))" "m (Prev (hd (bs @ [h]))) = Some (last (h # as))"
proof -
  obtain us p q vs where s: "h # as = us @ [p]" "bs @ [h] = q # vs"
    by (rule ring_link_split)
  have "last (h # as) = p" "hd (bs @ [h]) = q"
    unfolding s by simp_all
  then show "m (Next (last (h # as))) = Some (hd (bs @ [h]))" "m (Prev (hd (bs @ [h]))) = Some (last (h # as))"
    using assms by (simp_all only: ring_links [OF s])
qed

text \<open>
  The contract of a body of \<open>list_for_each_safe\<close>: on lists that satisfy \<open>I\<close> it does \<open>abody\<close> and keeps \<open>I\<close>; whatever that is, it leaves
  the part of the traversed list after the cursor alone. The cursor itself may be taken off, freed or moved.
  Then the loop ends, and it is the fold of \<open>abody\<close> over the list as it was at the start.
\<close>

locale safe_traversal =
  fixes A :: "addr set" and I :: "lists \<Rightarrow> bool" and h :: addr and body :: "'s body" and abody :: "addr \<Rightarrow> lists \<times> 's \<Rightarrow> lists \<times> 's"
  assumes body_abody: "family A m L \<Longrightarrow> I L \<Longrightarrow> L h = Some (as @ e # bs) \<Longrightarrow>
      \<exists>m' as'. body e (m, s) = Some (m', snd (abody e (L, s))) \<and> family A m' (fst (abody e (L, s)))
        \<and> I (fst (abody e (L, s))) \<and> fst (abody e (L, s)) h = Some (as' @ bs)"
begin

lemma safe_from:
  "family A m L \<Longrightarrow> I L \<Longrightarrow> L h = Some (as @ bs) \<Longrightarrow> (bs \<noteq> [] \<longrightarrow> n = hd (tl bs @ [h])) \<Longrightarrow>
   \<exists>m'. list_for_each_safe_from body h (hd (bs @ [h])) n (m, s) = Some (m', snd (fold abody bs (L, s)))
     \<and> family A m' (fst (fold abody bs (L, s)))"
proof (induction bs arbitrary: m L s as n)
  case Nil
  then show ?case
    by (subst list_for_each_safe_from.simps) simp
next
  case (Cons e bs)
  obtain m' as' where m': "body e (m, s) = Some (m', snd (abody e (L, s)))" "family A m' (fst (abody e (L, s)))"
      "fst (abody e (L, s)) h = Some (as' @ bs)" and inv: "I (fst (abody e (L, s)))"
    using body_abody [OF Cons.prems(1-3)] by blast
  have "e \<noteq> h"
    using family_ring [OF Cons.prems(1,3)] by (auto simp: ring_def)
  have "hd (bs @ [h]) \<in> nodes m'"
    using ring_nodes [OF family_ring [OF m'(2,3)]] by (cases bs) auto
  then obtain nn where nn: "m' (Next (hd (bs @ [h]))) = Some nn"
    by (auto simp: nodes_def)
  have "bs \<noteq> [] \<longrightarrow> nn = hd (tl bs @ [h])"
    using ring_next(1) [of m' h "as' @ [hd bs]" "tl bs"] family_ring [OF m'(2,3)] nn by (cases bs) auto
  from Cons.IH [OF m'(2) inv m'(3) this, of "snd (abody e (L, s))"] show ?case
    using Cons.prems(4) m'(1) nn \<open>e \<noteq> h\<close> by (subst list_for_each_safe_from.simps) simp
qed

lemma safe_loop:
  assumes "family A m L" "I L" "L h = Some xs"
  shows "\<exists>m'. list_for_each_safe body h (m, s) = Some (m', snd (fold abody xs (L, s))) \<and> family A m' (fst (fold abody xs (L, s)))"
proof -
  note r = family_ring [OF assms(1,3)]
  have pos: "m (Next h) = Some (hd (xs @ [h]))"
    using ring_next(1) [of m h "[]" xs] r by simp
  moreover have "hd (xs @ [h]) \<in> nodes m"
    using ring_nodes [OF r] by (cases xs) auto
  ultimately obtain n where n: "m (Next (hd (xs @ [h]))) = Some n"
    by (auto simp: nodes_def)
  have "xs \<noteq> [] \<longrightarrow> n = hd (tl xs @ [h])"
    using ring_next(1) [of m h "[hd xs]" "tl xs"] r n by (cases xs) auto
  from safe_from [of m L "[]" xs n s, OF assms(1,2) _ this] show ?thesis
    using assms(3) pos n by (simp add: list_for_each_safe_def)
qed

end

text \<open>Loops whose body leaves the links alone visit the nodes in order, or in reverse order.\<close>

lemma list_for_each_fold:
  assumes "ring m h xs" "\<And>e s. e \<in> set xs \<Longrightarrow> body e (m, s) = Some (m, f e s)"
  shows "list_for_each body h (m, s) = Some (m, fold f xs s)"
proof -
  have "list_for_each_from body h (hd (bs @ [h])) (m, s) = Some (m, fold f bs s)" if "xs = as @ bs" for as bs s
    using that
  proof (induction bs arbitrary: as s)
    case Nil
    then show ?case
      by (subst list_for_each_from.simps) simp
  next
    case (Cons e bs)
    have "e \<noteq> h" "m (Next e) = Some (hd (bs @ [h]))" "body e (m, s) = Some (m, f e s)"
      using assms(1,2) Cons.prems ring_next(1) [of m h "as @ [e]" bs] by (auto simp: ring_def)
    then show ?case
      using Cons.IH [of "as @ [e]" "f e s"] Cons.prems by (subst list_for_each_from.simps) simp
  qed
  from this [of "[]" xs s] show ?thesis
    using ring_next(1) [of m h "[]" xs] assms(1) by (simp add: list_for_each_def)
qed

lemma list_for_each_prev_fold:
  assumes "ring m h xs" "\<And>e s. e \<in> set xs \<Longrightarrow> body e (m, s) = Some (m, f e s)"
  shows "list_for_each_prev body h (m, s) = Some (m, fold f (rev xs) s)"
proof -
  have "list_for_each_prev_from body h (last (h # as)) (m, s) = Some (m, fold f (rev as) s)" if "xs = as @ bs" for as bs s
    using that
  proof (induction as arbitrary: bs s rule: rev_induct)
    case Nil
    then show ?case
      by (subst list_for_each_prev_from.simps) simp
  next
    case (snoc e as)
    have "e \<noteq> h" "m (Prev e) = Some (last (h # as))" "body e (m, s) = Some (m, f e s)"
      using assms(1,2) snoc.prems ring_next(2) [of m h as "e # bs"] by (auto simp: ring_def)
    then show ?case
      using snoc.IH [of "e # bs" "f e s"] snoc.prems by (subst list_for_each_prev_from.simps) simp
  qed
  from this [of xs "[]" s] show ?thesis
    using ring_next(2) [of m h xs "[]"] assms(1) by (simp add: list_for_each_prev_def)
qed

lemma list_search_find:
  assumes "ring m h xs"
  shows "list_search P h m = Some (case find P xs of Some x \<Rightarrow> x | None \<Rightarrow> 0)"
proof -
  have "list_search_from P h (hd (bs @ [h])) m = Some (case find P bs of Some x \<Rightarrow> x | None \<Rightarrow> 0)" if "xs = as @ bs" for as bs
    using that
  proof (induction bs arbitrary: as)
    case Nil
    then show ?case
      by (subst list_search_from.simps) simp
  next
    case (Cons e bs)
    have "e \<noteq> h" "m (Next e) = Some (hd (bs @ [h]))"
      using assms(1) Cons.prems ring_next(1) [of m h "as @ [e]" bs] by (auto simp: ring_def)
    then show ?case
      using Cons.IH [of "as @ [e]"] Cons.prems by (subst list_search_from.simps) simp
  qed
  from this [of "[]" xs] show ?thesis
    using ring_next(1) [of m h "[]" xs] assms(1) by (simp add: list_search_def)
qed

text \<open>
  Emptying a list, as \<open>part_item_clean\<close> of \<open>partool.c\<close> and \<open>__fini\<close> of \<open>timer.c\<close> do: each node is taken off, and the
  owner does what it does with it; here it is noted.
\<close>

definition drain_body :: "addr list body" where
  "drain_body e = (\<lambda>(m, gone). do { m \<leftarrow> list_del e m; Some (m, e # gone) })"

definition drain_step :: "addr \<Rightarrow> addr \<Rightarrow> lists \<times> addr list \<Rightarrow> lists \<times> addr list" where
  "drain_step h e = (\<lambda>(L, gone). (L(h \<mapsto> remove1 e (the (L h))), e # gone))"

interpretation drain: safe_traversal A "\<lambda>_. True" h drain_body "drain_step h"
proof unfold_locales
  fix m L as e bs and gone :: "addr list"
  assume f: "family A m L" "L h = Some (as @ e # bs)"
  have "remove1 e (as @ e # bs) = as @ bs"
    using family_ring [OF f] by (simp add: ring_def remove1_append)
  then show "\<exists>m' as'. drain_body e (m, gone) = Some (m', snd (drain_step h e (L, gone)))
      \<and> family A m' (fst (drain_step h e (L, gone))) \<and> True \<and> fst (drain_step h e (L, gone)) h = Some (as' @ bs)"
    using sim_del_entry(2) [OF f] f(2) by (auto simp: drain_body_def drain_step_def done_with_def)
qed

lemma drain_fold: "L h = Some (xs @ ys) \<Longrightarrow> fold (drain_step h) xs (L, gone) = (L(h \<mapsto> ys), rev xs @ gone)"
  by (induction xs arbitrary: L gone) (simp_all add: drain_step_def fun_upd_idem)

text \<open>Emptying a list while walking it. The safe loop ends, takes every node off exactly once and in order, leaves the
  list empty and every other list alone. The plain loop, given the same body, follows the NULL that
  \<open>list_del\<close> leaves in the node it took off.\<close>

theorem list_drain:
  assumes "family A m L" and "L h = Some xs" and "Next 0 \<notin> dom m"
  shows "(\<exists>m'. list_for_each_safe drain_body h (m, []) = Some (m', rev xs) \<and> family A m' (L(h \<mapsto> [])))
    \<and> (list_for_each drain_body h (m, []) = None \<longleftrightarrow> xs \<noteq> [])"
proof
  show "\<exists>m'. list_for_each_safe drain_body h (m, []) = Some (m', rev xs) \<and> family A m' (L(h \<mapsto> []))"
    using drain.safe_loop [OF assms(1) TrueI assms(2), of "[]"] drain_fold [of L h xs "[]" "[]"] assms(2) by simp
  note r = family_ring [OF assms(1,2)]
  show "list_for_each drain_body h (m, []) = None \<longleftrightarrow> xs \<noteq> []"
  proof (cases xs)
    case Nil
    then show ?thesis
      using list_for_each_fold [of m h xs drain_body "\<lambda>_ s. s"] r by simp
  next
    case (Cons e bs)
    then obtain m' where m': "list_del e m = Some (m'(Next e \<mapsto> 0, Prev e \<mapsto> 0))" "touches (insert h (set bs)) m m'"
      using list_del_entry_ring [of m h "[]" e bs] r by auto
    have "e \<noteq> h" "m (Next h) = Some e" "0 \<notin> nodes m"
      using r Cons assms(3) by (auto simp: ring_def nodes_def)
    moreover have n0: "h \<noteq> 0" "m' (Next 0) = None"
      using ring_nodes [OF r] assms(3) m'(2) \<open>0 \<notin> nodes m\<close> by (auto simp: touches_def)
    moreover have e0: "e \<noteq> 0"
      using ring_nodes [OF r] Cons \<open>0 \<notin> nodes m\<close> by (cases e) auto
    moreover have "list_del 0 (m'(Next e \<mapsto> 0, Prev e \<mapsto> 0)) = None"
      using n0(2) e0 by (cases "m' (Prev 0)") (simp_all add: list_del_def)
    ultimately show ?thesis
      using Cons m'(1) by (simp add: list_for_each_def list_for_each_from.simps [of _ h e] list_for_each_from.simps [of _ h 0] drain_body_def)
  qed
qed

theorem list_drain_witness:
  "(\<exists>m'. list_for_each_safe drain_body 1 (sample_mem, []) = Some (m', [4, 3]) \<and> family {1, 2, 3, 4, 5} m' (sample_lists(1 \<mapsto> [])))
    \<and> list_for_each drain_body 1 (sample_mem, []) = None"
  using list_drain [OF sample_family, of 1 "[3, 4]"] by (simp add: sample_lists_def sample_mem_def)

end
