(* ===== verification/Os_Hlist.thy ===== *)
theory Os_Hlist
  imports Os_List
begin

text \<open>
  Hash chains of \<open>utils/list.h\<close>. A node does not point back to the node before it but to the pointer that
  points to it, so that a node can be taken off without knowing its head; that pointer is the \<open>first\<close> of a
  head or the \<open>next\<close> of a node. As in \<open>Os_List\<close>, the refinement lemma is about all chains of a program at once.
\<close>

section \<open>Hash chains\<close>

subsection \<open>Memory and operations\<close>

text \<open>A pointer to a \<open>struct hlist_node *\<close>; \<open>pprevs\<close> holds the \<open>pprev\<close> of each node, \<open>None\<close> for NULL.\<close>

datatype slot = First addr | HNext addr

record hmem =
  hptr :: "slot \<rightharpoonup> addr"
  pprevs :: "addr \<rightharpoonup> slot option"

definition hstore :: "slot \<Rightarrow> addr \<Rightarrow> hmem \<Rightarrow> hmem option" where
  "hstore s v m = (if hptr m s = None then None else Some (m\<lparr>hptr := (hptr m)(s \<mapsto> v)\<rparr>))"

definition pstore :: "addr \<Rightarrow> slot option \<Rightarrow> hmem \<Rightarrow> hmem option" where
  "pstore n v m = (if pprevs m n = None then None else Some (m\<lparr>pprevs := (pprevs m)(n \<mapsto> v)\<rparr>))"

definition INIT_HLIST_HEAD :: "addr \<Rightarrow> hmem \<Rightarrow> hmem option" where
  "INIT_HLIST_HEAD h m = hstore (First h) 0 m"

definition INIT_HLIST_NODE :: "addr \<Rightarrow> hmem \<Rightarrow> hmem option" where
  "INIT_HLIST_NODE n m = do { m \<leftarrow> hstore (HNext n) 0 m; pstore n None m }"

definition hlist_unhashed :: "addr \<Rightarrow> hmem \<Rightarrow> bool option" where
  "hlist_unhashed n m = do { p \<leftarrow> pprevs m n; Some (p = None) }"

definition hlist_empty :: "addr \<Rightarrow> hmem \<Rightarrow> bool option" where
  "hlist_empty h m = do { f \<leftarrow> hptr m (First h); Some (f = 0) }"

definition hlist_unlink :: "addr \<Rightarrow> hmem \<Rightarrow> hmem option" where
  "hlist_unlink n m = do {
     nxt \<leftarrow> hptr m (HNext n);
     pp \<leftarrow> pprevs m n;
     pprev \<leftarrow> pp;
     m \<leftarrow> hstore pprev nxt m;
     if nxt \<noteq> 0 then pstore nxt (Some pprev) m else Some m }"

definition hlist_del :: "addr \<Rightarrow> hmem \<Rightarrow> hmem option" where
  "hlist_del n m = do {
     m \<leftarrow> hlist_unlink n m;
     m \<leftarrow> hstore (HNext n) 0 m;
     pstore n None m }"

definition hlist_del_init :: "addr \<Rightarrow> hmem \<Rightarrow> hmem option" where
  "hlist_del_init n m = do {
     unhashed \<leftarrow> hlist_unhashed n m;
     if \<not> unhashed then do { m \<leftarrow> hlist_unlink n m; INIT_HLIST_NODE n m } else Some m }"

definition hlist_add_head :: "addr \<Rightarrow> addr \<Rightarrow> hmem \<Rightarrow> hmem option" where
  "hlist_add_head n h m = do {
     fst \<leftarrow> hptr m (First h);
     m \<leftarrow> hstore (HNext n) fst m;
     m \<leftarrow> (if fst \<noteq> 0 then pstore fst (Some (HNext n)) m else Some m);
     m \<leftarrow> hstore (First h) n m;
     pstore n (Some (First h)) m }"

definition hlist_add_before :: "addr \<Rightarrow> addr \<Rightarrow> hmem \<Rightarrow> hmem option" where
  "hlist_add_before n nxt m = do {
     pp \<leftarrow> pprevs m nxt;
     m \<leftarrow> pstore n pp m;
     m \<leftarrow> hstore (HNext n) nxt m;
     m \<leftarrow> pstore nxt (Some (HNext n)) m;
     npp \<leftarrow> pprevs m n;
     npprev \<leftarrow> npp;
     hstore npprev n m }"

definition hlist_add_after :: "addr \<Rightarrow> addr \<Rightarrow> hmem \<Rightarrow> hmem option" where
  "hlist_add_after n nxt m = do {
     nnext \<leftarrow> hptr m (HNext n);
     m \<leftarrow> hstore (HNext nxt) nnext m;
     m \<leftarrow> hstore (HNext n) nxt m;
     m \<leftarrow> pstore nxt (Some (HNext n)) m;
     x \<leftarrow> hptr m (HNext nxt);
     if x \<noteq> 0 then pstore x (Some (HNext nxt)) m else Some m }"

definition hlist_add_fake :: "addr \<Rightarrow> hmem \<Rightarrow> hmem option" where
  "hlist_add_fake n m = pstore n (Some (HNext n)) m"

definition hlist_move_list :: "addr \<Rightarrow> addr \<Rightarrow> hmem \<Rightarrow> hmem option" where
  "hlist_move_list old new m = do {
     f \<leftarrow> hptr m (First old);
     m \<leftarrow> hstore (First new) f m;
     nf \<leftarrow> hptr m (First new);
     m \<leftarrow> (if nf \<noteq> 0 then pstore nf (Some (First new)) m else Some m);
     hstore (First old) 0 m }"

text \<open>The loops end at a NULL; a loop that returns at the first match is \<open>hlist_search\<close>.\<close>

partial_function (option) hlist_for_each_from :: "(addr \<Rightarrow> hmem \<times> 's \<Rightarrow> (hmem \<times> 's) option) \<Rightarrow> addr \<Rightarrow> hmem \<times> 's \<Rightarrow> (hmem \<times> 's) option" where
  "hlist_for_each_from body pos st =
     (if pos = 0 then Some st
      else Option.bind (body pos st) (\<lambda>st.
           Option.bind (hptr (fst st) (HNext pos)) (\<lambda>nxt. hlist_for_each_from body nxt st)))"

definition hlist_for_each :: "(addr \<Rightarrow> hmem \<times> 's \<Rightarrow> (hmem \<times> 's) option) \<Rightarrow> addr \<Rightarrow> hmem \<times> 's \<Rightarrow> (hmem \<times> 's) option" where
  "hlist_for_each body h st = do { pos \<leftarrow> hptr (fst st) (First h); hlist_for_each_from body pos st }"

partial_function (option) hlist_for_each_safe_from :: "(addr \<Rightarrow> hmem \<times> 's \<Rightarrow> (hmem \<times> 's) option) \<Rightarrow> addr \<Rightarrow> hmem \<times> 's \<Rightarrow> (hmem \<times> 's) option" where
  "hlist_for_each_safe_from body pos st =
     (if pos = 0 then Some st
      else Option.bind (hptr (fst st) (HNext pos)) (\<lambda>n.
           Option.bind (body pos st) (\<lambda>st. hlist_for_each_safe_from body n st)))"

definition hlist_for_each_safe :: "(addr \<Rightarrow> hmem \<times> 's \<Rightarrow> (hmem \<times> 's) option) \<Rightarrow> addr \<Rightarrow> hmem \<times> 's \<Rightarrow> (hmem \<times> 's) option" where
  "hlist_for_each_safe body h st = do { pos \<leftarrow> hptr (fst st) (First h); hlist_for_each_safe_from body pos st }"

partial_function (option) hlist_search_from :: "(addr \<Rightarrow> bool) \<Rightarrow> addr \<Rightarrow> hmem \<Rightarrow> addr option" where
  "hlist_search_from P pos m =
     (if pos = 0 then Some 0
      else if P pos then Some pos
      else Option.bind (hptr m (HNext pos)) (\<lambda>nxt. hlist_search_from P nxt m))"

definition hlist_search :: "(addr \<Rightarrow> bool) \<Rightarrow> addr \<Rightarrow> hmem \<Rightarrow> addr option" where
  "hlist_search P h m = do { pos \<leftarrow> hptr m (First h); hlist_search_from P pos m }"

subsection \<open>Chains\<close>

text \<open>\<open>hseg m s xs\<close>: from the pointer \<open>s\<close> the nodes \<open>xs\<close> follow, each pointing back to the pointer that points to it.
  \<open>hend s xs\<close> is the pointer behind the last of them.\<close>

fun hseg :: "hmem \<Rightarrow> slot \<Rightarrow> addr list \<Rightarrow> bool" where
  "hseg m s [] \<longleftrightarrow> True"
| "hseg m s (x # xs) \<longleftrightarrow> hptr m s = Some x \<and> x \<noteq> 0 \<and> pprevs m x = Some (Some s) \<and> hseg m (HNext x) xs"

definition hend :: "slot \<Rightarrow> addr list \<Rightarrow> slot" where
  "hend s xs = (if xs = [] then s else HNext (last xs))"

definition chain :: "hmem \<Rightarrow> addr \<Rightarrow> addr list \<Rightarrow> bool" where
  "chain m h xs \<longleftrightarrow> distinct xs \<and> hseg m (First h) xs \<and> hptr m (hend (First h) xs) = Some 0"

lemma hend_simps [simp]: "hend s [] = s" "hend s (x # xs) = hend (HNext x) xs" "hend s (xs @ [x]) = HNext x"
  by (simp_all add: hend_def)

lemma hend_append: "hend s (xs @ ys) = hend (hend s xs) ys"
  by (simp add: hend_def)

lemma hseg_append: "hseg m s (as @ bs) \<longleftrightarrow> hseg m s as \<and> hseg m (hend s as) bs"
  by (induction as arbitrary: s) auto

lemma hseg_cong:
  assumes "xs \<noteq> [] \<Longrightarrow> hptr m' s = hptr m s" "\<And>x. x \<in> set (butlast xs) \<Longrightarrow> hptr m' (HNext x) = hptr m (HNext x)"
    "\<And>x. x \<in> set xs \<Longrightarrow> pprevs m' x = pprevs m x"
  shows "hseg m' s xs = hseg m s xs"
  using assms
proof (induction xs arbitrary: s)
  case (Cons x xs)
  then show ?case
    by (cases xs) auto
qed simp

text \<open>The pointer at the end of a segment: which pointers it can be, and that no node of the segment is behind it.\<close>

lemma hend_cases: "hend (First h) xs = First h \<and> xs = [] \<or> (\<exists>x \<in> set xs. hend (First h) xs = HNext x \<and> x = last xs)"
  by (auto simp: hend_def)

lemma hend_not_inside: "distinct xs \<Longrightarrow> x \<in> set (butlast xs) \<Longrightarrow> HNext x \<noteq> hend s xs"
  by (auto simp: hend_def) (metis append_butlast_last_id distinct_append empty_set disjoint_insert(1) list.simps(15))

subsection \<open>Linking and unlinking\<close>

text \<open>Every way to add a node links it in between a pointer \<open>t\<close> and what \<open>t\<close> pointed to, \<open>b\<close>; every way to take one off is \<open>link_out\<close>.\<close>

definition first_of :: "addr list \<Rightarrow> addr" where
  "first_of xs = (case xs of [] \<Rightarrow> 0 | x # _ \<Rightarrow> x)"

definition set_pprev :: "addr \<Rightarrow> slot \<Rightarrow> (addr \<rightharpoonup> slot option) \<Rightarrow> addr \<rightharpoonup> slot option" where
  "set_pprev b t p = (if b = 0 then p else p(b \<mapsto> Some t))"

definition link_in :: "slot \<Rightarrow> addr \<Rightarrow> addr \<Rightarrow> hmem \<Rightarrow> hmem" where
  "link_in t n b m = m\<lparr>hptr := (hptr m)(HNext n \<mapsto> b, t \<mapsto> n), pprevs := (set_pprev b (HNext n) (pprevs m))(n \<mapsto> Some t)\<rparr>"

definition link_out :: "slot \<Rightarrow> addr \<Rightarrow> hmem \<Rightarrow> hmem" where
  "link_out t b m = m\<lparr>hptr := (hptr m)(t \<mapsto> b), pprevs := set_pprev b t (pprevs m)\<rparr>"

lemma first_of_simps [simp]: "first_of [] = 0" "first_of (x # xs) = x"
  by (simp_all add: first_of_def)

lemma set_pprev_apply [simp]: "set_pprev b t p x = (if b \<noteq> 0 \<and> x = b then Some (Some t) else p x)"
  by (simp add: set_pprev_def)

lemma chain_split:
  "chain m h (as @ bs) \<longleftrightarrow> distinct (as @ bs) \<and> hseg m (First h) as \<and> hseg m (hend (First h) as) bs
    \<and> hptr m (hend (hend (First h) as) bs) = Some 0"
  by (auto simp: chain_def hseg_append hend_append)

lemma chain_ptr: "chain m h (as @ bs) \<Longrightarrow> hptr m (hend (First h) as) = Some (first_of bs)"
  by (cases bs) (simp_all only: chain_split hseg.simps hend_simps first_of_simps)

lemma hseg_nonzero: "hseg m s xs \<Longrightarrow> x \<in> set xs \<Longrightarrow> x \<noteq> 0"
  by (induction xs arbitrary: s) auto

lemma first_of_fresh: "distinct (as @ bs) \<Longrightarrow> 0 \<notin> set as \<Longrightarrow> first_of bs \<notin> set as"
  by (cases bs) auto

lemma chain_nonzero: "chain m h xs \<Longrightarrow> x \<in> set xs \<Longrightarrow> x \<noteq> 0 \<and> HNext x \<in> dom (hptr m) \<and> x \<in> dom (pprevs m)"
proof -
  assume c: "chain m h xs" and "x \<in> set xs"
  then obtain as bs where "xs = (as @ [x]) @ bs"
    using split_list by fastforce
  then show ?thesis
    using c chain_ptr [of m h "as @ [x]" bs] chain_split [of m h as "x # bs"] by auto
qed

lemma hseg_before:
  assumes "distinct (as @ bs)" "\<And>s. s \<notin> {hend (First h) as, HNext n} \<Longrightarrow> hptr m' s = hptr m s"
    "\<And>x. x \<notin> {first_of bs, n} \<Longrightarrow> pprevs m' x = pprevs m x" "hseg m (First h) as" "n \<notin> set as"
  shows "hseg m' (First h) as"
proof -
  have "hseg m' (First h) as = hseg m (First h) as"
  proof (rule hseg_cong)
    show "hptr m' (First h) = hptr m (First h)" if "as \<noteq> []"
      using assms(2) that by (simp add: hend_def)
    show "hptr m' (HNext x) = hptr m (HNext x)" if "x \<in> set (butlast as)" for x
      using hend_not_inside [of as x "First h"] that assms(1,5) in_set_butlastD [OF that] by (intro assms(2)) auto
    show "pprevs m' x = pprevs m x" if "x \<in> set as" for x
      using that first_of_fresh [OF assms(1)] hseg_nonzero [OF assms(4)] assms(5) by (intro assms(3)) auto
  qed
  then show ?thesis
    using assms(4) by simp
qed

lemma hseg_after:
  assumes "distinct (as @ b # bs)" "\<And>s. s \<notin> {hend (First h) as, HNext n} \<Longrightarrow> hptr m' s = hptr m s"
    "\<And>x. x \<notin> {b, n} \<Longrightarrow> pprevs m' x = pprevs m x" "hseg m (HNext b) bs" "hptr m (hend (HNext b) bs) = Some 0" "n \<notin> set (b # bs)"
  shows "hseg m' (HNext b) bs" "hptr m' (hend (HNext b) bs) = Some 0"
proof -
  have same: "hptr m' (HNext x) = hptr m (HNext x)" if "x \<in> set (b # bs)" for x
    using hend_cases [of h as] assms(1,6) that by (intro assms(2)) auto
  have "pprevs m' x = pprevs m x" if "x \<in> set bs" for x
    using assms(1,6) that by (intro assms(3)) auto
  then have "hseg m' (HNext b) bs = hseg m (HNext b) bs"
    using same by (intro hseg_cong) (auto dest: in_set_butlastD)
  moreover have "hptr m' (hend (HNext b) bs) = hptr m (hend (HNext b) bs)"
    using same [of b] same [of "last bs"] by (simp add: hend_def)
  ultimately show "hseg m' (HNext b) bs" "hptr m' (hend (HNext b) bs) = Some 0"
    using assms(4,5) by simp_all
qed

lemma link_in_chain:
  assumes "chain m h (as @ bs)" "n \<noteq> 0" "n \<notin> set (as @ bs)"
  shows "chain (link_in (hend (First h) as) n (first_of bs) m) h (as @ n # bs)"
proof -
  let ?t = "hend (First h) as"
  let ?m = "link_in ?t n (first_of bs) m"
  note c = assms(1) [unfolded chain_split]
  have t: "?t \<noteq> HNext n"
    using hend_cases [of h as] assms(3) by auto
  then have f: "hptr ?m ?t = Some n" "hptr ?m (HNext n) = Some (first_of bs)" "pprevs ?m n = Some (Some ?t)"
    by (simp_all add: link_in_def)
  have "hseg ?m (First h) as"
    by (rule hseg_before [of as bs h n _ m]) (use c assms(3) in \<open>auto simp: link_in_def\<close>)
  moreover have "hseg ?m (HNext n) bs \<and> hptr ?m (hend (HNext n) bs) = Some 0"
  proof (cases bs)
    case (Cons b bs')
    have "hseg ?m (HNext b) bs'" "hptr ?m (hend (HNext b) bs') = Some 0"
      by (rule hseg_after [of as b bs' h n _ m]; use c assms(3) Cons in \<open>auto simp: link_in_def\<close>)+
    then show ?thesis
      using Cons f(2) c assms(3) by (auto simp: link_in_def)
  qed (use f(2) in simp)
  ultimately show ?thesis
    using c assms f by (simp add: chain_split)
qed

lemma link_out_chain:
  assumes "chain m h (as @ n # bs)"
  shows "chain (link_out (hend (First h) as) (first_of bs) m) h (as @ bs)"
proof -
  let ?t = "hend (First h) as"
  let ?m = "link_out ?t (first_of bs) m"
  note c = assms [unfolded chain_split]
  have "hseg ?m (First h) as"
    by (rule hseg_before [of as bs h n _ m]) (use c in \<open>auto simp: link_out_def\<close>)
  moreover have "hseg ?m ?t bs \<and> hptr ?m (hend ?t bs) = Some 0"
  proof (cases bs)
    case (Cons b bs')
    have "hseg ?m (HNext b) bs'" "hptr ?m (hend (HNext b) bs') = Some 0"
      by (rule hseg_after [of as b bs' h n _ m]; use c Cons in \<open>auto simp: link_out_def\<close>)+
    then show ?thesis
      using Cons c by (simp add: link_out_def)
  qed (simp add: link_out_def)
  ultimately show ?thesis
    using c by (simp add: chain_split)
qed

subsection \<open>Families of chains\<close>

text \<open>
  \<open>B\<close> maps the head of each chain to its nodes, \<open>U\<close> are the nodes known to be unhashed, \<open>N\<close> all nodes. No node is on
  two chains.
\<close>

definition hnodes :: "hmem \<Rightarrow> addr set" where
  "hnodes m = {n. n \<noteq> 0 \<and> HNext n \<in> dom (hptr m) \<and> n \<in> dom (pprevs m)}"

definition hfamily :: "addr set \<Rightarrow> hmem \<Rightarrow> lists \<Rightarrow> addr set \<Rightarrow> bool" where
  "hfamily N m B U \<longleftrightarrow> N = hnodes m \<and> (\<forall>h xs. B h = Some xs \<longrightarrow> chain m h xs)
    \<and> (\<forall>g h xs ys. g \<noteq> h \<longrightarrow> B g = Some xs \<longrightarrow> B h = Some ys \<longrightarrow> set xs \<inter> set ys = {})
    \<and> U \<subseteq> N \<and> (\<forall>u \<in> U. pprevs m u = Some None)"

definition off :: "lists \<Rightarrow> addr \<Rightarrow> bool" where
  "off B n \<longleftrightarrow> (\<forall>h xs. B h = Some xs \<longrightarrow> n \<notin> set xs)"

lemma offD: "off B n \<Longrightarrow> B h = Some xs \<Longrightarrow> n \<notin> set xs"
  by (simp add: off_def)

lemma chain_cong:
  assumes "hptr m' (First h) = hptr m (First h)" "\<And>x. x \<in> set xs \<Longrightarrow> hptr m' (HNext x) = hptr m (HNext x) \<and> pprevs m' x = pprevs m x"
  shows "chain m' h xs = chain m h xs"
proof -
  have "hseg m' (First h) xs = hseg m (First h) xs"
    using assms by (intro hseg_cong) (auto dest: in_set_butlastD)
  moreover have "hptr m' (hend (First h) xs) = hptr m (hend (First h) xs)"
    using assms by (simp add: hend_def)
  ultimately show ?thesis
    by (simp add: chain_def)
qed

lemma unhashed_off: "hfamily N m B U \<Longrightarrow> u \<in> U \<Longrightarrow> off B u"
proof -
  assume f: "hfamily N m B U" and u: "u \<in> U"
  show "off B u"
    unfolding off_def
  proof (intro allI impI notI)
    fix h xs
    assume "B h = Some xs" "u \<in> set xs"
    then obtain as bs where "chain m h (as @ u # bs)"
      using f split_list by (metis hfamily_def)
    then show False
      using f u by (auto simp: chain_split hfamily_def)
  qed
qed

lemma hfamily_change:
  assumes "hfamily N m B U" "B h = Some xs" "off (B(h := None)) n" "n \<in> N" "hnodes m' = hnodes m"
    and "\<And>s. s \<notin> insert (First h) (HNext ` insert n (set xs)) \<Longrightarrow> hptr m' s = hptr m s"
    and "\<And>x. x \<notin> insert n (set xs) \<Longrightarrow> pprevs m' x = pprevs m x"
    and "chain m' h xs'" "set xs' \<subseteq> insert n (set xs)" "U' \<subseteq> insert n U" "\<And>u. u \<in> U' \<Longrightarrow> u = n \<Longrightarrow> pprevs m' n = Some None"
  shows "hfamily N m' (B(h \<mapsto> xs')) U'"
proof -
  have other: "set ys \<inter> insert n (set xs) = {}" "chain m' g ys" if "B g = Some ys" "g \<noteq> h" for g ys
  proof -
    show d: "set ys \<inter> insert n (set xs) = {}"
      using assms(1-3) that unfolding hfamily_def off_def by (simp add: disjoint_iff) metis
    have "chain m' g ys = chain m g ys"
      using d that(2) by (intro chain_cong conjI assms(6,7)) auto
    then show "chain m' g ys"
      using assms(1) that(1) by (simp add: hfamily_def)
  qed
  have "pprevs m' u = Some None" if "u \<in> U'" for u
  proof (cases "u = n")
    case False
    then have u: "u \<in> U"
      using assms(10) that by auto
    then have "u \<notin> set xs"
      using unhashed_off [OF assms(1)] assms(2) by (auto simp: off_def)
    then show ?thesis
      using assms(1,7) u False by (auto simp: hfamily_def)
  qed (use assms(11) that in simp)
  moreover have "U' \<subseteq> N"
    using assms(1,4,10) by (auto simp: hfamily_def)
  moreover have "set ys \<inter> set xs' = {}" "set xs' \<inter> set ys = {}" if "B g = Some ys" "g \<noteq> h" for g ys
    using other(1) [OF that] assms(9) by auto
  ultimately show ?thesis
    using assms(1,5,8) other(2) unfolding hfamily_def by (auto split: if_splits)
qed

lemma hnodes_link_in: "n \<in> hnodes m \<Longrightarrow> b = 0 \<or> b \<in> hnodes m \<Longrightarrow> t \<in> dom (hptr m) \<Longrightarrow> hnodes (link_in t n b m) = hnodes m"
  by (auto simp: hnodes_def link_in_def set_pprev_def)

lemma hnodes_link_out: "b = 0 \<or> b \<in> hnodes m \<Longrightarrow> t \<in> dom (hptr m) \<Longrightarrow> hnodes (link_out t b m) = hnodes m"
  by (auto simp: hnodes_def link_out_def set_pprev_def)

lemma hstore_Some [simp]: "s \<in> dom (hptr m) \<Longrightarrow> hstore s v m = Some (m\<lparr>hptr := (hptr m)(s \<mapsto> v)\<rparr>)"
  by (auto simp: hstore_def)

lemma pstore_Some [simp]: "n \<in> dom (pprevs m) \<Longrightarrow> pstore n v m = Some (m\<lparr>pprevs := (pprevs m)(n \<mapsto> v)\<rparr>)"
  by (auto simp: pstore_def)

text \<open>What a chain of a family says about the memory around the pointer between \<open>as\<close> and \<open>bs\<close>.\<close>

lemma hfamily_spot:
  assumes "hfamily N m B U" "B h = Some (as @ bs)"
  shows "chain m h (as @ bs)" "hptr m (hend (First h) as) = Some (first_of bs)" "first_of bs = 0 \<or> first_of bs \<in> hnodes m"
    "bs \<noteq> [] \<Longrightarrow> pprevs m (first_of bs) = Some (Some (hend (First h) as))"
    "hend (First h) as \<in> insert (First h) (HNext ` set (as @ bs))"
proof -
  show c: "chain m h (as @ bs)"
    using assms by (simp add: hfamily_def)
  then show "hptr m (hend (First h) as) = Some (first_of bs)"
    by (rule chain_ptr)
  show "first_of bs = 0 \<or> first_of bs \<in> hnodes m"
    using chain_nonzero [OF c] by (cases bs) (auto simp: hnodes_def)
  show "bs \<noteq> [] \<Longrightarrow> pprevs m (first_of bs) = Some (Some (hend (First h) as))"
    using c by (cases bs) (simp_all add: chain_split)
  show "hend (First h) as \<in> insert (First h) (HNext ` set (as @ bs))"
    using hend_cases [of h as] by auto
qed

lemma sim_link_in:
  assumes "hfamily N m B U" "B h = Some (as @ bs)" "n \<in> N" "off B n"
  shows "hfamily N (link_in (hend (First h) as) n (first_of bs) m) (B(h \<mapsto> as @ n # bs)) (U - {n})"
proof (rule hfamily_change [OF assms(1,2)])
  note s = hfamily_spot [OF assms(1,2)]
  have n: "n \<in> hnodes m" "n \<noteq> 0" "n \<notin> set (as @ bs)"
    using assms(1,3) offD [OF assms(4,2)] by (simp_all add: hfamily_def hnodes_def)
  show "hnodes (link_in (hend (First h) as) n (first_of bs) m) = hnodes m"
    using n s by (intro hnodes_link_in) auto
  show "chain (link_in (hend (First h) as) n (first_of bs) m) h (as @ n # bs)"
    using link_in_chain [OF s(1) n(2,3)] .
  show "hptr (link_in (hend (First h) as) n (first_of bs) m) t = hptr m t" if "t \<notin> insert (First h) (HNext ` insert n (set (as @ bs)))" for t
    using that s(5) by (auto simp: link_in_def)
  show "pprevs (link_in (hend (First h) as) n (first_of bs) m) x = pprevs m x" if "x \<notin> insert n (set (as @ bs))" for x
    using that by (cases bs) (auto simp: link_in_def)
qed (use assms(3,4) in \<open>auto simp: off_def\<close>)

lemma sim_link_out:
  assumes "hfamily N m B U" "B h = Some (as @ n # bs)"
  shows "hfamily N (link_out (hend (First h) as) (first_of bs) m) (B(h \<mapsto> as @ bs)) U" "n \<in> N" "off (B(h \<mapsto> as @ bs)) n"
    "hlist_unlink n m = Some (link_out (hend (First h) as) (first_of bs) m)"
proof -
  note s = hfamily_spot [OF assms] and s' = hfamily_spot [of N m B U h "as @ [n]" bs, OF assms(1)]
  show n: "n \<in> N"
    using chain_nonzero [OF s(1), of n] assms(1) by (auto simp: hfamily_def hnodes_def)
  have disj: "n \<notin> set xs" if "B g = Some xs" "g \<noteq> h" for g xs
    using assms that unfolding hfamily_def by (metis disjoint_iff in_set_conv_decomp)
  then show o: "off (B(h \<mapsto> as @ bs)) n"
    using s(1) by (auto simp: off_def chain_def split: if_splits)
  have nU: "n \<notin> U"
    using offD [OF unhashed_off [OF assms(1)] assms(2)] by auto
  show "hfamily N (link_out (hend (First h) as) (first_of bs) m) (B(h \<mapsto> as @ bs)) U"
  proof (rule hfamily_change [OF assms])
    show "off (B(h := None)) n"
      using disj by (auto simp: off_def)
    show "hnodes (link_out (hend (First h) as) (first_of bs) m) = hnodes m"
      using s(2) s' assms(2) by (intro hnodes_link_out) auto
    show "chain (link_out (hend (First h) as) (first_of bs) m) h (as @ bs)"
      using link_out_chain [OF s(1)] .
    show "hptr (link_out (hend (First h) as) (first_of bs) m) t = hptr m t" if "t \<notin> insert (First h) (HNext ` insert n (set (as @ n # bs)))" for t
      using that s(5) by (auto simp: link_out_def)
    show "pprevs (link_out (hend (First h) as) (first_of bs) m) x = pprevs m x" if "x \<notin> insert n (set (as @ n # bs))" for x
      using that by (cases bs) (auto simp: link_out_def)
  qed (use n nU in auto)
  have "hend (First h) as \<noteq> HNext n"
    using hend_cases [of h as] s(1) by (auto simp: chain_def)
  then show "hlist_unlink n m = Some (link_out (hend (First h) as) (first_of bs) m)"
    using s(2,4) s'(2,3) assms(2) by (auto simp: hlist_unlink_def link_out_def set_pprev_def hnodes_def hstore_def pstore_def)
qed

subsection \<open>What the operations do to a family of chains\<close>

datatype hlist_op =
    HInitHead addr | HInitNode addr | HDel addr | HDelInit addr | HAddHead addr addr | HAddBefore addr addr
  | HAddAfter addr addr | HMoveList addr addr

fun hlist_run :: "hlist_op \<Rightarrow> hmem \<Rightarrow> hmem option" where
  "hlist_run (HInitHead h) = INIT_HLIST_HEAD h"
| "hlist_run (HInitNode n) = INIT_HLIST_NODE n"
| "hlist_run (HDel n) = hlist_del n"
| "hlist_run (HDelInit n) = hlist_del_init n"
| "hlist_run (HAddHead n h) = hlist_add_head n h"
| "hlist_run (HAddBefore n x) = hlist_add_before n x"
| "hlist_run (HAddAfter x n) = hlist_add_after x n"
| "hlist_run (HMoveList old new) = hlist_move_list old new"

inductive hlist_step :: "addr set \<Rightarrow> lists \<times> addr set \<Rightarrow> hlist_op \<Rightarrow> lists \<times> addr set \<Rightarrow> bool" for N :: "addr set" where
  hinit_head: "B h = Some xs \<Longrightarrow> hlist_step N (B, U) (HInitHead h) (B(h \<mapsto> []), U)"
| hinit_node: "n \<in> N \<Longrightarrow> off B n \<Longrightarrow> hlist_step N (B, U) (HInitNode n) (B, insert n U)"
| hdel: "B h = Some (as @ n # bs) \<Longrightarrow> hlist_step N (B, U) (HDel n) (B(h \<mapsto> as @ bs), insert n U)"
| hdel_init: "B h = Some (as @ n # bs) \<Longrightarrow> hlist_step N (B, U) (HDelInit n) (B(h \<mapsto> as @ bs), insert n U)"
| hdel_init_unhashed: "n \<in> U \<Longrightarrow> hlist_step N (B, U) (HDelInit n) (B, U)"
| hadd_head: "n \<in> N \<Longrightarrow> off B n \<Longrightarrow> B h = Some xs \<Longrightarrow> hlist_step N (B, U) (HAddHead n h) (B(h \<mapsto> n # xs), U - {n})"
| hadd_before: "n \<in> N \<Longrightarrow> off B n \<Longrightarrow> B h = Some (as @ x # bs) \<Longrightarrow> hlist_step N (B, U) (HAddBefore n x) (B(h \<mapsto> as @ n # x # bs), U - {n})"
| hadd_after: "n \<in> N \<Longrightarrow> off B n \<Longrightarrow> B h = Some (as @ x # bs) \<Longrightarrow> hlist_step N (B, U) (HAddAfter x n) (B(h \<mapsto> as @ x # n # bs), U - {n})"
| hmove_list: "old \<noteq> new \<Longrightarrow> B old = Some xs \<Longrightarrow> B new = Some ys \<Longrightarrow> hlist_step N (B, U) (HMoveList old new) (B(new \<mapsto> xs, old \<mapsto> []), U)"

lemma sim_init_node:
  assumes "hfamily N m B U" "n \<in> N" "off B n"
  shows "\<exists>m'. INIT_HLIST_NODE n m = Some m' \<and> hfamily N m' B (insert n U)"
proof -
  define m' where "m' = m\<lparr>hptr := (hptr m)(HNext n \<mapsto> 0), pprevs := (pprevs m)(n \<mapsto> None)\<rparr>"
  have n: "n \<noteq> 0" "HNext n \<in> dom (hptr m)" "n \<in> dom (pprevs m)"
    using assms(1,2) by (auto simp: hfamily_def hnodes_def)
  then have "INIT_HLIST_NODE n m = Some m'"
    by (simp add: INIT_HLIST_NODE_def m'_def)
  moreover have "chain m' h xs" if "B h = Some xs" for h xs
  proof -
    have "chain m' h xs = chain m h xs"
      using offD [OF assms(3) that] by (intro chain_cong) (auto simp: m'_def)
    then show ?thesis
      using assms(1) that by (simp add: hfamily_def)
  qed
  moreover have "hnodes m' = hnodes m"
    using n by (auto simp: hnodes_def m'_def)
  ultimately show ?thesis
    using assms(1,2) unfolding hfamily_def by (auto simp: m'_def)
qed

lemma sim_init_head:
  assumes "hfamily N m B U" "B h = Some xs"
  shows "\<exists>m'. INIT_HLIST_HEAD h m = Some m' \<and> hfamily N m' (B(h \<mapsto> [])) U"
proof -
  define m' where "m' = m\<lparr>hptr := (hptr m)(First h \<mapsto> 0)\<rparr>"
  have dom: "First h \<in> dom (hptr m)"
    using hfamily_spot(2) [of N m B U h "[]" xs] assms by auto
  have "chain m' g ys" if "B g = Some ys" "g \<noteq> h" for g ys
    using chain_cong [of m' g m ys] assms(1) that by (simp add: m'_def hfamily_def)
  moreover have "chain m' h []" "hnodes m' = hnodes m" "pprevs m' = pprevs m"
    by (auto simp: chain_def m'_def hnodes_def)
  ultimately have "hfamily N m' (B(h \<mapsto> [])) U"
    using assms(1) unfolding hfamily_def by auto
  then show ?thesis
    using dom by (simp add: INIT_HLIST_HEAD_def m'_def)
qed

lemma sim_hdel:
  assumes "hfamily N m B U" "B h = Some (as @ n # bs)"
  shows "\<exists>m'. hlist_del n m = Some m' \<and> hfamily N m' (B(h \<mapsto> as @ bs)) (insert n U)"
    "\<exists>m'. hlist_del_init n m = Some m' \<and> hfamily N m' (B(h \<mapsto> as @ bs)) (insert n U)"
proof -
  note out = sim_link_out [OF assms]
  have "hlist_unhashed n m = Some False"
    using hfamily_spot(4) [OF assms] by (simp add: hlist_unhashed_def)
  then show "\<exists>m'. hlist_del n m = Some m' \<and> hfamily N m' (B(h \<mapsto> as @ bs)) (insert n U)"
    "\<exists>m'. hlist_del_init n m = Some m' \<and> hfamily N m' (B(h \<mapsto> as @ bs)) (insert n U)"
    using sim_init_node [OF out(1-3)] out(4) by (simp_all add: hlist_del_def hlist_del_init_def INIT_HLIST_NODE_def)
qed

lemma hadd_link_in:
  assumes "hfamily N m B U" "n \<in> N" "off B n"
  shows "B h = Some xs \<Longrightarrow> hlist_add_head n h m = Some (link_in (First h) n (first_of xs) m)"
    "B h = Some (as @ x # bs) \<Longrightarrow> hlist_add_before n x m = Some (link_in (hend (First h) as) n x m)"
    "B h = Some (as @ x # bs) \<Longrightarrow> hlist_add_after x n m = Some (link_in (HNext x) n (first_of bs) m)"
proof -
  have n: "hptr m (HNext n) \<noteq> None" "pprevs m n \<noteq> None"
    using assms(1,2) by (auto simp: hfamily_def hnodes_def)
  show "hlist_add_head n h m = Some (link_in (First h) n (first_of xs) m)" if "B h = Some xs"
    using hfamily_spot(2,3) [of N m B U h "[]" xs] assms(1) that n offD [OF assms(3) that]
    by (auto simp: hlist_add_head_def link_in_def hstore_def pstore_def hnodes_def set_pprev_def)
  show "hlist_add_before n x m = Some (link_in (hend (First h) as) n x m)" if "B h = Some (as @ x # bs)"
  proof -
    have "n \<noteq> x" "hend (First h) as \<noteq> HNext n" "x \<noteq> 0"
      using offD [OF assms(3) that] hend_cases [of h as] hfamily_spot(1) [OF assms(1) that] by (auto simp: chain_split)
    then show ?thesis
      using hfamily_spot(2,4) [OF assms(1) that] n
      by (auto simp: hlist_add_before_def link_in_def hstore_def pstore_def set_pprev_def fun_upd_twist [of n x])
  qed
  show "hlist_add_after x n m = Some (link_in (HNext x) n (first_of bs) m)" if "B h = Some (as @ x # bs)"
  proof -
    have "n \<noteq> x" "n \<noteq> first_of bs"
      using offD [OF assms(3) that] assms(1,2) by (cases bs; auto simp: hfamily_def hnodes_def)+
    then show ?thesis
      using hfamily_spot(2,3) [of N m B U h "as @ [x]" bs] assms(1) that n
      by (auto simp: hlist_add_after_def link_in_def hstore_def pstore_def hnodes_def set_pprev_def fun_upd_twist [of n "first_of bs"])
  qed
qed

lemma sim_move_list:
  assumes "hfamily N m B U" "old \<noteq> new" "B old = Some xs" "B new = Some ys"
  shows "\<exists>m'. hlist_move_list old new m = Some m' \<and> hfamily N m' (B(new \<mapsto> xs, old \<mapsto> [])) U"
proof -
  define m' where "m' = m\<lparr>hptr := (hptr m)(First new \<mapsto> first_of xs, First old \<mapsto> 0), pprevs := set_pprev (first_of xs) (First new) (pprevs m)\<rparr>"
  note s = hfamily_spot [of N m B U old "[]" xs, OF assms(1)] and t = hfamily_spot(2) [of N m B U new "[]" ys, OF assms(1)]
  have f: "first_of xs \<notin> set zs" if "B g = Some zs" "g \<noteq> old" for g zs
  proof (cases xs)
    case Nil
    then show ?thesis
      using chain_nonzero [of m g zs 0] assms(1) that by (auto simp: hfamily_def)
  next
    case (Cons x xs')
    then show ?thesis
      using assms(1,3) that unfolding hfamily_def by (metis disjoint_iff first_of_simps(2) list.set_intros(1))
  qed
  have "hlist_move_list old new m = Some m'"
    using s(2,3) t assms(2-4) by (auto simp: hlist_move_list_def m'_def hstore_def pstore_def hnodes_def set_pprev_def)
  moreover have "chain m' g zs" if "B g = Some zs" "g \<noteq> old" "g \<noteq> new" for g zs
  proof -
    have "chain m' g zs = chain m g zs"
      using f [OF that(1,2)] that by (intro chain_cong) (auto simp: m'_def)
    then show ?thesis
      using assms(1) that(1) by (simp add: hfamily_def)
  qed
  moreover have "chain m' old []"
    by (simp add: chain_def m'_def)
  moreover have "chain m' new xs"
  proof (cases xs)
    case (Cons x xs')
    have c: "chain m old (x # xs')"
      using s(1) assms(3) Cons by simp
    have "hseg m' (HNext x) xs' = hseg m (HNext x) xs'"
      using c Cons by (intro hseg_cong) (auto simp: m'_def chain_def)
    then show ?thesis
      using c Cons assms(2) by (simp add: chain_def m'_def hend_def)
  qed (use assms(2) in \<open>simp add: chain_def m'_def\<close>)
  moreover have "hnodes m' = hnodes m"
    using s(2,3) t assms(3,4) by (auto simp: hnodes_def m'_def split: if_splits)
  moreover have "pprevs m' u = Some None" if "u \<in> U" for u
    using that offD [OF unhashed_off [OF assms(1) that] assms(3)] assms(1) by (cases xs) (auto simp: m'_def hfamily_def)
  moreover have "set xs \<inter> set zs = {}" "set zs \<inter> set xs = {}" if "B g = Some zs" "g \<noteq> old" for g zs
    using assms(1,3) that unfolding hfamily_def by metis+
  ultimately show ?thesis
    using assms unfolding hfamily_def by (intro exI [of _ m'] conjI) (auto split: if_splits)
qed

text \<open>C14: the chain operations of \<open>list.h\<close> are operations on lists. Where every chain is well formed and no node is on two of
  them, each operation that \<open>hlist_step\<close> allows runs without a bad access, changes its chain as the rule says, and
  leaves every other chain, and what is known to be unhashed, alone.\<close>

theorem hlist_ops_refine_lists:
  assumes "hfamily N m B U" and "hlist_step N (B, U) op (B', U')"
  shows "\<exists>m'. hlist_run op m = Some m' \<and> hfamily N m' B' U'"
  using assms(2)
proof (cases rule: hlist_step.cases)
  case (hdel_init_unhashed n)
  then have "hlist_unhashed n m = Some True"
    using assms(1) by (simp add: hlist_unhashed_def hfamily_def)
  then show ?thesis
    using hdel_init_unhashed assms(1) by (simp add: hlist_del_init_def)
next
  case (hadd_head n h xs)
  then show ?thesis
    using sim_link_in [OF assms(1), of h "[]" xs n] hadd_link_in(1) [OF assms(1)] by simp
next
  case (hadd_before n h as x bs)
  then show ?thesis
    using sim_link_in [OF assms(1), of h as "x # bs" n] hadd_link_in(2) [OF assms(1)] by simp
next
  case (hadd_after n h as x bs)
  then show ?thesis
    using sim_link_in [OF assms(1), of h "as @ [x]" bs n] hadd_link_in(3) [OF assms(1)] by simp
qed (use assms(1) sim_init_head sim_init_node sim_hdel sim_move_list in auto)

text \<open>Two chains, one with the nodes 3 and 4, and an unhashed node 5.\<close>

definition sample_hmem :: hmem where
  "sample_hmem = \<lparr>hptr = [First 1 \<mapsto> 3, HNext 3 \<mapsto> 4, HNext 4 \<mapsto> 0, First 2 \<mapsto> 0, HNext 5 \<mapsto> 0],
     pprevs = [3 \<mapsto> Some (First 1), 4 \<mapsto> Some (HNext 3), 5 \<mapsto> None]\<rparr>"

lemma sample_hfamily: "hfamily {3, 4, 5} sample_hmem sample_lists {5}"
proof -
  have "hnodes sample_hmem = {3, 4, 5}"
    by (auto simp: hnodes_def sample_hmem_def split: if_splits)
  moreover have "chain sample_hmem 1 [3, 4]" "chain sample_hmem 2 []"
    by (simp_all add: chain_def sample_hmem_def)
  ultimately show ?thesis
    by (auto simp: hfamily_def sample_lists_def sample_hmem_def split: if_splits)
qed

theorem hlist_ops_refine_lists_witness:
  "\<exists>m'. hlist_run (HDelInit 4) sample_hmem = Some m' \<and> hfamily {3, 4, 5} m' (sample_lists(1 \<mapsto> [3])) {4, 5}"
proof -
  have "hlist_step {3, 4, 5} (sample_lists, {5}) (HDelInit 4) (sample_lists(1 \<mapsto> [3] @ []), insert 4 {5})"
    by (rule hlist_step.hdel_init) (simp add: sample_lists_def)
  from hlist_ops_refine_lists [OF sample_hfamily this] show ?thesis
    by simp
qed

subsection \<open>Loops over a chain\<close>

lemma chain_next: "chain m h (as @ x # bs) \<Longrightarrow> x \<noteq> 0 \<and> hptr m (HNext x) = Some (first_of bs)"
  using chain_ptr [of m h "as @ [x]" bs] chain_nonzero [of m h "as @ x # bs" x] by simp

lemma hlist_search_find:
  assumes "chain m h xs"
  shows "hlist_search P h m = Some (case find P xs of Some x \<Rightarrow> x | None \<Rightarrow> 0)"
proof -
  have "hlist_search_from P (first_of bs) m = Some (case find P bs of Some x \<Rightarrow> x | None \<Rightarrow> 0)" if "xs = as @ bs" for as bs
    using that
  proof (induction bs arbitrary: as)
    case Nil
    then show ?case
      by (subst hlist_search_from.simps) simp
  next
    case (Cons x bs)
    then show ?case
      using chain_next [of m h as x bs] assms Cons.IH [of "as @ [x]"] by (subst hlist_search_from.simps) simp
  qed
  from this [of "[]" xs] show ?thesis
    using chain_ptr [of m h "[]" xs] assms by (simp add: hlist_search_def)
qed

lemma hlist_for_each_fold:
  assumes "chain m h xs" "\<And>e s. e \<in> set xs \<Longrightarrow> body e (m, s) = Some (m, f e s)"
  shows "hlist_for_each body h (m, s) = Some (m, fold f xs s)"
proof -
  have "hlist_for_each_from body (first_of bs) (m, s) = Some (m, fold f bs s)" if "xs = as @ bs" for as bs s
    using that
  proof (induction bs arbitrary: as s)
    case Nil
    then show ?case
      by (subst hlist_for_each_from.simps) simp
  next
    case (Cons x bs)
    then show ?case
      using chain_next [of m h as x bs] assms(1) assms(2) [of x s] Cons.IH [of "as @ [x]" "f x s"]
      by (subst hlist_for_each_from.simps) simp
  qed
  from this [of "[]" xs s] show ?thesis
    using chain_ptr [of m h "[]" xs] assms(1) by (simp add: hlist_for_each_def)
qed

text \<open>Taking nodes off while walking a chain with the safe loop: what \<open>keep\<close> rejects is unhashed, the rest stays in order.\<close>

definition hpurge_body :: "(addr \<Rightarrow> bool) \<Rightarrow> addr \<Rightarrow> hmem \<times> unit \<Rightarrow> (hmem \<times> unit) option" where
  "hpurge_body keep e = (\<lambda>(m, u). if keep e then Some (m, u) else do { m \<leftarrow> hlist_del_init e m; Some (m, u) })"

lemma hpurge_from:
  "hfamily N m B U \<Longrightarrow> B h = Some (as @ bs) \<Longrightarrow>
   \<exists>m'. hlist_for_each_safe_from (hpurge_body keep) (first_of bs) (m, ()) = Some (m', ())
     \<and> hfamily N m' (B(h \<mapsto> as @ filter keep bs)) (U \<union> {x \<in> set bs. \<not> keep x})"
proof (induction bs arbitrary: m B U as)
  case Nil
  then show ?case
    by (subst hlist_for_each_safe_from.simps) (simp add: fun_upd_idem)
next
  case (Cons x bs)
  note nx = chain_next [OF hfamily_spot(1) [OF Cons.prems]]
  show ?case
  proof (cases "keep x")
    case True
    then have body: "hpurge_body keep x (m, ()) = Some (m, ())"
      by (simp add: hpurge_body_def)
    have "{y \<in> set (x # bs). \<not> keep y} = {y \<in> set bs. \<not> keep y}"
      using True by auto
    then show ?thesis
      using Cons.IH [of m B U "as @ [x]"] Cons.prems nx body True by (subst hlist_for_each_safe_from.simps) (simp del: fun_upd_apply)
  next
    case False
    obtain m1 where m1: "hlist_del_init x m = Some m1" "hfamily N m1 (B(h \<mapsto> as @ bs)) (insert x U)"
      using sim_hdel(2) [OF Cons.prems] by blast
    then have body: "hpurge_body keep x (m, ()) = Some (m1, ())"
      using False by (simp add: hpurge_body_def)
    have "insert x U \<union> {y \<in> set bs. \<not> keep y} = U \<union> {y \<in> set (x # bs). \<not> keep y}"
      using False by auto
    then show ?thesis
      using Cons.IH [OF m1(2) fun_upd_same] nx body False by (subst hlist_for_each_safe_from.simps) (simp del: fun_upd_apply)
  qed
qed

lemma hlist_purge:
  assumes "hfamily N m B U" "B h = Some xs"
  shows "\<exists>m'. hlist_for_each_safe (hpurge_body keep) h (m, ()) = Some (m', ())
     \<and> hfamily N m' (B(h \<mapsto> filter keep xs)) (U \<union> {x \<in> set xs. \<not> keep x})"
  using hpurge_from [OF assms(1), of h "[]" xs keep] assms chain_ptr [of m h "[]" xs]
  by (simp add: hlist_for_each_safe_def hfamily_def)

end
