(* ===== verification/Um_Links.thy ===== *)
theory Um_Links
  imports Os_Hlist Um_Uci
begin

text \<open>
  The user manager on linked memory. \<open>user.c\<close> keeps a user on a list and on two hash chains through three nodes
  inside the record, \<open>uci.c\<close> keeps the interfaces on lists. \<open>Um_User\<close> and \<open>Um_Uci\<close> model these with HOL lists; here the same
  functions are written with the operations of \<open>list.h\<close>, and the lemmas say that they implement the
  HOL-list versions: they run, and what they leave in memory is what those compute.
\<close>

section \<open>The links of the user table\<close>

text \<open>
  The nodes \<open>node.list\<close>, \<open>node.mac\<close> and \<open>node.ip\<close> of the record at address \<open>a\<close> are the nodes \<open>a\<close> of three memories. The head of
  the list is at \<open>h\<close>, chain \<open>i\<close> of a hash has the head \<open>i\<close>.
\<close>

record um_links =
  lk_list :: mem
  lk_mac :: hmem
  lk_ip :: hmem

definition links_in_list :: "addr \<Rightarrow> um_links \<Rightarrow> bool option" where
  "links_in_list a lk = do {
     nxt \<leftarrow> lk_list lk (Next a);
     prv \<leftarrow> lk_list lk (Prev a);
     empty \<leftarrow> list_empty a (lk_list lk);
     Some ((nxt \<noteq> 0 \<and> prv \<noteq> 0) \<and> \<not> empty) }"

definition links_remove :: "apuser \<Rightarrow> addr \<Rightarrow> um_links \<Rightarrow> um_links option" where
  "links_remove user a lk = do {
     inl \<leftarrow> links_in_list a lk;
     if \<not> inl then Some lk
     else do {
       l \<leftarrow> list_del a (lk_list lk);
       m \<leftarrow> (if is_good_mac (us_mac user) then hlist_del_init a (lk_mac lk) else Some (lk_mac lk));
       i \<leftarrow> (if us_ip user \<noteq> 0 then hlist_del_init a (lk_ip lk) else Some (lk_ip lk));
       Some \<lparr>lk_list = l, lk_mac = m, lk_ip = i\<rparr> } }"

definition links_insert :: "addr \<Rightarrow> apuser \<Rightarrow> addr \<Rightarrow> um_links \<Rightarrow> um_links option" where
  "links_insert h user a lk = do {
     inl \<leftarrow> links_in_list a lk;
     if inl then Some lk
     else do {
       l \<leftarrow> list_add a h (lk_list lk);
       m \<leftarrow> (if is_good_mac (us_mac user) then hlist_add_head a (hashmac (us_mac user)) (lk_mac lk) else Some (lk_mac lk));
       i \<leftarrow> (if us_ip user \<noteq> 0 then hlist_add_head a (haship (us_ip user)) (lk_ip lk) else Some (lk_ip lk));
       Some \<lparr>lk_list = l, lk_mac = m, lk_ip = i\<rparr> } }"

definition links_getbymac :: "(addr \<Rightarrow> apuser) \<Rightarrow> u8 list \<Rightarrow> um_links \<Rightarrow> addr option" where
  "links_getbymac us mac lk = hlist_search (\<lambda>a. os_maceq (us_mac (us a)) mac) (hashmac mac) (lk_mac lk)"

definition links_getbyip :: "(addr \<Rightarrow> apuser) \<Rightarrow> u32 \<Rightarrow> um_links \<Rightarrow> addr option" where
  "links_getbyip us ip lk = hlist_search (\<lambda>a. us_ip (us a) = ip) (haship ip) (lk_ip lk)"

subsection \<open>What links say\<close>

definition chains :: "(nat \<Rightarrow> addr list) \<Rightarrow> lists" where
  "chains f i = (if i < UM_HASHSIZE then Some (f i) else None)"

definition idle :: "addr set \<Rightarrow> (nat \<Rightarrow> addr list) \<Rightarrow> addr set" where
  "idle N f = {a \<in> N. \<forall>i < UM_HASHSIZE. a \<notin> set (f i)}"

abbreviation hash_links :: "addr set \<Rightarrow> hmem \<Rightarrow> (nat \<Rightarrow> addr list) \<Rightarrow> bool" where
  "hash_links N m f \<equiv> hfamily N m (chains f) (idle N f)"

text \<open>The list: a record that is not on it is linked to itself, as \<open>um_user_init\<close> leaves a new one, or has NULL links, as
  \<open>list_del\<close> leaves one that was taken off.\<close>

definition loose :: "mem \<Rightarrow> addr \<Rightarrow> bool" where
  "loose m a \<longleftrightarrow> m (Next a) = Some a \<and> m (Prev a) = Some a \<or> m (Next a) = Some 0 \<and> m (Prev a) = Some 0"

lemma loose_touches: "touches S m m' \<Longrightarrow> b \<notin> S \<Longrightarrow> loose m' b = loose m b"
  by (simp add: touches_def loose_def)

definition list_links :: "addr set \<Rightarrow> addr \<Rightarrow> mem \<Rightarrow> addr list \<Rightarrow> bool" where
  "list_links N h m xs \<longleftrightarrow> nodes m = insert h N \<and> h \<notin> N \<and> 0 \<notin> N \<and> h \<noteq> 0 \<and> ring m h xs
    \<and> (\<forall>a \<in> N. a \<notin> set xs \<longrightarrow> loose m a)"

definition um_links_ok :: "addr set \<Rightarrow> addr \<Rightarrow> um_links \<Rightarrow> um_control \<Rightarrow> bool" where
  "um_links_ok N h lk c \<longleftrightarrow> list_links N h (lk_list lk) (head_list c)
    \<and> hash_links N (lk_mac lk) (head_mac c) \<and> hash_links N (lk_ip lk) (head_ip c)"

lemma hash_less: "hashmac mac < UM_HASHSIZE" "haship ip < UM_HASHSIZE"
proof -
  have "n AND (63 :: nat) < 64" for n
    using take_bit_nat_less_exp [of 6 n] by (simp add: take_bit_eq_mask mask_eq_exp_minus_1)
  then show "hashmac mac < UM_HASHSIZE" "haship ip < UM_HASHSIZE"
    by (simp_all add: hashmac_def haship_def hashbuf_def UM_HASHMASK_def UM_HASHSIZE_def)
qed

lemma links_in_list_ok:
  assumes "list_links N h m xs" "a \<in> N" "lk_list lk = m"
  shows "links_in_list a lk = Some (a \<in> set xs)"
proof (cases "a \<in> set xs")
  case False
  then show ?thesis
    using assms by (auto simp: links_in_list_def list_links_def list_empty_def loose_def)
next
  case True
  then obtain as bs where xs: "xs = as @ a # bs"
    using split_list by metis
  have r: "ring m h (as @ a # bs)"
    using assms(1) by (simp add: list_links_def xs)
  have "insert h (set xs) \<subseteq> insert h N" "0 \<notin> insert h N"
    using assms(1) ring_nodes [of m h xs] by (simp_all add: list_links_def)
  then have n0: "0 \<notin> insert h (set xs)"
    by blast
  have "hd (bs @ [h]) \<in> insert h (set bs)" "last (h # as) \<in> insert h (set as)"
    by (cases bs; auto) (auto simp: last_in_set)
  then obtain q p where q: "m (Next a) = Some q" "q \<in> insert h (set bs)" and p: "m (Prev a) = Some p" "p \<in> insert h (set as)"
    using ring_next [of m h "as @ [a]" bs] ring_next [of m h as "a # bs"] r by auto
  have qp: "q \<in> insert h (set xs)" "p \<in> insert h (set xs)"
    using q(2) p(2) by (auto simp: xs)
  have "q \<noteq> 0" "p \<noteq> 0"
    using qp n0 by metis+
  moreover have "q \<noteq> a"
    using r q(2) by (auto simp: ring_def)
  ultimately show ?thesis
    using True q(1) p(1) assms(3) by (simp add: links_in_list_def list_empty_def)
qed

lemma list_links_add:
  assumes "list_links N h m xs" "a \<in> N" "a \<notin> set xs"
  shows "\<exists>m'. list_add a h m = Some m' \<and> list_links N h m' (a # xs)"
proof -
  obtain m' where m': "list_add a h m = Some m'" "ring m' h (a # xs)" "touches (insert h (insert a (set xs))) m m'"
    using list_add_ring [of m h xs a] assms by (auto simp: list_links_def)
  have "loose m' b" if "b \<in> N" "b \<notin> set (a # xs)" for b
    using that assms(1) loose_touches [OF m'(3), of b] by (auto simp: list_links_def)
  then show ?thesis
    using m' nodes_touches [OF m'(3)] assms(1) by (simp add: list_links_def)
qed

lemma list_links_del:
  assumes "list_links N h m xs" "a \<in> set xs"
  shows "\<exists>m'. list_del a m = Some m' \<and> list_links N h m' (remove1 a xs)"
proof -
  obtain as bs where xs: "xs = as @ a # bs"
    using assms(2) split_list by metis
  then have r: "ring m h (as @ a # bs)" and rem: "remove1 a xs = as @ bs"
    using assms(1) by (auto simp: list_links_def ring_def remove1_append)
  obtain m' where m': "ring m' h (as @ bs)" "touches (insert h (set (as @ bs))) m m'" "list_del a m = Some (m'(Next a \<mapsto> 0, Prev a \<mapsto> 0))"
    using list_del_entry_ring [OF r] by blast
  let ?m = "m'(Next a \<mapsto> 0, Prev a \<mapsto> 0)"
  have a: "a \<in> nodes m" "a \<notin> insert h (set (as @ bs))"
    using r ring_nodes [OF r] by (auto simp: ring_def)
  then have t: "touches {a} m' ?m"
    using nodes_touches [OF m'(2)] by (auto simp: touches_def nodes_def)
  then have "ring ?m h (as @ bs)"
    using ring_touches [OF t, of h "as @ bs"] a(2) m'(1) by auto
  moreover have "loose ?m b" if "b \<in> N" "b \<notin> set (as @ bs)" for b
  proof (cases "b = a")
    case False
    then show ?thesis
      using that assms(1) loose_touches [OF t, of b] loose_touches [OF m'(2), of b] by (auto simp: list_links_def xs)
  qed (simp add: loose_def)
  moreover have "nodes ?m = nodes m"
    using nodes_touches [OF t] nodes_touches [OF m'(2)] by simp
  ultimately show ?thesis
    using assms(1) m'(3) rem by (simp add: list_links_def)
qed

lemma chains_lookup: "chains f i = Some xs \<longleftrightarrow> i < UM_HASHSIZE \<and> xs = f i"
  by (auto simp: chains_def)

lemma hash_links_del:
  assumes "hash_links N m f" "a \<in> N"
  shows "\<exists>m'. hlist_del_init a m = Some m' \<and> hash_links N m' (\<lambda>i. remove1 a (f i))"
proof (cases "a \<in> idle N f")
  case True
  then have "chains (\<lambda>i. remove1 a (f i)) = chains f" "idle N (\<lambda>i. remove1 a (f i)) = idle N f"
    by (auto simp: chains_def idle_def remove1_idem fun_eq_iff)
  moreover have "hlist_unhashed a m = Some True"
    using assms(1) True by (simp add: hfamily_def hlist_unhashed_def)
  ultimately show ?thesis
    using assms(1) by (simp add: hlist_del_init_def)
next
  case False
  then obtain i where i: "i < UM_HASHSIZE" "a \<in> set (f i)"
    using assms(2) by (auto simp: idle_def)
  then obtain as bs where fi: "f i = as @ a # bs"
    using split_list by metis
  have c: "chains f i = Some (as @ a # bs)"
    using i by (simp add: chains_def fi)
  have "distinct (f i)"
    using hfamily_spot(1) [OF assms(1) c] by (simp add: chain_def fi)
  then have rem: "remove1 a (f i) = as @ bs"
    by (simp add: fi remove1_append)
  have other: "a \<notin> set (f j)" if "j < UM_HASHSIZE" "j \<noteq> i" for j
    using sim_link_out(3) [OF assms(1) c] that by (auto simp: off_def chains_def split: if_splits)
  have "(chains f)(i \<mapsto> as @ bs) = chains (\<lambda>i. remove1 a (f i))"
    using i other rem by (auto simp: chains_def fun_eq_iff remove1_idem)
  moreover have "insert a (idle N f) = idle N (\<lambda>i. remove1 a (f i))"
  proof (rule set_eqI)
    fix b
    show "b \<in> insert a (idle N f) \<longleftrightarrow> b \<in> idle N (\<lambda>i. remove1 a (f i))"
    proof (cases "b = a")
      case True
      have "a \<notin> set (remove1 a (f j))" if "j < UM_HASHSIZE" for j
        using \<open>distinct (f i)\<close> other that by (cases "j = i") (auto simp: remove1_idem)
      then show ?thesis
        using True assms(2) by (simp add: idle_def)
    qed (auto simp: idle_def)
  qed
  ultimately show ?thesis
    using sim_hdel(2) [OF assms(1) c] by simp
qed

lemma hash_links_add:
  assumes "hash_links N m f" "a \<in> N" "\<And>i. i < UM_HASHSIZE \<Longrightarrow> a \<notin> set (f i)" "j < UM_HASHSIZE"
  shows "\<exists>m'. hlist_add_head a j m = Some m' \<and> hash_links N m' (f(j := a # f j))"
proof -
  have off: "off (chains f) a" and c: "chains f j = Some ([] @ f j)"
    using assms(3,4) by (auto simp: off_def chains_def split: if_splits)
  have "(chains f)(j \<mapsto> a # f j) = chains (f(j := a # f j))" "idle N f - {a} = idle N (f(j := a # f j))"
    using assms(4) by (auto simp: chains_def idle_def fun_eq_iff)
  then show ?thesis
    using sim_link_in [OF assms(1) c assms(2) off] hadd_link_in(1) [OF assms(1,2) off, of j "f j"] c by simp
qed

text \<open>A callback of the user table only sends messages, so it leaves the links alone.\<close>

lemma um_links_ok_bus: "bus_only c c' \<Longrightarrow> um_links_ok N h lk c' = um_links_ok N h lk c"
  using bus_only_frame [of c c'] by (simp add: um_links_ok_def)

text \<open>C15: taking a user off the table. On links that say what the table says, the pointer code of \<open>__remove\<close> runs, unlinking the
  record from the list and from the chains it is on, and its result says what \<open>remove_user\<close> computes; so do
  the pointer walks of the two lookups.\<close>

theorem links_remove_refines:
  assumes "um_links_ok N h lk c" and "a \<in> N" and "\<And>u d. bus_only d (cb u d)"
  shows "(\<exists>lk'. links_remove (users c a) a lk = Some lk' \<and> um_links_ok N h lk' (snd (remove_user (Some cb) c (Some a))))
    \<and> links_getbymac (users c) mac lk = Some (case um_user_getbymac c mac of Some x \<Rightarrow> x | None \<Rightarrow> 0)
    \<and> links_getbyip (users c) ip lk = Some (case um_user_getbyip c ip of Some x \<Rightarrow> x | None \<Rightarrow> 0)"
proof (intro conjI)
  have l: "list_links N h (lk_list lk) (head_list c)" "hash_links N (lk_mac lk) (head_mac c)" "hash_links N (lk_ip lk) (head_ip c)"
    using assms(1) by (auto simp: um_links_ok_def)
  have ch: "chain (lk_mac lk) (hashmac mac) (head_mac c (hashmac mac))" "chain (lk_ip lk) (haship ip) (head_ip c (haship ip))"
    using l(2,3) hash_less by (simp_all add: hfamily_def chains_lookup)
  then show "links_getbymac (users c) mac lk = Some (case um_user_getbymac c mac of Some x \<Rightarrow> x | None \<Rightarrow> 0)"
    "links_getbyip (users c) ip lk = Some (case um_user_getbyip c ip of Some x \<Rightarrow> x | None \<Rightarrow> 0)"
    by (simp_all add: links_getbymac_def links_getbyip_def hlist_search_find um_user_getbymac_def um_user_getbyip_def)
  note inl = links_in_list_ok [OF l(1) assms(2) refl]
  show "\<exists>lk'. links_remove (users c a) a lk = Some lk' \<and> um_links_ok N h lk' (snd (remove_user (Some cb) c (Some a)))"
  proof (cases "a \<in> set (head_list c)")
    case False
    then show ?thesis
      using inl assms(1) by (simp add: links_remove_def remove_user_def in_list_def)
  next
    case True
    obtain m i where mi: "hlist_del_init a (lk_mac lk) = Some m" "hash_links N m (\<lambda>i. remove1 a (head_mac c i))"
        "hlist_del_init a (lk_ip lk) = Some i" "hash_links N i (\<lambda>i. remove1 a (head_ip c i))"
      using hash_links_del [OF l(2) assms(2)] hash_links_del [OF l(3) assms(2)] by blast
    obtain l' where l': "list_del a (lk_list lk) = Some l'" "list_links N h l' (remove1 a (head_list c))"
      using list_links_del [OF l(1) True] by blast
    show ?thesis
      using inl True l l' mi um_links_ok_bus [OF assms(3)]
      by (simp add: links_remove_def remove_user_def in_list_def Let_def um_links_ok_def)
  qed
qed

text \<open>A table with one user, record 2, on the list with head 1 and on a chain of each hash, or a table with none and
  record 2 as \<open>um_user_init\<close> leaves it; and its links.\<close>

definition link_user :: apuser where
  "link_user = (um_user_init True)\<lparr>us_mac := [2, 0, 0, 0, 0, 1], us_ip := 5\<rparr>"

definition sample_bucket :: "nat \<Rightarrow> addr list \<Rightarrow> nat \<Rightarrow> addr list" where
  "sample_bucket j xs i = (if i = j then xs else [])"

definition sample_table :: "addr list \<Rightarrow> um_control" where
  "sample_table xs = umc_init\<lparr>users := (\<lambda>_. link_user), head_list := xs,
     head_mac := sample_bucket (hashmac (us_mac link_user)) xs, head_ip := sample_bucket (haship (us_ip link_user)) xs,
     head_count := word_of_nat (length xs)\<rparr>"

definition sample_hash :: "nat \<Rightarrow> bool \<Rightarrow> hmem" where
  "sample_hash j on = \<lparr>hptr = (\<lambda>s. case s of First i \<Rightarrow> (if i < 64 then Some (if i = j \<and> on then 2 else 0) else None) | HNext a \<Rightarrow> (if a = 2 then Some 0 else None)),
     pprevs = [2 \<mapsto> (if on then Some (First j) else None)]\<rparr>"

definition sample_links :: "bool \<Rightarrow> um_links" where
  "sample_links on = \<lparr>lk_list = (if on then [Next 1 \<mapsto> 2, Prev 2 \<mapsto> 1, Next 2 \<mapsto> 1, Prev 1 \<mapsto> 2] else [Next 1 \<mapsto> 1, Prev 1 \<mapsto> 1, Next 2 \<mapsto> 2, Prev 2 \<mapsto> 2]),
     lk_mac = sample_hash (hashmac (us_mac link_user)) on, lk_ip = sample_hash (haship (us_ip link_user)) on\<rparr>"

lemma sample_hash_links: "j < UM_HASHSIZE \<Longrightarrow> hash_links {2} (sample_hash j on) (sample_bucket j (if on then [2] else []))"
  by (auto simp: hfamily_def hnodes_def chains_def idle_def chain_def sample_hash_def sample_bucket_def UM_HASHSIZE_def split: if_splits)

lemma sample_links_ok: "um_links_ok {2} 1 (sample_links on) (sample_table (if on then [2] else []))"
proof -
  have "list_links {2} 1 (lk_list (sample_links on)) (if on then [2] else [])"
    by (auto simp: list_links_def loose_def sample_links_def nodes_def ring_def split: if_splits)
  then show ?thesis
    using sample_hash_links [OF hash_less(1), of "us_mac link_user" on] sample_hash_links [OF hash_less(2), of "us_ip link_user" on]
    by (simp add: um_links_ok_def sample_table_def sample_links_def)
qed

theorem links_remove_refines_witness:
  "\<exists>lk'. links_remove link_user 2 (sample_links True) = Some lk'
    \<and> um_links_ok {2} 1 lk' (snd (remove_user (Some (\<lambda>_ c. c)) (sample_table [2]) (Some 2)))"
  using links_remove_refines [OF sample_links_ok [of True], of 2 "\<lambda>_ c. c"] by (simp add: sample_table_def)

text \<open>C16: putting a user on the table. In a state that satisfies the invariant, the pointer code of \<open>__insert\<close> runs for a record
  \<open>um_user_init\<close> has linked to itself and for one \<open>list_del\<close> has cleared, and its result says what \<open>insert_user\<close>
  computes; a record already on the list is refused by both.\<close>

theorem links_insert_refines:
  assumes "um_links_ok N h lk c" and "um_inv c" and "a \<in> N" and "\<And>u d. bus_only d (cb u d)"
  shows "\<exists>lk'. links_insert h (users c a) a lk = Some lk' \<and> um_links_ok N h lk' (snd (insert_user (Some cb) c (Some a)))"
proof -
  have l: "list_links N h (lk_list lk) (head_list c)" "hash_links N (lk_mac lk) (head_mac c)" "hash_links N (lk_ip lk) (head_ip c)"
    using assms(1) by (auto simp: um_links_ok_def)
  note inl = links_in_list_ok [OF l(1) assms(3) refl]
  show ?thesis
  proof (cases "a \<in> set (head_list c)")
    case True
    then show ?thesis
      using inl assms(1) by (simp add: links_insert_def insert_user_def in_list_def)
  next
    case False
    have off: "a \<notin> set (head_mac c i)" "a \<notin> set (head_ip c i)" for i
      using assms(2) False by (auto simp: um_inv_defs)
    obtain m i where mi: "hlist_add_head a (hashmac (us_mac (users c a))) (lk_mac lk) = Some m"
        "hash_links N m ((head_mac c)(hashmac (us_mac (users c a)) := a # head_mac c (hashmac (us_mac (users c a)))))"
        "hlist_add_head a (haship (us_ip (users c a))) (lk_ip lk) = Some i"
        "hash_links N i ((head_ip c)(haship (us_ip (users c a)) := a # head_ip c (haship (us_ip (users c a)))))"
      using hash_links_add [OF l(2) assms(3) off(1) hash_less(1)] hash_links_add [OF l(3) assms(3) off(2) hash_less(2)] by blast
    obtain l' where "list_add a h (lk_list lk) = Some l'" "list_links N h l' (a # head_list c)"
      using list_links_add [OF l(1) assms(3) False] by blast
    then show ?thesis
      using False inl l mi um_links_ok_bus [OF assms(4)]
      by (simp add: links_insert_def insert_user_def in_list_def Let_def um_links_ok_def)
  qed
qed

lemma sample_table_inv: "um_inv (sample_table [])"
  by (rule um_inv_cong [OF um_inv_init]) (auto simp: sample_table_def sample_bucket_def umc_init_def)

theorem links_insert_refines_witness:
  "\<exists>lk'. links_insert 1 link_user 2 (sample_links False) = Some lk'
    \<and> um_links_ok {2} 1 lk' (snd (insert_user (Some (\<lambda>_ c. c)) (sample_table []) (Some 2)))"
  using links_insert_refines [OF _ sample_table_inv, of "{2}" 1 "sample_links False" 2 "\<lambda>_ c. c"] sample_links_ok [of False]
  by (simp add: sample_table_def)

section \<open>The links of the interface lists\<close>

text \<open>
  The two loops of \<open>intf_compare\<close>. \<open>intf\<close> gives the record around a node. The first takes interfaces that are gone off \<open>cfg\<close>,
  with their users; the second moves new ones from \<open>tmp\<close> to \<open>cfg\<close>. Both loops search the other list for the name. The node of
  a deleted interface is freed; the walk does not come back to it, but the trace message that follows reads its name.
\<close>

definition delete_body :: "um_env \<Rightarrow> (addr \<Rightarrow> um_intf) \<Rightarrow> addr \<Rightarrow> um_control body" where
  "delete_body env intf tmp e = (\<lambda>(m, c). do {
     found \<leftarrow> list_search (\<lambda>b. if_ifname (intf e) = if_ifname (intf b)) tmp m;
     if found = 0 then do {
       m \<leftarrow> list_del e m;
       Some (m, deluser_byif env (intf e) c) }
     else Some (m, c) })"

definition move_body :: "(addr \<Rightarrow> um_intf) \<Rightarrow> addr \<Rightarrow> um_control body" where
  "move_body intf cfg e = (\<lambda>(m, c). do {
     found \<leftarrow> list_search (\<lambda>b. if_ifname (intf b) = if_ifname (intf e)) cfg m;
     if found = 0 then do {
       m \<leftarrow> list_del e m;
       m \<leftarrow> list_add e cfg m;
       Some (m, c) }
     else Some (m, c) })"

definition links_compare :: "um_env \<Rightarrow> (addr \<Rightarrow> um_intf) \<Rightarrow> addr \<Rightarrow> addr \<Rightarrow> mem \<times> um_control \<Rightarrow> (mem \<times> um_control) option" where
  "links_compare env intf cfg tmp st = do {
     st \<leftarrow> list_for_each_safe (delete_body env intf tmp) cfg st;
     list_for_each_safe (move_body intf cfg) tmp st }"

text \<open>What the bodies do to the lists.\<close>

definition names :: "(addr \<Rightarrow> um_intf) \<Rightarrow> addr list \<Rightarrow> u8 list set" where
  "names intf xs = (\<lambda>a. if_ifname (intf a)) ` set xs"

definition delete_step :: "um_env \<Rightarrow> (addr \<Rightarrow> um_intf) \<Rightarrow> addr \<Rightarrow> addr \<Rightarrow> addr \<Rightarrow> lists \<times> um_control \<Rightarrow> lists \<times> um_control" where
  "delete_step env intf cfg tmp e = (\<lambda>(L, c).
     if if_ifname (intf e) \<in> names intf (the (L tmp)) then (L, c)
     else (L(cfg \<mapsto> remove1 e (the (L cfg))), deluser_byif env (intf e) c))"

definition move_step :: "(addr \<Rightarrow> um_intf) \<Rightarrow> addr \<Rightarrow> addr \<Rightarrow> addr \<Rightarrow> lists \<times> um_control \<Rightarrow> lists \<times> um_control" where
  "move_step intf cfg tmp e = (\<lambda>(L, c).
     if if_ifname (intf e) \<in> names intf (the (L cfg)) then (L, c)
     else (L(tmp \<mapsto> remove1 e (the (L tmp)), cfg \<mapsto> e # the (L cfg)), c))"

definition two_lists :: "addr set \<Rightarrow> addr \<Rightarrow> addr \<Rightarrow> lists \<Rightarrow> bool" where
  "two_lists A g h L \<longleftrightarrow> 0 \<notin> A \<and> g \<noteq> h \<and> L g \<noteq> None \<and> L h \<noteq> None"

lemma search_names:
  assumes "family A m L" "0 \<notin> A" "L g = Some xs"
  shows "\<exists>x. list_search (\<lambda>b. if_ifname (intf b) = n) g m = Some x \<and> (x = 0 \<longleftrightarrow> n \<notin> names intf xs)"
proof -
  have "set xs \<subseteq> A"
    using ring_nodes [OF family_ring [OF assms(1,3)]] assms(1) by (simp add: family_def)
  then have "0 \<notin> set xs"
    using assms(2) by blast
  then have "(case find (\<lambda>b. if_ifname (intf b) = n) xs of Some x \<Rightarrow> x | None \<Rightarrow> 0) = 0 \<longleftrightarrow> n \<notin> names intf xs"
    by (induction xs) (auto simp: names_def)
  then show ?thesis
    by (simp add: list_search_find [OF family_ring [OF assms(1,3)]])
qed

interpretation compare_del: safe_traversal A "two_lists A tmp cfg" cfg "delete_body env intf tmp" "delete_step env intf cfg tmp"
proof unfold_locales
  fix m L as e bs and c :: um_control
  assume f: "family A m L" "two_lists A tmp cfg L" "L cfg = Some (as @ e # bs)"
  obtain ts where ts: "L tmp = Some ts" "0 \<notin> A" "tmp \<noteq> cfg"
    using f(2) by (auto simp: two_lists_def)
  obtain x where x: "list_search (\<lambda>b. if_ifname (intf b) = if_ifname (intf e)) tmp m = Some x" "x = 0 \<longleftrightarrow> if_ifname (intf e) \<notin> names intf ts"
    using search_names [OF f(1) ts(2,1)] by blast
  have rem: "remove1 e (as @ e # bs) = as @ bs"
    using family_ring [OF f(1,3)] by (simp add: ring_def remove1_append)
  show "\<exists>m' as'. delete_body env intf tmp e (m, c) = Some (m', snd (delete_step env intf cfg tmp e (L, c)))
      \<and> family A m' (fst (delete_step env intf cfg tmp e (L, c))) \<and> two_lists A tmp cfg (fst (delete_step env intf cfg tmp e (L, c)))
      \<and> fst (delete_step env intf cfg tmp e (L, c)) cfg = Some (as' @ bs)"
  proof (cases "x = 0")
    case True
    then show ?thesis
      using x ts f rem sim_del_entry(2) [OF f(1,3)]
      by (auto simp: delete_body_def delete_step_def done_with_def two_lists_def eq_commute [of "if_ifname (intf e)"])
  next
    case False
    have "as @ e # bs = (as @ [e]) @ bs"
      by simp
    then show ?thesis
      using False x ts f by (auto simp: delete_body_def delete_step_def eq_commute [of "if_ifname (intf e)"])
  qed
qed

interpretation compare_move: safe_traversal A "two_lists A cfg tmp" tmp "move_body intf cfg" "move_step intf cfg tmp"
proof unfold_locales
  fix m L as e bs and c :: um_control
  assume f: "family A m L" "two_lists A cfg tmp L" "L tmp = Some (as @ e # bs)"
  obtain cs where cs: "L cfg = Some cs" "0 \<notin> A" "cfg \<noteq> tmp"
    using f(2) by (auto simp: two_lists_def)
  obtain x where x: "list_search (\<lambda>b. if_ifname (intf b) = if_ifname (intf e)) cfg m = Some x" "x = 0 \<longleftrightarrow> if_ifname (intf e) \<notin> names intf cs"
    using search_names [OF f(1) cs(2,1)] by blast
  have rem: "remove1 e (as @ e # bs) = as @ bs"
    using family_ring [OF f(1,3)] by (simp add: ring_def remove1_append)
  show "\<exists>m' as'. move_body intf cfg e (m, c) = Some (m', snd (move_step intf cfg tmp e (L, c)))
      \<and> family A m' (fst (move_step intf cfg tmp e (L, c))) \<and> two_lists A cfg tmp (fst (move_step intf cfg tmp e (L, c)))
      \<and> fst (move_step intf cfg tmp e (L, c)) tmp = Some (as' @ bs)"
  proof (cases "x = 0")
    case True
    obtain m1 where m1: "list_del e m = Some m1" "family A m1 (L(tmp \<mapsto> as @ bs))"
      using sim_del_entry(2) [OF f(1,3)] by (auto simp: done_with_def)
    have e: "(L(tmp \<mapsto> as @ bs)) e = None" "(L(tmp \<mapsto> as @ bs)) cfg = Some cs"
      using unused_member [OF f(1,3)] cs by simp_all
    then have "e \<noteq> cfg" "(L(tmp \<mapsto> as @ bs))(e := None) = L(tmp \<mapsto> as @ bs)"
      by (auto simp: fun_upd_idem_iff)
    then obtain m2 where "list_add e cfg m1 = Some m2" "family A m2 (L(tmp \<mapsto> as @ bs, cfg \<mapsto> e # cs))"
      using sim_add [OF m1(2) sim_del_entry(3) [OF f(1,3)] _ e(2)] by (auto simp: done_with_def simp del: fun_upd_apply)
    then show ?thesis
      using True x cs f(2,3) rem m1(1) by (auto simp: move_body_def move_step_def two_lists_def)
  next
    case False
    have "as @ e # bs = (as @ [e]) @ bs"
      by simp
    then show ?thesis
      using False x cs f by (auto simp: move_body_def move_step_def)
  qed
qed

text \<open>The folds over the bodies are the recursions of \<open>Um_Uci\<close>.\<close>

lemma has_ifname_names: "has_ifname (map intf xs) n \<longleftrightarrow> n \<in> names intf xs"
  by (auto simp: has_ifname_def names_def)

lemma delete_fold:
  assumes "L cfg = Some (ds @ cs)" "L tmp = Some ts" "cfg \<noteq> tmp" "distinct (ds @ cs)"
  shows "\<exists>cs' c'. fold (delete_step env intf cfg tmp) cs (L, c) = (L(cfg \<mapsto> ds @ cs'), c')
    \<and> compare_delete env (map intf ts) (map intf cs) c = (map intf cs', c')"
  using assms
proof (induction cs arbitrary: L ds c)
  case Nil
  then show ?case
    by (intro exI [of _ "[]"] exI [of _ c]) (simp add: fun_upd_idem)
next
  case (Cons e cs)
  show ?case
  proof (cases "if_ifname (intf e) \<in> names intf ts")
    case True
    then obtain cs' c' where "fold (delete_step env intf cfg tmp) cs (L, c) = (L(cfg \<mapsto> (ds @ [e]) @ cs'), c')"
        "compare_delete env (map intf ts) (map intf cs) c = (map intf cs', c')"
      using Cons.IH [of L "ds @ [e]" c] Cons.prems by (auto simp del: fun_upd_apply)
    moreover have "delete_step env intf cfg tmp e (L, c) = (L, c)"
      using True Cons.prems(2) by (simp add: delete_step_def)
    ultimately show ?thesis
      using True by (intro exI [of _ "e # cs'"] exI [of _ c']) (simp add: has_ifname_names del: fun_upd_apply)
  next
    case False
    have "remove1 e (ds @ e # cs) = ds @ cs"
      using Cons.prems(4) by (simp add: remove1_append)
    then have "delete_step env intf cfg tmp e (L, c) = (L(cfg \<mapsto> ds @ cs), deluser_byif env (intf e) c)"
      using False Cons.prems(1,2) by (simp add: delete_step_def)
    moreover have "(L(cfg \<mapsto> ds @ cs)) cfg = Some (ds @ cs)" "(L(cfg \<mapsto> ds @ cs)) tmp = Some ts"
      using Cons.prems by simp_all
    ultimately show ?thesis
      using Cons.IH [of "L(cfg \<mapsto> ds @ cs)" ds "deluser_byif env (intf e) c"] Cons.prems(3,4) False
      by (simp add: has_ifname_names del: fun_upd_apply)
  qed
qed

lemma move_fold:
  assumes "L tmp = Some (ds @ ts)" "L cfg = Some cs" "cfg \<noteq> tmp" "distinct (ds @ ts)"
  shows "\<exists>ts' cs'. fold (move_step intf cfg tmp) ts (L, c) = (L(tmp \<mapsto> ds @ ts', cfg \<mapsto> cs'), c)
    \<and> compare_move (map intf ts) (map intf cs) = (map intf ts', map intf cs')"
  using assms
proof (induction ts arbitrary: L ds cs)
  case Nil
  then show ?case
    by (intro exI [of _ "[]"] exI [of _ cs]) (simp add: fun_upd_idem)
next
  case (Cons e ts)
  show ?case
  proof (cases "if_ifname (intf e) \<in> names intf cs")
    case True
    then obtain ts' cs' where "fold (move_step intf cfg tmp) ts (L, c) = (L(tmp \<mapsto> (ds @ [e]) @ ts', cfg \<mapsto> cs'), c)"
        "compare_move (map intf ts) (map intf cs) = (map intf ts', map intf cs')"
      using Cons.IH [of L "ds @ [e]" cs] Cons.prems by (auto simp del: fun_upd_apply)
    moreover have "move_step intf cfg tmp e (L, c) = (L, c)"
      using True Cons.prems(2) by (simp add: move_step_def)
    ultimately have "fold (move_step intf cfg tmp) (e # ts) (L, c) = (L(tmp \<mapsto> ds @ e # ts', cfg \<mapsto> cs'), c)
      \<and> compare_move (map intf (e # ts)) (map intf cs) = (map intf (e # ts'), map intf cs')"
      using True by (simp add: has_ifname_names del: fun_upd_apply)
    then show ?thesis
      by blast
  next
    case False
    have "remove1 e (ds @ e # ts) = ds @ ts"
      using Cons.prems(4) by (simp add: remove1_append)
    then have "move_step intf cfg tmp e (L, c) = (L(tmp \<mapsto> ds @ ts, cfg \<mapsto> e # cs), c)"
      using False Cons.prems(1,2) by (simp add: move_step_def)
    moreover have "(L(tmp \<mapsto> ds @ ts, cfg \<mapsto> e # cs)) tmp = Some (ds @ ts)" "(L(tmp \<mapsto> ds @ ts, cfg \<mapsto> e # cs)) cfg = Some (e # cs)"
      using Cons.prems by simp_all
    moreover have "L(tmp \<mapsto> ds @ ts, cfg \<mapsto> e # cs, tmp \<mapsto> xs, cfg \<mapsto> ys) = L(tmp \<mapsto> xs, cfg \<mapsto> ys)" for xs ys
      using Cons.prems(3) by (auto simp: fun_eq_iff)
    ultimately show ?thesis
      using Cons.IH [of "L(tmp \<mapsto> ds @ ts, cfg \<mapsto> e # cs)" ds "e # cs"] Cons.prems(3,4) False
      by (simp add: has_ifname_names del: fun_upd_apply)
  qed
qed

text \<open>C17: comparing the interface lists in place. On linked lists of interfaces, the two loops of \<open>intf_compare\<close>, which take nodes
  off and move them while walking, end, keep every list a list, and leave on \<open>cfg\<close> and \<open>tmp\<close> the interfaces, and in the
  table the users, that \<open>compare_uci\<close> computes on plain lists.\<close>

theorem links_compare_refines:
  assumes "family A m L" and "0 \<notin> A" and "cfg \<noteq> tmp" and "L cfg = Some cs" and "L tmp = Some ts"
  shows "\<exists>m' c' cs' ts'. links_compare env intf cfg tmp (m, c) = Some (m', c') \<and> family A m' (L(cfg \<mapsto> cs', tmp \<mapsto> ts'))
    \<and> compare_uci env \<lparr>uci_cfg = map intf cs, uci_tmp = map intf ts\<rparr> c = (\<lparr>uci_cfg = map intf cs', uci_tmp = map intf ts'\<rparr>, c')"
proof -
  have d: "distinct ([] @ cs)" "distinct ([] @ ts)"
    using family_ring [OF assms(1,4)] family_ring [OF assms(1,5)] by (simp_all add: ring_def)
  obtain cs1 c' where del: "fold (delete_step env intf cfg tmp) cs (L, c) = (L(cfg \<mapsto> cs1), c')"
      "compare_delete env (map intf ts) (map intf cs) c = (map intf cs1, c')"
    using delete_fold [of L cfg "[]" cs tmp ts env intf c] assms(3-5) d(1) by (auto simp del: fun_upd_apply)
  have "two_lists A tmp cfg L"
    using assms by (simp add: two_lists_def)
  then obtain m1 where m1: "list_for_each_safe (delete_body env intf tmp) cfg (m, c) = Some (m1, c')" "family A m1 (L(cfg \<mapsto> cs1))"
    using compare_del.safe_loop [OF assms(1) _ assms(4), of tmp env intf c] del(1) by auto
  have L1: "(L(cfg \<mapsto> cs1)) tmp = Some ([] @ ts)" "(L(cfg \<mapsto> cs1)) cfg = Some cs1"
    using assms(3,5) by simp_all
  obtain ts' cs' where mv: "fold (move_step intf cfg tmp) ts (L(cfg \<mapsto> cs1), c') = (L(cfg \<mapsto> cs1, tmp \<mapsto> ts', cfg \<mapsto> cs'), c')"
      "compare_move (map intf ts) (map intf cs1) = (map intf ts', map intf cs')"
    using move_fold [OF L1 assms(3) d(2), of intf c'] by (auto simp del: fun_upd_apply)
  have "two_lists A cfg tmp (L(cfg \<mapsto> cs1))"
    using assms by (simp add: two_lists_def)
  then obtain m' where m': "list_for_each_safe (move_body intf cfg) tmp (m1, c') = Some (m', c')" "family A m' (L(cfg \<mapsto> cs1, tmp \<mapsto> ts', cfg \<mapsto> cs'))"
    using compare_move.safe_loop [OF m1(2) _ L1(1), of cfg intf c'] mv(1) by (auto simp del: fun_upd_apply)
  have "L(cfg \<mapsto> cs1, tmp \<mapsto> ts', cfg \<mapsto> cs') = L(cfg \<mapsto> cs', tmp \<mapsto> ts')"
    using assms(3) by (auto simp: fun_eq_iff)
  then show ?thesis
    using m1(1) m' del(2) mv(2)
    by (intro exI [of _ m'] exI [of _ c']) (auto simp: links_compare_def compare_uci_def simp del: fun_upd_apply)
qed

definition link_intf :: "addr \<Rightarrow> um_intf" where
  "link_intf a = \<lparr>if_type = UM_INTF_WLAN, if_ifname = [word_of_nat a], if_radioid = 0, if_wlanid = int a\<rparr>"

theorem links_compare_refines_witness:
  "\<exists>m' c' cs' ts'. links_compare sample_env link_intf 2 1 (sample_mem, umc_init) = Some (m', c')
    \<and> family {1, 2, 3, 4, 5} m' (sample_lists(2 \<mapsto> cs', 1 \<mapsto> ts'))
    \<and> compare_uci sample_env \<lparr>uci_cfg = [], uci_tmp = map link_intf [3, 4]\<rparr> umc_init = (\<lparr>uci_cfg = map link_intf cs', uci_tmp = map link_intf ts'\<rparr>, c')"
  using links_compare_refines [OF sample_family, of 2 1 "[]" "[3, 4]" sample_env link_intf umc_init]
  by (simp add: sample_lists_def)

end
