(* ===== verification/Acc_Mod.thy ===== *)
theory Acc_Mod
  imports Os_Base
begin

text \<open>
  The kernel module of \<open>autelan_mod/acc_mod/src/check_acc.c\<close>, which watches the ignition line
  (ACC) of a vehicle. While the ignition is on, \<open>gcc_timer\<close> runs \<open>check_acc_stage1\<close> once a second;
  three readings in a row with the pin high schedule the tasklet, which starts \<open>acc_timer\<close> and
  \<open>check_acc_stage2\<close>; after \<open>total_time1\<close> further readings the module announces the end of the
  delay, and \<open>sig_timer\<close> with \<open>ap_shutdown\<close> restarts the machine one minute later.

  The state is one record of the module's globals, with the 32-bit registers of \<open>ar9350.h\<close> as a
  function from addresses to words and the module's interactions with the outside as a trace,
  newest first. The Linux kernel is represented by the documented effect of the calls the module
  makes: a timer is pending until its handler starts, \<open>add_timer\<close> of a pending timer and a
  timer without function are kernel bugs (\<open>Abort\<close>), and a semaphore is its counter. The model is
  the LTEFI V3 build (the pin numbers of the \<open>#else\<close> branch), with \<open>HZ\<close> = \<open>ACC_TIMER\<close> = 100.
\<close>

subsection \<open>Registers and pins (ar9350.h)\<close>

definition AR9350_GPIO_OE :: u32 where "AR9350_GPIO_OE = 0x18040000"
definition AR9350_GPIO_IN :: u32 where "AR9350_GPIO_IN = 0x18040004"
definition AR9350_GPIO_OUT :: u32 where "AR9350_GPIO_OUT = 0x18040008"
definition ACC_GPIO :: int where "ACC_GPIO = 17"
definition SHUT_GPIO :: int where "SHUT_GPIO = 25"
definition DB120_GPIO_POWER :: int where "DB120_GPIO_POWER = 18"
definition ACC_MINOR :: int where "ACC_MINOR = 134"
definition ACC_TIMER :: int where "ACC_TIMER = 100"
definition DELAY_AFTER_OFF :: int where "DELAY_AFTER_OFF = 10"
definition ACC_DELAY_TIMER :: int where "ACC_DELAY_TIMER = 60"
definition acc_time :: int where "acc_time = 1"
definition gcc_time :: int where "gcc_time = 1"

datatype handler = Check_acc_stage1 | Check_acc_stage2 | Ap_shutdown

record timer_list =
  tl_function :: "handler option"
  tl_expires :: u32
  tl_pending :: bool

datatype acc_io = Pin_read int | Nl_msg string int | Send_SIGIO | Kernel_restart

record acc_op_args =
  op_addr :: u32
  op_value :: u32
  op_offset :: u32
  op_len :: u16
  op_ret :: u16
  op_num :: u32
  op_status :: u32

record acc_mod =
  am_acc_timer :: timer_list
  am_gcc_timer :: timer_list
  am_sig_timer :: timer_list
  am_tasklet :: bool
  am_sem :: int
  am_args :: acc_op_args
  am_is_open :: int
  am_flag :: int
  am_flag1 :: int
  am_total_time :: int
  am_total_time1 :: int
  am_sem_ret :: int
  am_nl_sk :: bool
  am_pid :: int
  am_msg_flag :: int
  am_delay_flag :: int
  am_jiffies :: u32
  am_regs :: "u32 \<Rightarrow> u32"
  am_down :: bool
  am_trace :: "acc_io list"

definition ar7100_reg_rd :: "u32 \<Rightarrow> acc_mod \<Rightarrow> u32" where
  "ar7100_reg_rd phys s = am_regs s phys"

text \<open>A store through the uncached segment. The address may come from a user of \<open>SET_REGISTER\<close> unchecked; what a store to an address
  that is no register does to the machine is outside the model, which only remembers the value.\<close>

definition ar7100_reg_wr :: "u32 \<Rightarrow> u32 \<Rightarrow> acc_mod \<Rightarrow> acc_mod" where
  "ar7100_reg_wr phys val s = s\<lparr>am_regs := (am_regs s)(phys := val)\<rparr>"

definition ar7100_reg_rmw_set :: "u32 \<Rightarrow> u32 \<Rightarrow> acc_mod \<Rightarrow> acc_mod" where
  "ar7100_reg_rmw_set reg msk s = ar7100_reg_wr reg (ar7100_reg_rd reg s OR msk) s"

definition ar7100_reg_rmw_clear :: "u32 \<Rightarrow> u32 \<Rightarrow> acc_mod \<Rightarrow> acc_mod" where
  "ar7100_reg_rmw_clear reg msk s = ar7100_reg_wr reg (ar7100_reg_rd reg s AND NOT msk) s"

text \<open>\<open>1 << gpio\<close>; the shift instruction of the target uses the low five bits of the amount.\<close>

definition gpio_bit :: "int \<Rightarrow> u32" where
  "gpio_bit gpio = push_bit (nat (gpio mod 32)) 1"

definition ar7100_gpio_config_output :: "int \<Rightarrow> acc_mod \<Rightarrow> acc_mod" where
  "ar7100_gpio_config_output gpio = ar7100_reg_rmw_clear AR9350_GPIO_OE (gpio_bit gpio)"

definition ar7100_gpio_config_input :: "int \<Rightarrow> acc_mod \<Rightarrow> acc_mod" where
  "ar7100_gpio_config_input gpio = ar7100_reg_rmw_set AR9350_GPIO_OE (gpio_bit gpio)"

definition ar7100_gpio_out_val :: "int \<Rightarrow> int \<Rightarrow> acc_mod \<Rightarrow> acc_mod" where
  "ar7100_gpio_out_val gpio val =
     (if val AND 1 \<noteq> 0 then ar7100_reg_rmw_set AR9350_GPIO_OUT (gpio_bit gpio)
      else ar7100_reg_rmw_clear AR9350_GPIO_OUT (gpio_bit gpio))"

definition ar7100_gpio_in_val :: "int \<Rightarrow> acc_mod \<Rightarrow> int" where
  "ar7100_gpio_in_val gpio s = (if gpio_bit gpio AND ar7100_reg_rd AR9350_GPIO_IN s \<noteq> 0 then 1 else 0)"

definition ar7100_gpio_get_out_val :: "int \<Rightarrow> acc_mod \<Rightarrow> int" where
  "ar7100_gpio_get_out_val gpio s = (if gpio_bit gpio AND ar7100_reg_rd AR9350_GPIO_OUT s \<noteq> 0 then 1 else 0)"

subsection \<open>The kernel calls of the module\<close>

definition am_io :: "acc_io \<Rightarrow> acc_mod \<Rightarrow> acc_mod" where
  "am_io e s = s\<lparr>am_trace := e # am_trace s\<rparr>"

definition add_timer :: "timer_list \<Rightarrow> u32 \<Rightarrow> timer_list outcome" where
  "add_timer t expires = (if tl_pending t then Abort else Ret (t\<lparr>tl_expires := expires, tl_pending := True\<rparr>))"

definition del_timer :: "timer_list \<Rightarrow> timer_list" where
  "del_timer t = t\<lparr>tl_pending := False\<rparr>"

text \<open>\<open>jiffies\<close> plus a number of seconds.\<close>

definition after_s :: "int \<Rightarrow> acc_mod \<Rightarrow> u32" where
  "after_s n s = am_jiffies s + word_of_int (n * ACC_TIMER)"

definition add_gcc_timer :: "int \<Rightarrow> acc_mod \<Rightarrow> acc_mod outcome" where
  "add_gcc_timer n s = obind (add_timer (am_gcc_timer s) (after_s n s)) (\<lambda>t. Ret (s\<lparr>am_gcc_timer := t\<rparr>))"

definition add_acc_timer :: "int \<Rightarrow> acc_mod \<Rightarrow> acc_mod outcome" where
  "add_acc_timer n s = obind (add_timer (am_acc_timer s) (after_s n s)) (\<lambda>t. Ret (s\<lparr>am_acc_timer := t\<rparr>))"

definition add_sig_timer :: "int \<Rightarrow> acc_mod \<Rightarrow> acc_mod outcome" where
  "add_sig_timer n s = obind (add_timer (am_sig_timer s) (after_s n s)) (\<lambda>t. Ret (s\<lparr>am_sig_timer := t\<rparr>))"

definition down_trylock :: "acc_mod \<Rightarrow> int \<times> acc_mod" where
  "down_trylock s = (if 0 < am_sem s then (0, s\<lparr>am_sem := am_sem s - 1\<rparr>) else (1, s))"

definition up :: "acc_mod \<Rightarrow> acc_mod" where
  "up s = s\<lparr>am_sem := am_sem s + 1\<rparr>"

text \<open>
  \<open>skb n\<close> tells whether the allocation of a socket buffer succeeds when the trace has \<open>n\<close> entries;
  \<open>sendnlmsg\<close> goes on with a NULL buffer after a failed one. The timer handlers call it in atomic context although it
  allocates with \<open>GFP_KERNEL\<close>, and \<open>kernel_restart\<close> is called there too; whether such a call sleeps, which the kernel
  does not allow, is not modelled.
\<close>

definition sendnlmsg :: "(nat \<Rightarrow> bool) \<Rightarrow> string \<Rightarrow> acc_mod \<Rightarrow> acc_mod outcome" where
  "sendnlmsg skb message s =
     (if \<not> am_nl_sk s then Ret s
      else if \<not> skb (length (am_trace s)) then Abort
      else Ret (am_io (Nl_msg message (am_pid s)) s))"

definition msg_if_asked :: "(nat \<Rightarrow> bool) \<Rightarrow> string \<Rightarrow> acc_mod \<Rightarrow> acc_mod outcome" where
  "msg_if_asked skb message s = (if 1 = am_msg_flag s then sendnlmsg skb message s else Ret s)"

subsection \<open>Timers and the tasklet\<close>

definition turn_off_pwr_led :: "acc_mod \<Rightarrow> acc_mod" where
  "turn_off_pwr_led s = ar7100_gpio_out_val DB120_GPIO_POWER 1 (ar7100_gpio_config_output DB120_GPIO_POWER s)"

definition turn_on_pwr_led :: "acc_mod \<Rightarrow> acc_mod" where
  "turn_on_pwr_led s = ar7100_gpio_out_val DB120_GPIO_POWER 0 (ar7100_gpio_config_output DB120_GPIO_POWER s)"

definition kernel_restart :: "acc_mod \<Rightarrow> acc_mod" where
  "kernel_restart s = (am_io Kernel_restart s)\<lparr>am_down := True\<rparr>"

definition ap_shutdown :: "(nat \<Rightarrow> bool) \<Rightarrow> acc_mod \<Rightarrow> acc_mod outcome" where
  "ap_shutdown skb s = obind (msg_if_asked skb ''delay off'' s) (\<lambda>s.
     let s = am_io Send_SIGIO s;
         s = s\<lparr>am_delay_flag := am_delay_flag s + 1\<rparr>;
         s = s\<lparr>am_sig_timer := del_timer (am_sig_timer s)\<rparr>
     in if am_delay_flag s < 6 then add_sig_timer DELAY_AFTER_OFF s else Ret (kernel_restart s))"

definition check_acc_stage2 :: "(nat \<Rightarrow> bool) \<Rightarrow> acc_mod \<Rightarrow> acc_mod outcome" where
  "check_acc_stage2 skb s =
     (let reg_val = ar7100_gpio_in_val ACC_GPIO s;
          s = am_io (Pin_read reg_val) s;
          button_flag = (if 1 = reg_val then 0 else 1 :: int)
      in if 1 = button_flag then
           obind (msg_if_asked skb ''acc on'' (turn_on_pwr_led ((up s)\<lparr>am_flag := 0\<rparr>)))
             (\<lambda>s. add_gcc_timer gcc_time (am_io Send_SIGIO s))
         else if am_total_time1 s \<le> am_total_time s then
           obind (msg_if_asked skb ''delay off'' ((up s)\<lparr>am_flag := 0\<rparr>))
             (\<lambda>s. let s = am_io Send_SIGIO s;
                       s = s\<lparr>am_sig_timer := (del_timer (am_sig_timer s))\<lparr>tl_function := Some Ap_shutdown\<rparr>\<rparr>
                   in add_sig_timer DELAY_AFTER_OFF s)
         else add_acc_timer acc_time (s\<lparr>am_total_time := am_total_time s + acc_time\<rparr>))"

definition check_acc_stage1 :: "acc_mod \<Rightarrow> acc_mod outcome" where
  "check_acc_stage1 s =
     (let reg_val = ar7100_gpio_in_val ACC_GPIO s;
          s = am_io (Pin_read reg_val) s;
          (button_flag, s) =
            (if 1 = reg_val then
               let s = s\<lparr>am_flag1 := am_flag1 s + 1\<rparr>
               in if 3 \<le> am_flag1 s then (True, s\<lparr>am_flag1 := 0\<rparr>) else (False, s)
             else (False, s\<lparr>am_flag1 := 0\<rparr>))
      in if button_flag then
           let (r, s) = down_trylock s; s = s\<lparr>am_sem_ret := r\<rparr>
           in if r = 0 then Ret (s\<lparr>am_total_time := 0, am_tasklet := True\<rparr>)
              else add_gcc_timer gcc_time s
         else add_gcc_timer gcc_time s)"

definition tasklet_action :: "(nat \<Rightarrow> bool) \<Rightarrow> acc_mod \<Rightarrow> acc_mod outcome" where
  "tasklet_action skb s =
     obind (msg_if_asked skb ''acc off'' (turn_off_pwr_led (s\<lparr>am_flag := 1\<rparr>)))
       (\<lambda>s. let s = s\<lparr>am_acc_timer := (del_timer (am_acc_timer s))\<lparr>tl_function := Some Check_acc_stage2\<rparr>\<rparr>;
                 s = s\<lparr>am_total_time := am_total_time s + acc_time\<rparr>
             in add_acc_timer acc_time (am_io Send_SIGIO s))"

subsection \<open>The character device and the netlink socket\<close>

definition no_args :: acc_op_args where
  "no_args = \<lparr>op_addr = 0, op_value = 0, op_offset = 0, op_len = 0, op_ret = 0, op_num = 0, op_status = 0\<rparr>"

definition ioc_type :: "u32 \<Rightarrow> u32" where "ioc_type cmd = drop_bit 8 cmd AND 0xFF"
definition ioc_nr :: "u32 \<Rightarrow> u32" where "ioc_nr cmd = cmd AND 0xFF"

text \<open>\<open>_IOWR(ACC_IOC_MAGIC, nr, acc_op_args)\<close> on MIPS: direction 6 at bit 29, the size 24 at bit 16.\<close>

definition acc_iowr :: "u32 \<Rightarrow> u32" where
  "acc_iowr nr = push_bit 29 6 OR push_bit 16 24 OR push_bit 8 10 OR nr"

definition SET_ACC_GPIO_TIMER :: u32 where "SET_ACC_GPIO_TIMER = acc_iowr 0"
definition GET_ACC_GPIO_TIMER :: u32 where "GET_ACC_GPIO_TIMER = acc_iowr 1"
definition SET_GPIO :: u32 where "SET_GPIO = acc_iowr 2"
definition GET_GPIO :: u32 where "GET_GPIO = acc_iowr 3"
definition SET_REGISTER :: u32 where "SET_REGISTER = acc_iowr 4"
definition GET_REGISTER :: u32 where "GET_REGISTER = acc_iowr 5"

text \<open>
  \<open>user\<close> is the structure the caller passes, \<open>None\<close> when the copy faults: the kernel then leaves
  zeros, and the module goes on with them. The second component of the result is what is copied
  back.
\<close>

definition acc_copy_in :: "acc_op_args option \<Rightarrow> acc_mod \<Rightarrow> acc_mod" where
  "acc_copy_in user s = s\<lparr>am_args := (case user of None \<Rightarrow> no_args | Some a \<Rightarrow> a)\<rparr>"

definition acc_ioctl :: "u32 \<Rightarrow> acc_op_args option \<Rightarrow> acc_mod \<Rightarrow> int \<times> acc_op_args option \<times> acc_mod" where
  "acc_ioctl cmd user s =
     (if ioc_type cmd \<noteq> 10 then (err ENOTTY, None, s)
      else if 6 < ioc_nr cmd then (err ENOTTY, None, s)
      else
        let s = s\<lparr>am_args := no_args\<rparr>
        in if cmd = SET_ACC_GPIO_TIMER then
             if 0 = am_flag s
             then let s = acc_copy_in user s in (0, None, s\<lparr>am_total_time1 := sint (op_num (am_args s))\<rparr>)
             else (0, None, s)
           else if cmd = GET_ACC_GPIO_TIMER then (0, None, s)
           else if cmd = SET_GPIO then
             let s = acc_copy_in user s;
                 gpio_pin = sint (op_num (am_args s));
                 gpio_val = sint (op_status (am_args s))
             in (0, None, if ACC_GPIO \<noteq> gpio_pin then ar7100_gpio_out_val gpio_pin (gpio_val AND 1) s else s)
           else if cmd = GET_GPIO then
             let s = acc_copy_in user s;
                 gpio_pin = sint (op_num (am_args s));
                 gpio_val = (if ACC_GPIO = gpio_pin then ar7100_gpio_in_val gpio_pin s
                             else ar7100_gpio_get_out_val gpio_pin s);
                 s = s\<lparr>am_args := (am_args s)\<lparr>op_status := word_of_int gpio_val\<rparr>\<rparr>
             in (0, (case user of None \<Rightarrow> None | Some _ \<Rightarrow> Some (am_args s)), s)
           else if cmd = SET_REGISTER then
             let s = acc_copy_in user s
             in (0, None, ar7100_reg_wr (op_addr (am_args s)) (op_value (am_args s)) s)
           else if cmd = GET_REGISTER then (0, None, acc_copy_in user s)
           else (-1, None, s))"

definition acc_open :: "int \<Rightarrow> acc_mod \<Rightarrow> int \<times> acc_mod" where
  "acc_open minor s =
     (if minor = ACC_MINOR
      then if am_is_open s \<noteq> 0 then (err EBUSY, s) else (0, s\<lparr>am_is_open := 1\<rparr>)
      else (err ENODEV, s))"

definition acc_close :: "int \<Rightarrow> acc_mod \<Rightarrow> int \<times> acc_mod" where
  "acc_close minor s = (0, if minor = ACC_MINOR then s\<lparr>am_is_open := 0\<rparr> else s)"

text \<open>A message of \<open>len\<close> bytes, header included (16 bytes on the target), from the port \<open>port\<close>. The code also copies 100 bytes of
  payload to a local array it does not use, whatever the length of the message, and keeps a reference to a message shorter
  than its header; neither has an effect on the state here.\<close>

definition nl_data_ready :: "(nat \<Rightarrow> bool) \<Rightarrow> int \<Rightarrow> int \<Rightarrow> acc_mod \<Rightarrow> acc_mod outcome" where
  "nl_data_ready skb len port s =
     (if 16 \<le> len
      then obind (sendnlmsg skb ''hello i am kernel'' (s\<lparr>am_pid := port\<rparr>)) (\<lambda>s. Ret (s\<lparr>am_msg_flag := 1\<rparr>))
      else Ret s)"

subsection \<open>Loading and unloading\<close>

definition init_timer :: timer_list where
  "init_timer = \<lparr>tl_function = None, tl_expires = 0, tl_pending = False\<rparr>"

text \<open>The globals when the module is loaded at time \<open>j\<close> with the registers \<open>regs\<close>.\<close>

definition acc_globals :: "u32 \<Rightarrow> (u32 \<Rightarrow> u32) \<Rightarrow> acc_mod" where
  "acc_globals j regs = \<lparr>am_acc_timer = init_timer, am_gcc_timer = init_timer, am_sig_timer = init_timer,
     am_tasklet = False, am_sem = 0, am_args = no_args, am_is_open = 0, am_flag = 0, am_flag1 = 0,
     am_total_time = 0, am_total_time1 = ACC_DELAY_TIMER, am_sem_ret = 0, am_nl_sk = False, am_pid = 0,
     am_msg_flag = 0, am_delay_flag = 0, am_jiffies = j, am_regs = regs, am_down = False, am_trace = []\<rparr>"

definition acc_gpio_timer_init :: "acc_mod \<Rightarrow> acc_mod outcome" where
  "acc_gpio_timer_init s =
     add_gcc_timer gcc_time (s\<lparr>am_acc_timer := init_timer, am_sig_timer := init_timer,
       am_gcc_timer := init_timer\<lparr>tl_function := Some Check_acc_stage1\<rparr>\<rparr>)"

text \<open>\<open>sock\<close> tells whether \<open>netlink_kernel_create\<close> succeeds.\<close>

definition build_netlink :: "bool \<Rightarrow> acc_mod \<Rightarrow> int \<times> acc_mod" where
  "build_netlink sock s = (if sock then (0, s\<lparr>am_nl_sk := True\<rparr>) else (1, s\<lparr>am_nl_sk := False\<rparr>))"

definition acc_init :: "bool \<Rightarrow> acc_mod \<Rightarrow> (int \<times> acc_mod) outcome" where
  "acc_init sock s =
     (let s = s\<lparr>am_sem := 1\<rparr>;
          s = ar7100_gpio_config_output SHUT_GPIO s;
          s = ar7100_gpio_out_val SHUT_GPIO 0 s;
          s = ar7100_gpio_config_input ACC_GPIO s
      in obind (acc_gpio_timer_init s) (\<lambda>s. Ret (0, snd (build_netlink sock s))))"

definition acc_gpio_timer_exit :: "acc_mod \<Rightarrow> acc_mod" where
  "acc_gpio_timer_exit s = s\<lparr>am_gcc_timer := del_timer (am_gcc_timer s),
     am_acc_timer := del_timer (am_acc_timer s), am_sig_timer := del_timer (am_sig_timer s)\<rparr>"

definition acc_exit :: "acc_mod \<Rightarrow> acc_mod" where
  "acc_exit s = (acc_gpio_timer_exit s)\<lparr>am_tasklet := False\<rparr>"

subsection \<open>The module under its kernel\<close>

text \<open>
  \<open>time_after_eq\<close> is the kernel's comparison of tick counters. A due timer is taken out of the
  queue and its handler run; the tasklet runs once per scheduling. \<open>acc_event\<close> is whatever can
  happen next, in any order; \<open>None\<close> is an event that cannot happen in the state.
\<close>

definition time_after_eq :: "u32 \<Rightarrow> u32 \<Rightarrow> bool" where
  "time_after_eq a b \<longleftrightarrow> 0 \<le> sint (a - b)"

definition timer_due :: "acc_mod \<Rightarrow> timer_list \<Rightarrow> bool" where
  "timer_due s t \<longleftrightarrow> tl_pending t \<and> time_after_eq (am_jiffies s) (tl_expires t)"

fun run_handler :: "(nat \<Rightarrow> bool) \<Rightarrow> handler option \<Rightarrow> acc_mod \<Rightarrow> acc_mod outcome" where
  "run_handler skb None s = Abort"
| "run_handler skb (Some Check_acc_stage1) s = check_acc_stage1 s"
| "run_handler skb (Some Check_acc_stage2) s = check_acc_stage2 skb s"
| "run_handler skb (Some Ap_shutdown) s = ap_shutdown skb s"

definition run_gcc :: "(nat \<Rightarrow> bool) \<Rightarrow> acc_mod \<Rightarrow> acc_mod outcome" where
  "run_gcc skb s = run_handler skb (tl_function (am_gcc_timer s)) (s\<lparr>am_gcc_timer := del_timer (am_gcc_timer s)\<rparr>)"

definition run_acc :: "(nat \<Rightarrow> bool) \<Rightarrow> acc_mod \<Rightarrow> acc_mod outcome" where
  "run_acc skb s = run_handler skb (tl_function (am_acc_timer s)) (s\<lparr>am_acc_timer := del_timer (am_acc_timer s)\<rparr>)"

definition run_sig :: "(nat \<Rightarrow> bool) \<Rightarrow> acc_mod \<Rightarrow> acc_mod outcome" where
  "run_sig skb s = run_handler skb (tl_function (am_sig_timer s)) (s\<lparr>am_sig_timer := del_timer (am_sig_timer s)\<rparr>)"

definition run_tasklet :: "(nat \<Rightarrow> bool) \<Rightarrow> acc_mod \<Rightarrow> acc_mod outcome" where
  "run_tasklet skb s = tasklet_action skb (s\<lparr>am_tasklet := False\<rparr>)"

datatype acc_event = Tick | Pins u32 | Run_gcc | Run_acc | Run_sig | Run_tasklet
  | Ioctl u32 "acc_op_args option" | Open int | Close int | Netlink int int

fun acc_happens :: "(nat \<Rightarrow> bool) \<Rightarrow> acc_event \<Rightarrow> acc_mod \<Rightarrow> acc_mod outcome option" where
  "acc_happens skb Tick s = Some (Ret (s\<lparr>am_jiffies := am_jiffies s + 1\<rparr>))"
| "acc_happens skb (Pins w) s = Some (Ret (ar7100_reg_wr AR9350_GPIO_IN w s))"
| "acc_happens skb Run_gcc s = (if timer_due s (am_gcc_timer s) then Some (run_gcc skb s) else None)"
| "acc_happens skb Run_acc s = (if timer_due s (am_acc_timer s) then Some (run_acc skb s) else None)"
| "acc_happens skb Run_sig s = (if timer_due s (am_sig_timer s) then Some (run_sig skb s) else None)"
| "acc_happens skb Run_tasklet s = (if am_tasklet s then Some (run_tasklet skb s) else None)"
| "acc_happens skb (Ioctl cmd user) s = Some (Ret (snd (snd (acc_ioctl cmd user s))))"
| "acc_happens skb (Open minor) s = Some (Ret (snd (acc_open minor s)))"
| "acc_happens skb (Close minor) s = Some (Ret (snd (acc_close minor s)))"
| "acc_happens skb (Netlink len port) s = Some (nl_data_ready skb len port s)"

inductive acc_reachable :: "(nat \<Rightarrow> bool) \<Rightarrow> acc_mod \<Rightarrow> bool" for skb where
  loaded: "acc_init sock (acc_globals j regs) = Ret (r, s) \<Longrightarrow> acc_reachable skb s"
| happens: "acc_reachable skb s \<Longrightarrow> \<not> am_down s \<Longrightarrow> acc_happens skb e s = Some (Ret s') \<Longrightarrow> acc_reachable skb s'"

text \<open>
  One tick of an idle machine: the clock advances, the timers that are due run, then the tasklet.
\<close>

definition if_due :: "(acc_mod \<Rightarrow> bool) \<Rightarrow> (acc_mod \<Rightarrow> acc_mod outcome) \<Rightarrow> acc_mod \<Rightarrow> acc_mod outcome" where
  "if_due p f s = (if \<not> am_down s \<and> p s then f s else Ret s)"

definition acc_tick :: "(nat \<Rightarrow> bool) \<Rightarrow> acc_mod \<Rightarrow> acc_mod outcome" where
  "acc_tick skb s = (if am_down s then Ret s else
     obind (if_due (\<lambda>s. timer_due s (am_gcc_timer s)) (run_gcc skb) (s\<lparr>am_jiffies := am_jiffies s + 1\<rparr>)) (\<lambda>s.
     obind (if_due (\<lambda>s. timer_due s (am_acc_timer s)) (run_acc skb) s) (\<lambda>s.
     obind (if_due (\<lambda>s. timer_due s (am_sig_timer s)) (run_sig skb) s)
       (if_due am_tasklet (run_tasklet skb)))))"

primrec acc_ticks :: "(nat \<Rightarrow> bool) \<Rightarrow> nat \<Rightarrow> acc_mod \<Rightarrow> acc_mod outcome" where
  "acc_ticks skb 0 s = Ret s"
| "acc_ticks skb (Suc n) s = obind (acc_tick skb s) (acc_ticks skb n)"

subsection \<open>Phases\<close>

text \<open>
  The abstract machine behind the flags: the module is watching the pin, about to start the delay,
  in the delay, closing down, or has restarted the machine. Each phase has exactly one source of
  further activity: \<open>gcc_timer\<close>, the tasklet, \<open>acc_timer\<close>, \<open>sig_timer\<close>, nothing.
\<close>

lemmas gpio_defs = turn_on_pwr_led_def turn_off_pwr_led_def ar7100_gpio_config_output_def
  ar7100_gpio_config_input_def ar7100_gpio_out_val_def ar7100_reg_rmw_set_def ar7100_reg_rmw_clear_def
  ar7100_reg_wr_def

lemmas timer_defs = add_gcc_timer_def add_acc_timer_def add_sig_timer_def add_timer_def del_timer_def

text \<open>The number of readings in a row, up to the last one, that found the pin high.\<close>

fun off_run :: "acc_io list \<Rightarrow> nat" where
  "off_run [] = 0"
| "off_run (Pin_read v # tr) = (if v = 1 then Suc (off_run tr) else 0)"
| "off_run (Nl_msg m p # tr) = off_run tr"
| "off_run (Send_SIGIO # tr) = off_run tr"
| "off_run (Kernel_restart # tr) = off_run tr"

datatype acc_phase = Watching | Switching | Delaying | Closing | Stopped

definition acc_active :: "acc_mod \<Rightarrow> bool list" where
  "acc_active s = [tl_pending (am_gcc_timer s), am_tasklet s, tl_pending (am_acc_timer s),
     tl_pending (am_sig_timer s), am_down s]"

fun acc_in :: "acc_phase \<Rightarrow> acc_mod \<Rightarrow> bool" where
  "acc_in Watching s \<longleftrightarrow> acc_active s = [True, False, False, False, False] \<and> am_sem s = 1
     \<and> tl_function (am_gcc_timer s) = Some Check_acc_stage1 \<and> am_delay_flag s = 0
     \<and> 0 \<le> am_flag1 s \<and> am_flag1 s < 3 \<and> am_flag1 s \<le> int (off_run (am_trace s))"
| "acc_in Switching s \<longleftrightarrow> acc_active s = [False, True, False, False, False] \<and> am_sem s = 0
     \<and> tl_function (am_gcc_timer s) = Some Check_acc_stage1 \<and> am_delay_flag s = 0 \<and> am_flag1 s = 0
     \<and> am_total_time s = 0 \<and> 3 \<le> off_run (am_trace s)"
| "acc_in Delaying s \<longleftrightarrow> acc_active s = [False, False, True, False, False] \<and> am_sem s = 0
     \<and> tl_function (am_gcc_timer s) = Some Check_acc_stage1
     \<and> tl_function (am_acc_timer s) = Some Check_acc_stage2
     \<and> am_delay_flag s = 0 \<and> am_flag1 s = 0 \<and> am_flag s = 1
     \<and> 1 \<le> am_total_time s \<and> 2 + am_total_time s \<le> int (off_run (am_trace s))"
| "acc_in Closing s \<longleftrightarrow> acc_active s = [False, False, False, True, False] \<and> am_sem s = 1
     \<and> tl_function (am_sig_timer s) = Some Ap_shutdown \<and> 0 \<le> am_delay_flag s \<and> am_delay_flag s < 6"
| "acc_in Stopped s \<longleftrightarrow> acc_active s = [False, False, False, False, True] \<and> am_delay_flag s = 6"

text \<open>What the phases depend on; the device, the registers and messages leave it alone.\<close>

definition acc_view :: "acc_mod \<Rightarrow> _" where
  "acc_view s = (acc_active s, am_sem s, tl_function (am_gcc_timer s), tl_function (am_acc_timer s),
     tl_function (am_sig_timer s), am_delay_flag s, am_flag1 s, am_total_time s, am_flag s, off_run (am_trace s))"

lemma acc_in_view: "acc_view s = acc_view s' \<Longrightarrow> acc_in p s \<longleftrightarrow> acc_in p s'"
  by (cases p) (simp_all add: acc_view_def)

lemma acc_in_unique: "acc_in p s \<Longrightarrow> acc_in q s \<Longrightarrow> p = q"
  by (cases p; cases q) simp_all

lemma acc_view_upd [simp]:
  "acc_view (s\<lparr>am_args := a\<rparr>) = acc_view s"
  "acc_view (s\<lparr>am_regs := f\<rparr>) = acc_view s"
  "acc_view (s\<lparr>am_total_time1 := n\<rparr>) = acc_view s"
  "acc_view (s\<lparr>am_is_open := n\<rparr>) = acc_view s"
  "acc_view (s\<lparr>am_pid := n\<rparr>) = acc_view s"
  "acc_view (s\<lparr>am_msg_flag := n\<rparr>) = acc_view s"
  "acc_view (s\<lparr>am_nl_sk := b\<rparr>) = acc_view s"
  "acc_view (s\<lparr>am_jiffies := j\<rparr>) = acc_view s"
  "acc_view (am_io (Nl_msg m p) s) = acc_view s"
  by (simp_all add: acc_view_def acc_active_def am_io_def)

lemma gpio_only_regs:
  "\<exists>f. ar7100_gpio_out_val g v s = s\<lparr>am_regs := f\<rparr>"
  "\<exists>f. ar7100_gpio_config_output g s = s\<lparr>am_regs := f\<rparr>"
  "\<exists>f. ar7100_gpio_config_input g s = s\<lparr>am_regs := f\<rparr>"
  by (simp_all add: gpio_defs) blast+

lemma led_only_regs: "\<exists>f. turn_on_pwr_led s = s\<lparr>am_regs := f\<rparr>" "\<exists>f. turn_off_pwr_led s = s\<lparr>am_regs := f\<rparr>"
  unfolding turn_on_pwr_led_def turn_off_pwr_led_def by (simp_all add: gpio_defs) blast+

lemma led_gcc_timer: "am_gcc_timer (turn_on_pwr_led s) = am_gcc_timer s"
  by (simp add: gpio_defs)

lemma acc_view_gpio [simp]:
  "acc_view (ar7100_gpio_out_val g v s) = acc_view s" "acc_view (ar7100_reg_wr r w s) = acc_view s"
  "acc_view (acc_copy_in user s) = acc_view s"
  by (simp_all add: gpio_defs acc_copy_in_def)

lemma acc_ioctl_view: "acc_view (snd (snd (acc_ioctl cmd user s))) = acc_view s"
  by (simp add: acc_ioctl_def Let_def)

lemma nl_data_ready_view: "nl_data_ready skb len port s = Ret s' \<Longrightarrow> acc_view s' = acc_view s"
  by (auto simp: nl_data_ready_def sendnlmsg_def split: if_splits)

lemma msg_if_asked_cases:
  assumes "msg_if_asked skb m s = Ret s'"
  obtains "s' = s" | "s' = am_io (Nl_msg m (am_pid s)) s"
  using assms by (auto simp: msg_if_asked_def sendnlmsg_def split: if_splits)

lemma msg_if_asked_Ret:
  "(\<forall>n. skb n) \<Longrightarrow> msg_if_asked skb m s = Ret (if am_msg_flag s = 1 \<and> am_nl_sk s then am_io (Nl_msg m (am_pid s)) s else s)"
  by (simp add: msg_if_asked_def sendnlmsg_def)

subsection \<open>What each activity does\<close>

text \<open>
  \<open>acc_kept\<close> is what no handler changes (the delay, the pins, the clock, the netlink client);
  \<open>acc_due\<close> the time at which the one active timer of the phase fires.
\<close>

definition acc_pin :: "acc_mod \<Rightarrow> int" where
  "acc_pin s = ar7100_gpio_in_val ACC_GPIO s"

definition acc_kept :: "acc_mod \<Rightarrow> acc_mod \<Rightarrow> bool" where
  "acc_kept s s' \<longleftrightarrow> am_total_time1 s' = am_total_time1 s \<and> am_jiffies s' = am_jiffies s
    \<and> am_regs s' AR9350_GPIO_IN = am_regs s AR9350_GPIO_IN \<and> am_msg_flag s' = am_msg_flag s \<and> am_nl_sk s' = am_nl_sk s"

fun acc_due :: "acc_phase \<Rightarrow> acc_mod \<Rightarrow> u32" where
  "acc_due Watching s = tl_expires (am_gcc_timer s)"
| "acc_due Delaying s = tl_expires (am_acc_timer s)"
| "acc_due Closing s = tl_expires (am_sig_timer s)"
| "acc_due _ s = am_jiffies s"

lemma acc_kept_pin: "acc_kept s s' \<Longrightarrow> acc_pin s' = acc_pin s"
  by (simp add: acc_kept_def acc_pin_def ar7100_gpio_in_val_def ar7100_reg_rd_def)

lemma acc_pin_upd [simp]: "ar7100_gpio_in_val ACC_GPIO (s\<lparr>am_gcc_timer := t\<rparr>) = acc_pin s"
  "ar7100_gpio_in_val ACC_GPIO (s\<lparr>am_acc_timer := t\<rparr>) = acc_pin s"
  by (simp_all add: acc_pin_def ar7100_gpio_in_val_def ar7100_reg_rd_def)

lemma acc_pin_cases: "acc_pin s = 0 \<or> acc_pin s = 1"
  by (simp add: acc_pin_def ar7100_gpio_in_val_def)

lemma led_regs:
  "am_regs (turn_on_pwr_led s) AR9350_GPIO_IN = am_regs s AR9350_GPIO_IN"
  "am_regs (turn_off_pwr_led s) AR9350_GPIO_IN = am_regs s AR9350_GPIO_IN"
  by (simp_all add: gpio_defs AR9350_GPIO_IN_def AR9350_GPIO_OUT_def AR9350_GPIO_OE_def)

lemma run_gcc_off:
  assumes "acc_in Watching s" "acc_pin s = 1"
  shows "\<exists>s'. run_gcc skb s = Ret s' \<and> acc_kept s s'
    \<and> (if am_flag1 s = 2 then acc_in Switching s'
       else acc_in Watching s' \<and> am_flag1 s' = am_flag1 s + 1 \<and> acc_due Watching s' = am_jiffies s + 100)"
  using assms
  by (auto simp: acc_active_def run_gcc_def check_acc_stage1_def Let_def timer_defs am_io_def down_trylock_def
      acc_kept_def after_s_def gcc_time_def ACC_TIMER_def)

lemma run_gcc_on:
  assumes "acc_in Watching s" "acc_pin s \<noteq> 1"
  shows "\<exists>s'. run_gcc skb s = Ret s' \<and> acc_kept s s' \<and> acc_in Watching s' \<and> am_flag1 s' = 0
     \<and> acc_due Watching s' = am_jiffies s + 100"
  using assms
  by (auto simp: acc_active_def run_gcc_def check_acc_stage1_def Let_def timer_defs am_io_def
      acc_kept_def after_s_def gcc_time_def ACC_TIMER_def)

lemma run_tasklet_starts:
  assumes "acc_in Switching s" "run_tasklet skb s = Ret s'"
  shows "acc_in Delaying s' \<and> acc_kept s s' \<and> am_total_time s' = 1 \<and> acc_due Delaying s' = am_jiffies s + 100"
proof -
  obtain f where f: "turn_off_pwr_led (s\<lparr>am_tasklet := False, am_flag := 1\<rparr>) = s\<lparr>am_tasklet := False, am_flag := 1, am_regs := f\<rparr>"
    using led_only_regs(2) [of "s\<lparr>am_tasklet := False, am_flag := 1\<rparr>"] by auto
  have r: "f AR9350_GPIO_IN = am_regs s AR9350_GPIO_IN"
    using led_regs(2) [of "s\<lparr>am_tasklet := False, am_flag := 1\<rparr>"] by (simp add: f)
  show ?thesis
    using assms
    by (auto simp: f r run_tasklet_def tasklet_action_def Let_def obind_eq_Ret acc_active_def timer_defs am_io_def acc_kept_def
        after_s_def acc_time_def ACC_TIMER_def elim!: msg_if_asked_cases)
qed

lemma run_acc_on:
  assumes "acc_in Delaying s" "acc_pin s \<noteq> 1" "run_acc skb s = Ret s'"
  shows "acc_in Watching s' \<and> acc_kept s s' \<and> am_flag1 s' = 0 \<and> acc_due Watching s' = am_jiffies s + 100"
proof -
  let ?s = "s\<lparr>am_acc_timer := del_timer (am_acc_timer s), am_trace := Pin_read (acc_pin s) # am_trace s, am_sem := am_sem s + 1, am_flag := 0\<rparr>"
  obtain f where f: "turn_on_pwr_led ?s = ?s\<lparr>am_regs := f\<rparr>"
    using led_only_regs(1) [of ?s] by blast
  have r: "f AR9350_GPIO_IN = am_regs s AR9350_GPIO_IN"
    using led_regs(1) [of ?s] by (simp add: f)
  obtain s1 where "msg_if_asked skb ''acc on'' (?s\<lparr>am_regs := f\<rparr>) = Ret s1"
    and "add_gcc_timer gcc_time (am_io Send_SIGIO s1) = Ret s'"
    using assms unfolding f [symmetric] by (auto simp: run_acc_def check_acc_stage2_def Let_def obind_eq_Ret am_io_def up_def)
  then show ?thesis
    using assms(1,2)
    by (elim msg_if_asked_cases) (auto simp: r acc_active_def timer_defs am_io_def acc_kept_def after_s_def gcc_time_def ACC_TIMER_def)
qed

lemma run_acc_off:
  assumes "acc_in Delaying s" "acc_pin s = 1" "run_acc skb s = Ret s'"
  shows "acc_kept s s' \<and> (if am_total_time1 s \<le> am_total_time s
      then acc_in Closing s' \<and> am_delay_flag s' = 0 \<and> acc_due Closing s' = am_jiffies s + 1000
        \<and> 3 + max 1 (am_total_time1 s') \<le> int (off_run (am_trace s'))
      else acc_in Delaying s' \<and> am_total_time s' = am_total_time s + 1 \<and> acc_due Delaying s' = am_jiffies s + 100)"
  using assms
  by (auto simp: run_acc_def check_acc_stage2_def up_def Let_def obind_eq_Ret acc_active_def timer_defs am_io_def acc_kept_def
      after_s_def acc_time_def ACC_TIMER_def DELAY_AFTER_OFF_def elim!: msg_if_asked_cases)

lemma run_sig_closes:
  assumes "acc_in Closing s" "run_sig skb s = Ret s'"
  shows "if am_delay_flag s = 5 then acc_in Stopped s'
    else acc_kept s s' \<and> acc_in Closing s' \<and> am_delay_flag s' = am_delay_flag s + 1 \<and> acc_due Closing s' = am_jiffies s + 1000"
  using assms
  by (auto simp: run_sig_def ap_shutdown_def Let_def obind_eq_Ret acc_active_def timer_defs am_io_def acc_kept_def kernel_restart_def
      after_s_def ACC_TIMER_def DELAY_AFTER_OFF_def elim!: msg_if_asked_cases)

text \<open>With a socket buffer for every message, no handler runs into a kernel bug.\<close>

lemma run_handlers_return:
  assumes "\<forall>n. skb n"
  shows "acc_in Switching s \<Longrightarrow> \<exists>s'. run_tasklet skb s = Ret s'"
    and "acc_in Delaying s \<Longrightarrow> \<exists>s'. run_acc skb s = Ret s'"
    and "acc_in Closing s \<Longrightarrow> \<exists>s'. run_sig skb s = Ret s'"
proof -
  show "acc_in Switching s \<Longrightarrow> \<exists>s'. run_tasklet skb s = Ret s'"
    by (simp add: run_tasklet_def tasklet_action_def msg_if_asked_Ret [OF assms] Let_def timer_defs am_io_def)
  show "acc_in Closing s \<Longrightarrow> \<exists>s'. run_sig skb s = Ret s'"
    by (simp add: run_sig_def ap_shutdown_def msg_if_asked_Ret [OF assms] Let_def timer_defs)
  assume s: "acc_in Delaying s"
  show "\<exists>s'. run_acc skb s = Ret s'"
    using s by (auto simp: run_acc_def check_acc_stage2_def led_gcc_timer msg_if_asked_Ret [OF assms] Let_def timer_defs am_io_def up_def acc_active_def)
qed

subsection \<open>The module implements the phases\<close>

inductive phase_step :: "acc_phase \<Rightarrow> acc_phase \<Rightarrow> bool" where
  stay: "phase_step p p"
| ignition_off: "phase_step Watching Switching"
| delay: "phase_step Switching Delaying"
| ignition_on: "phase_step Delaying Watching"
| delay_over: "phase_step Delaying Closing"
| restart: "phase_step Closing Stopped"

inductive_simps phase_step_simps: "phase_step p q"

lemma acc_init_loads:
  "\<exists>s. acc_init sock (acc_globals j regs) = Ret (0, s) \<and> acc_in Watching s \<and> am_flag1 s = 0 \<and> am_total_time1 s = 60 \<and> am_flag s = 0
    \<and> am_jiffies s = j \<and> tl_expires (am_gcc_timer s) = j + 100 \<and> am_regs s AR9350_GPIO_IN = regs AR9350_GPIO_IN \<and> am_is_open s = 0"
proof -
  let ?g = "(acc_globals j regs)\<lparr>am_sem := 1\<rparr>"
  obtain f where f: "ar7100_gpio_config_input ACC_GPIO (ar7100_gpio_out_val SHUT_GPIO 0 (ar7100_gpio_config_output SHUT_GPIO ?g)) = ?g\<lparr>am_regs := f\<rparr>"
    and r: "f AR9350_GPIO_IN = regs AR9350_GPIO_IN"
    by (simp add: gpio_defs AR9350_GPIO_IN_def AR9350_GPIO_OUT_def AR9350_GPIO_OE_def acc_globals_def)
  show ?thesis
    unfolding acc_init_def Let_def f
    by (cases sock) (auto simp: r acc_gpio_timer_init_def timer_defs init_timer_def build_netlink_def acc_globals_def
        acc_active_def ACC_DELAY_TIMER_def after_s_def gcc_time_def ACC_TIMER_def)
qed

lemma acc_happens_step:
  assumes "acc_in p s" and "acc_happens skb e s = Some (Ret s')"
  shows "\<exists>q. acc_in q s' \<and> phase_step p q
    \<and> (p = Delaying \<and> q = Closing \<longrightarrow> 3 + max 1 (am_total_time1 s') \<le> int (off_run (am_trace s')))"
proof (cases "e \<in> {Run_gcc, Run_acc, Run_sig, Run_tasklet}")
  case True
  then consider "p = Watching" "run_gcc skb s = Ret s'" | "p = Delaying" "run_acc skb s = Ret s'"
    | "p = Closing" "run_sig skb s = Ret s'" | "p = Switching" "run_tasklet skb s = Ret s'"
    using assms by (cases p) (auto simp: acc_active_def timer_due_def split: if_splits)
  then show ?thesis
  proof cases
    case 1
    then show ?thesis
      using assms(1) run_gcc_off [of s skb] run_gcc_on [of s skb] by (cases "acc_pin s = 1") (auto simp: phase_step_simps simp del: acc_in.simps split: if_splits)
  next
    case 2
    then show ?thesis
      using assms(1) run_acc_off [of s skb s'] run_acc_on [of s skb s'] by (cases "acc_pin s = 1") (auto simp: phase_step_simps simp del: acc_in.simps split: if_splits)
  next
    case 3
    then show ?thesis
      using assms(1) run_sig_closes [of s skb s'] by (auto simp: phase_step_simps simp del: acc_in.simps split: if_splits)
  next
    case 4
    then show ?thesis
      using assms(1) run_tasklet_starts [of s skb s'] by (auto simp: phase_step_simps simp del: acc_in.simps)
  qed
next
  case False
  then have "acc_view s' = acc_view s"
    using assms(2) nl_data_ready_view acc_ioctl_view by (cases e) (auto simp: acc_open_def acc_close_def split: if_splits)
  then show ?thesis
    using assms(1) acc_in_view [of s' s p] stay by blast
qed

lemma acc_reachable_in: "acc_reachable skb s \<Longrightarrow> \<exists>p. acc_in p s"
proof (induction rule: acc_reachable.induct)
  case (loaded sock j regs r s)
  then show ?case
    using acc_init_loads [of sock j regs] by (auto simp del: acc_in.simps)
next
  case (happens s e s')
  then show ?case
    using acc_happens_step by blast
qed

text \<open>C12: the module refines the machine of five phases. Every reachable state is in exactly one phase, and so has exactly
  one of the three timers, the tasklet and the restarted machine active, and whatever happens next
  follows an edge of the machine of phases.\<close>

theorem acc_refines_phases:
  assumes "acc_reachable skb s" and "acc_happens skb e s = Some (Ret s')"
  shows "(\<exists>!p. acc_in p s) \<and> (\<exists>p q. acc_in p s \<and> acc_in q s' \<and> phase_step p q)"
  using acc_reachable_in [OF assms(1)] acc_happens_step [OF _ assms(2)] acc_in_unique by blast

theorem acc_refines_phases_witness:
  "\<exists>s s'. acc_reachable (\<lambda>_. True) s \<and> acc_happens (\<lambda>_. True) Tick s = Some (Ret s') \<and> (\<exists>!p. acc_in p s)"
proof -
  obtain s where s: "acc_reachable (\<lambda>_. True) s"
    using acc_init_loads [of True 0 "\<lambda>_. 0"] acc_reachable.loaded by blast
  then show ?thesis
    using acc_refines_phases [OF s, of Tick] by simp blast
qed

text \<open>The timers are used as they should be: if socket buffers can be allocated, then in every reachable state a due timer or the
  scheduled tasklet runs without adding a timer that is pending and without calling a function that is not set.
  The other events cannot fail in this model; what they do wrong in the kernel is said where they are defined.\<close>

theorem acc_timers_used_right:
  assumes "acc_reachable skb s" and "\<forall>n. skb n" and "acc_happens skb e s = Some r"
  shows "\<exists>s'. r = Ret s'"
proof -
  obtain p where p: "acc_in p s"
    using acc_reachable_in [OF assms(1)] by blast
  show ?thesis
  proof (cases "e \<in> {Run_gcc, Run_acc, Run_sig, Run_tasklet}")
    case True
    then consider "p = Watching" "r = run_gcc skb s" | "p = Delaying" "r = run_acc skb s"
      | "p = Closing" "r = run_sig skb s" | "p = Switching" "r = run_tasklet skb s"
      using assms(3) p by (cases p) (auto simp: acc_active_def timer_due_def split: if_splits)
    then show ?thesis
    proof cases
      case 1
      then show ?thesis
        using p run_gcc_off [of s skb] run_gcc_on [of s skb] by (cases "acc_pin s = 1") auto
    qed (use p run_handlers_return [OF assms(2), of s] in \<open>simp_all del: acc_in.simps\<close>)
  next
    case False
    then show ?thesis
      using assms(2,3) by (cases e) (auto simp: nl_data_ready_def sendnlmsg_def)
  qed
qed

text \<open>C27: when the module announces the end of the delay, it has read the pin high three times in a row and then, without
  a low reading in between, as many more times as the configured delay has seconds (once, for a delay below one).\<close>

theorem acc_shutdown_needs_ignition_off:
  assumes "acc_reachable skb s" and "acc_happens skb e s = Some (Ret s')"
    and "\<not> tl_pending (am_sig_timer s)" and "tl_pending (am_sig_timer s')"
  shows "3 + max 1 (am_total_time1 s') \<le> int (off_run (am_trace s'))"
proof -
  obtain p q where pq: "acc_in p s" "acc_in q s'" "phase_step p q"
    "p = Delaying \<and> q = Closing \<longrightarrow> 3 + max 1 (am_total_time1 s') \<le> int (off_run (am_trace s'))"
    using acc_reachable_in [OF assms(1)] acc_happens_step [OF _ assms(2)] by blast
  then have "q = Closing" "p \<noteq> Closing"
    using assms(3,4) by (cases q; cases p; simp add: acc_active_def)+
  then show ?thesis
    using pq(3,4) by (auto simp: phase_step_simps)
qed

subsection \<open>The machine restarts in time\<close>

lemma time_after_eq_near: "d \<le> 1000 \<Longrightarrow> time_after_eq j (j + of_nat d) \<longleftrightarrow> d = 0"
proof -
  assume "d \<le> 1000"
  have "j - (j + of_nat d) = word_of_int (- int d)"
    by (simp add: word_of_int_minus)
  then have "sint (j - (j + of_nat d)) = - int d"
    using \<open>d \<le> 1000\<close> by (simp only: sint_sbintrunc') (simp add: signed_take_bit_int_eq_self)
  then show ?thesis
    by (simp add: time_after_eq_def)
qed

fun acc_waits :: "acc_phase \<Rightarrow> nat \<Rightarrow> acc_mod \<Rightarrow> bool" where
  "acc_waits p k s \<longleftrightarrow> acc_in p s \<and> p \<in> {Watching, Delaying, Closing} \<and> acc_due p s = am_jiffies s + of_nat k \<and> k \<le> 1000"

lemma acc_waits_due:
  assumes "acc_waits p k s"
  shows "timer_due s (am_gcc_timer s) \<longleftrightarrow> p = Watching \<and> k = 0" "timer_due s (am_acc_timer s) \<longleftrightarrow> p = Delaying \<and> k = 0"
    "timer_due s (am_sig_timer s) \<longleftrightarrow> p = Closing \<and> k = 0" "\<not> am_tasklet s" "\<not> am_down s"
  using assms time_after_eq_near [of k "am_jiffies s"] by (auto simp: acc_active_def timer_due_def)

lemma acc_waits_tick: "acc_waits p (Suc k) s \<Longrightarrow> acc_waits p k (s\<lparr>am_jiffies := am_jiffies s + 1\<rparr>)"
  by (cases p) (auto simp: acc_active_def)

lemma acc_tick_idle: "acc_waits p (Suc (Suc k)) s \<Longrightarrow> acc_tick skb s = Ret (s\<lparr>am_jiffies := am_jiffies s + 1\<rparr>)"
  using acc_waits_due [OF acc_waits_tick [of p "Suc k" s]] acc_waits_due(5) [of p "Suc (Suc k)" s]
  by (simp add: acc_tick_def if_due_def del: acc_waits.simps)

lemma acc_ticks_idle:
  "acc_waits p (n + Suc k) s \<Longrightarrow> acc_ticks skb n s = Ret (s\<lparr>am_jiffies := am_jiffies s + of_nat n\<rparr>)
     \<and> acc_waits p (Suc k) (s\<lparr>am_jiffies := am_jiffies s + of_nat n\<rparr>)"
proof (induction n arbitrary: s)
  case (Suc n)
  then show ?case
    using Suc.IH [OF acc_waits_tick [of p "n + Suc k" s]] acc_tick_idle [of p "n + k" s skb]
    by (simp add: add.assoc del: acc_waits.simps)
qed simp

lemma acc_ticks_add: "acc_ticks skb (m + n) s = obind (acc_ticks skb m s) (acc_ticks skb n)"
proof (induction m arbitrary: s)
  case (Suc m)
  then show ?case
    by (cases "acc_tick skb s") simp_all
qed simp

text \<open>The tick at which the active timer fires.\<close>

fun acc_fire :: "(nat \<Rightarrow> bool) \<Rightarrow> acc_phase \<Rightarrow> acc_mod \<Rightarrow> acc_mod outcome" where
  "acc_fire skb Watching s = obind (run_gcc skb s) (if_due am_tasklet (run_tasklet skb))"
| "acc_fire skb Delaying s = run_acc skb s"
| "acc_fire skb Closing s = run_sig skb s"
| "acc_fire skb p s = Ret s"

lemma acc_tick_fire:
  assumes "acc_waits p 1 s"
  shows "acc_tick skb s = acc_fire skb p (s\<lparr>am_jiffies := am_jiffies s + 1\<rparr>)"
proof -
  let ?s = "s\<lparr>am_jiffies := am_jiffies s + 1\<rparr>"
  have w: "acc_waits p 0 ?s" and d: "\<not> am_down s"
    using acc_waits_tick [of p 0 s] acc_waits_due(5) [OF assms] assms by simp_all
  have p: "acc_in p ?s"
    using w by simp
  note due = acc_waits_due [OF w]
  have nd: "\<not> timer_due t (am_acc_timer t) \<and> \<not> timer_due t (am_sig_timer t)" if "acc_in Watching t \<or> acc_in Switching t" for t
    using that by (auto simp: acc_active_def timer_due_def)
  consider "p = Watching" | "p = Delaying" | "p = Closing"
    using w by auto
  then show ?thesis
  proof cases
    case 1
    obtain t where t: "run_gcc skb ?s = Ret t" "acc_in Watching t \<or> acc_in Switching t"
      using p 1 run_gcc_off [of ?s skb] run_gcc_on [of ?s skb] by (cases "acc_pin ?s = 1") (auto simp del: acc_in.simps split: if_splits)
    then show ?thesis
      using 1 d due nd [OF t(2)] by (simp add: acc_tick_def if_due_def)
  next
    case 2
    have "\<not> timer_due t (am_sig_timer t) \<and> \<not> am_tasklet t" if "run_acc skb ?s = Ret t" for t
    proof -
      have "acc_in Watching t \<or> acc_waits Delaying 100 t \<or> acc_waits Closing 1000 t"
        using that p 2 run_acc_off [of ?s skb t] run_acc_on [of ?s skb t]
        by (cases "acc_pin ?s = 1") (auto simp: acc_kept_def simp del: acc_in.simps split: if_splits)
      then show ?thesis
        using acc_waits_due [of Delaying 100 t] acc_waits_due [of Closing 1000 t] by (auto simp: acc_active_def timer_due_def simp del: acc_waits.simps)
    qed
    then show ?thesis
      using 2 d due by (cases "run_acc skb ?s") (auto simp: acc_tick_def if_due_def)
  next
    case 3
    have "\<not> am_tasklet t" if "run_sig skb ?s = Ret t" for t
      using that p 3 run_sig_closes [of ?s skb t] by (auto simp: acc_active_def split: if_splits)
    then show ?thesis
      using 3 d due by (cases "run_sig skb ?s") (auto simp: acc_tick_def if_due_def)
  qed
qed

lemma acc_ticks_fire:
  assumes "acc_waits p (Suc k) s"
  shows "acc_ticks skb (Suc k) s = acc_fire skb p (s\<lparr>am_jiffies := am_jiffies s + of_nat (Suc k)\<rparr>)"
proof -
  have i: "acc_ticks skb k s = Ret (s\<lparr>am_jiffies := am_jiffies s + of_nat k\<rparr>)" "acc_waits p 1 (s\<lparr>am_jiffies := am_jiffies s + of_nat k\<rparr>)"
    using acc_ticks_idle [of p k 0 s skb] assms by simp_all
  have "acc_ticks skb (k + 1) s = acc_tick skb (s\<lparr>am_jiffies := am_jiffies s + of_nat k\<rparr>)"
    unfolding acc_ticks_add i(1) by (cases "acc_tick skb (s\<lparr>am_jiffies := am_jiffies s + of_nat k\<rparr>)") simp_all
  then show ?thesis
    using acc_tick_fire [OF i(2)] by (simp add: add.assoc add.commute [of 1])
qed

text \<open>
  The three stretches of the way down while the pin stays high: the readings that notice it, the
  delay, the repeated announcements.
\<close>

lemma acc_waits_at:
  assumes "acc_waits p k s" "t = s\<lparr>am_jiffies := am_jiffies s + of_nat k\<rparr>"
  shows "acc_in p t" "acc_pin t = acc_pin s" "am_total_time1 t = am_total_time1 s" "am_flag1 t = am_flag1 s"
    "am_total_time t = am_total_time s" "am_delay_flag t = am_delay_flag s"
  using assms acc_in_view [of t s p] by (simp_all add: acc_pin_def ar7100_gpio_in_val_def ar7100_reg_rd_def)

lemma acc_ticks_chain: "acc_ticks skb m s = Ret t \<Longrightarrow> acc_ticks skb n t = r \<Longrightarrow> acc_ticks skb (m + n) s = r"
  by (simp add: acc_ticks_add)

lemma acc_watch_off:
  assumes skb: "\<forall>n. skb n"
  shows "acc_waits Watching (Suc k) s \<Longrightarrow> acc_pin s = 1 \<Longrightarrow> am_flag1 s = 2 - int i \<Longrightarrow>
    \<exists>t. acc_ticks skb (Suc k + i * 100) s = Ret t \<and> acc_waits Delaying 100 t \<and> acc_pin t = 1
      \<and> am_total_time t = 1 \<and> am_total_time1 t = am_total_time1 s"
proof (induction i arbitrary: k s)
  case 0
  define u where "u = s\<lparr>am_jiffies := am_jiffies s + of_nat (Suc k)\<rparr>"
  note u = acc_waits_at [OF 0(1) u_def]
  obtain v where v: "run_gcc skb u = Ret v" "acc_kept u v" "acc_in Switching v"
    using run_gcc_off [OF u(1), of skb] u 0 by auto
  obtain t where t: "run_tasklet skb v = Ret t"
    using run_handlers_return(1) [OF skb v(3)] by blast
  have "acc_in Delaying t \<and> acc_kept v t \<and> am_total_time t = 1 \<and> acc_due Delaying t = am_jiffies v + 100"
    by (rule run_tasklet_starts [OF v(3) t])
  moreover have "acc_ticks skb (Suc k) s = Ret t"
    unfolding acc_ticks_fire [OF 0(1)] u_def [symmetric] using v t by (simp add: if_due_def acc_active_def)
  ultimately show ?case
    using u 0 v(2) acc_kept_pin [of u v] acc_kept_pin [of v t] by (intro exI [of _ t]) (simp add: acc_kept_def)
next
  case (Suc i)
  define u where "u = s\<lparr>am_jiffies := am_jiffies s + of_nat (Suc k)\<rparr>"
  note u = acc_waits_at [OF Suc.prems(1) u_def]
  obtain v where v: "run_gcc skb u = Ret v" "acc_kept u v" "acc_in Watching v" "am_flag1 v = 2 - int i"
    "acc_due Watching v = am_jiffies u + 100"
    using run_gcc_off [OF u(1), of skb] u Suc.prems(2,3) by auto
  have "acc_ticks skb (Suc k) s = Ret v"
    unfolding acc_ticks_fire [OF Suc.prems(1)] u_def [symmetric] using v by (simp add: if_due_def acc_active_def)
  moreover have "acc_waits Watching (Suc 99) v" "acc_pin v = 1" "am_total_time1 v = am_total_time1 s"
    using v u Suc.prems(2) acc_kept_pin [OF v(2)] by (simp_all add: acc_kept_def)
  ultimately show ?case
    using Suc.IH [of 99 v] v(4) acc_ticks_chain [of skb "Suc k" s v "Suc 99 + i * 100"] by (auto simp: add.assoc simp del: acc_waits.simps)
qed

lemma acc_delay_off:
  assumes skb: "\<forall>n. skb n"
  shows "acc_waits Delaying 100 s \<Longrightarrow> acc_pin s = 1 \<Longrightarrow> nat (am_total_time1 s - am_total_time s) = i \<Longrightarrow>
    \<exists>t. acc_ticks skb (100 + i * 100) s = Ret t \<and> acc_waits Closing 1000 t \<and> am_delay_flag t = 0"
proof (induction i arbitrary: s)
  case (0 s)
  define u where "u = s\<lparr>am_jiffies := am_jiffies s + of_nat 100\<rparr>"
  note u = acc_waits_at [OF 0(1) u_def]
  obtain t where t: "run_acc skb u = Ret t"
    using run_handlers_return(2) [OF skb u(1)] by blast
  moreover have "acc_ticks skb (Suc 99) s = Ret t"
    using acc_ticks_fire [of Delaying 99 s skb] t 0(1) u_def by simp
  ultimately show ?case
    using run_acc_off [OF u(1) _ t] u 0 by (intro exI [of _ t]) (simp add: acc_kept_def)
next
  case (Suc i s)
  define u where "u = s\<lparr>am_jiffies := am_jiffies s + of_nat 100\<rparr>"
  note u = acc_waits_at [OF Suc.prems(1) u_def]
  obtain t where t: "run_acc skb u = Ret t"
    using run_handlers_return(2) [OF skb u(1)] by blast
  have "acc_ticks skb (Suc 99) s = Ret t"
    using acc_ticks_fire [of Delaying 99 s skb] t Suc.prems(1) u_def by simp
  moreover have k: "acc_kept u t" "acc_in Delaying t" "am_total_time t = am_total_time u + 1" "acc_due Delaying t = am_jiffies u + 100"
    using run_acc_off [OF u(1) _ t] u Suc.prems by (auto simp del: acc_in.simps split: if_splits)
  moreover have "acc_waits Delaying 100 t" "acc_pin t = 1" "nat (am_total_time1 t - am_total_time t) = i"
    using k u Suc.prems acc_kept_pin [OF k(1)] by (simp_all add: acc_kept_def)
  ultimately show ?case
    using Suc.IH [of t] acc_ticks_chain [of skb "Suc 99" s t "100 + i * 100"] by (auto simp: add.assoc simp del: acc_waits.simps)
qed

lemma acc_close_wait:
  assumes skb: "\<forall>n. skb n"
  shows "acc_waits Closing 1000 s \<Longrightarrow> am_delay_flag s = 5 - int i \<Longrightarrow>
    \<exists>t. acc_ticks skb (i * 1000) s = Ret t \<and> acc_waits Closing 1000 t \<and> am_delay_flag t = 5"
proof (induction i arbitrary: s)
  case (Suc i)
  define u where "u = s\<lparr>am_jiffies := am_jiffies s + of_nat 1000\<rparr>"
  note u = acc_waits_at [OF Suc.prems(1) u_def]
  obtain t where t: "run_sig skb u = Ret t"
    using run_handlers_return(3) [OF skb u(1)] by blast
  have "acc_ticks skb (Suc 999) s = Ret t"
    using acc_ticks_fire [of Closing 999 s skb] t Suc.prems(1) u_def by simp
  moreover have "acc_waits Closing 1000 t" "am_delay_flag t = 5 - int i"
    using run_sig_closes [OF u(1) t] u(6) Suc.prems(2) by (auto simp: acc_kept_def)
  ultimately show ?case
    using Suc.IH [of t] acc_ticks_chain [of skb "Suc 999" s t "i * 1000"] by (auto simp del: acc_waits.simps)
qed simp

lemma acc_down_stays: "am_down s \<Longrightarrow> acc_ticks skb n s = Ret s"
  by (induction n) (simp_all add: acc_tick_def)

text \<open>The last second: not down one tick before, down after it.\<close>

lemma acc_close_end:
  assumes "\<forall>n. skb n" "acc_waits Closing 1000 s" "am_delay_flag s = 5"
  shows "\<exists>t. acc_ticks skb 999 s = Ret t \<and> \<not> am_down t" "\<exists>t. acc_ticks skb 1000 s = Ret t \<and> am_down t"
proof -
  show "\<exists>t. acc_ticks skb 999 s = Ret t \<and> \<not> am_down t"
    using acc_ticks_idle [of Closing 999 0 s skb] assms(2) acc_waits_due(5) [OF assms(2)] by simp
  define u where "u = s\<lparr>am_jiffies := am_jiffies s + of_nat 1000\<rparr>"
  note u = acc_waits_at [OF assms(2) u_def]
  obtain t where t: "run_sig skb u = Ret t"
    using run_handlers_return(3) [OF assms(1) u(1)] by blast
  then have "acc_ticks skb (Suc 999) s = Ret t" "am_down t"
    using acc_ticks_fire [of Closing 999 s skb] assms u_def run_sig_closes [OF u(1) t] u(6) by (simp_all add: acc_active_def)
  then show "\<exists>t. acc_ticks skb 1000 s = Ret t \<and> am_down t"
    by (simp del: acc_ticks.simps)
qed

lemma acc_restart_tick:
  assumes "acc_in Watching s" and "am_flag1 s = 0" and "tl_expires (am_gcc_timer s) = am_jiffies s + 100"
    and "ar7100_gpio_in_val ACC_GPIO s = 1" and "\<forall>n. skb n"
  shows "\<exists>t. acc_ticks skb n s = Ret t \<and> (am_down t \<longleftrightarrow> 6300 + 100 * nat (max 1 (am_total_time1 s)) \<le> n)"
proof -
  define d where "d = nat (am_total_time1 s - 1)"
  have d: "nat (max 1 (am_total_time1 s)) = d + 1"
    by (simp add: d_def)
  obtain t1 where t1: "acc_ticks skb (Suc 99 + 2 * 100) s = Ret t1" "acc_waits Delaying 100 t1" "acc_pin t1 = 1"
      "am_total_time t1 = 1" "am_total_time1 t1 = am_total_time1 s"
    using acc_watch_off [OF assms(5), of 99 s 2] assms(1-4) by (auto simp: acc_pin_def simp del: acc_in.simps)
  obtain t2 where t2: "acc_ticks skb (100 + d * 100) t1 = Ret t2" "acc_waits Closing 1000 t2" "am_delay_flag t2 = 0"
    using acc_delay_off [OF assms(5) t1(2,3), of d] t1(4,5) by (auto simp: d_def simp del: acc_waits.simps)
  obtain t3 where t3: "acc_ticks skb (5 * 1000) t2 = Ret t3" "acc_waits Closing 1000 t3" "am_delay_flag t3 = 5"
    using acc_close_wait [OF assms(5) t2(2), of 5] t2(3) by (auto simp del: acc_waits.simps)
  obtain t4 t5 where t4: "acc_ticks skb 999 t3 = Ret t4" "\<not> am_down t4" and t5: "acc_ticks skb 1000 t3 = Ret t5" "am_down t5"
    using acc_close_end [OF assms(5) t3(2,3)] by blast
  note pre = acc_ticks_chain [OF t1(1) acc_ticks_chain [OF t2(1) acc_ticks_chain [OF t3(1)]]]
  have at: "acc_ticks skb (6399 + d * 100) s = Ret t4" "acc_ticks skb (6400 + d * 100) s = Ret t5"
    using pre [OF t4(1)] pre [OF t5(1)] by (simp_all add: ac_simps del: acc_ticks.simps)
  show ?thesis
  proof (cases "6400 + d * 100 \<le> n")
    case True
    then obtain m where "n = (6400 + d * 100) + m"
      using le_Suc_ex by blast
    then show ?thesis
      using acc_ticks_chain [OF at(2) acc_down_stays [OF t5(2)], of m] t5(2) True by (simp add: d)
  next
    case False
    then obtain m where m: "6399 + d * 100 = n + m"
      using le_Suc_ex [of n "6399 + d * 100"] by fastforce
    then obtain t where t: "acc_ticks skb n s = Ret t" "acc_ticks skb m t = Ret t4"
      using at(1) by (auto simp: acc_ticks_add obind_eq_Ret)
    then show ?thesis
      using acc_down_stays [of t skb m] t4(2) False by (auto simp: d)
  qed
qed

text \<open>What the clock drives is reachable.\<close>

lemma if_due_reachable:
  assumes "acc_reachable skb s" "if_due p f s = Ret t" "\<And>s. p s \<Longrightarrow> acc_happens skb e s = Some (f s)"
  shows "acc_reachable skb t"
  using assms(1,2) acc_reachable.happens [OF assms(1), of e t] assms(3) [of s] by (auto simp: if_due_def split: if_splits)

lemma acc_tick_reachable: "acc_reachable skb s \<Longrightarrow> acc_tick skb s = Ret t \<Longrightarrow> acc_reachable skb t"
proof (cases "am_down s")
  case False
  assume s: "acc_reachable skb s" and "acc_tick skb s = Ret t"
  then obtain s1 s2 s3 where g: "if_due (\<lambda>s. timer_due s (am_gcc_timer s)) (run_gcc skb) (s\<lparr>am_jiffies := am_jiffies s + 1\<rparr>) = Ret s1"
    and a: "if_due (\<lambda>s. timer_due s (am_acc_timer s)) (run_acc skb) s1 = Ret s2"
    and i: "if_due (\<lambda>s. timer_due s (am_sig_timer s)) (run_sig skb) s2 = Ret s3"
    and t: "if_due am_tasklet (run_tasklet skb) s3 = Ret t"
    using False by (auto simp: acc_tick_def obind_eq_Ret)
  have "acc_reachable skb (s\<lparr>am_jiffies := am_jiffies s + 1\<rparr>)"
    using acc_reachable.happens [OF s False, of Tick] by simp
  then have "acc_reachable skb s1"
    using if_due_reachable [OF _ g, of skb Run_gcc] by simp
  then have "acc_reachable skb s2"
    using if_due_reachable [OF _ a, of skb Run_acc] by simp
  then have "acc_reachable skb s3"
    using if_due_reachable [OF _ i, of skb Run_sig] by simp
  then show ?thesis
    using if_due_reachable [OF _ t, of skb Run_tasklet] by simp
qed (simp add: acc_tick_def)

lemma acc_ticks_reachable: "acc_reachable skb s \<Longrightarrow> acc_ticks skb n s = Ret t \<Longrightarrow> acc_reachable skb t"
  by (induction n arbitrary: s) (auto simp: obind_eq_Ret intro: acc_tick_reachable)

text \<open>C11: the machine restarts in time. When the ignition is off and stays off, a watching module with a full second to its
  next reading restarts the machine at a known tick and not before: two more seconds to notice, one second of delay
  for each configured one (one at least), and six announcements ten seconds apart.\<close>

theorem acc_restarts_on_time:
  assumes "acc_in Watching s" and "am_flag1 s = 0" and "tl_expires (am_gcc_timer s) = am_jiffies s + 100"
    and "ar7100_gpio_in_val ACC_GPIO s = 1" and "\<forall>n. skb n"
  shows "\<exists>t. acc_ticks skb n s = Ret t \<and> (am_down t \<longleftrightarrow> 6300 + 100 * nat (max 1 (am_total_time1 s)) \<le> n)"
  by (rule acc_restart_tick [OF assms])

theorem acc_restarts_on_time_witness:
  "\<exists>s t. acc_init True (acc_globals 0 (\<lambda>_. 0x20000)) = Ret (0, s) \<and> acc_ticks (\<lambda>_. True) 12300 s = Ret t \<and> am_down t"
proof -
  obtain s where "acc_init True (acc_globals 0 (\<lambda>_. 0x20000)) = Ret (0, s)" "acc_in Watching s" "am_flag1 s = 0" "am_total_time1 s = 60"
      "tl_expires (am_gcc_timer s) = am_jiffies s + 100" "ar7100_gpio_in_val ACC_GPIO s = 1"
    using acc_init_loads [of True 0 "\<lambda>_. 0x20000"] by (auto simp: ar7100_gpio_in_val_def ar7100_reg_rd_def gpio_bit_def ACC_GPIO_def simp del: acc_in.simps)
  then show ?thesis
    using acc_restarts_on_time [of s "\<lambda>_. True" 12300] by (auto simp del: acc_in.simps acc_ticks.simps)
qed

theorem acc_shutdown_needs_ignition_off_witness:
  "\<exists>s s'. acc_reachable (\<lambda>_. True) s \<and> acc_happens (\<lambda>_. True) Run_acc s = Some (Ret s')
    \<and> am_total_time1 s' = 1 \<and> 4 \<le> off_run (am_trace s')"
proof -
  let ?k = "\<lambda>_ :: nat. True"
  obtain s where s: "acc_init True (acc_globals 0 (\<lambda>_. 0x20000)) = Ret (0, s)" "acc_in Watching s" "am_flag1 s = 0" "am_flag s = 0"
      "tl_expires (am_gcc_timer s) = am_jiffies s + 100" "acc_pin s = 1"
    using acc_init_loads [of True 0 "\<lambda>_. 0x20000"]
    by (auto simp: acc_pin_def ar7100_gpio_in_val_def ar7100_reg_rd_def gpio_bit_def ACC_GPIO_def simp del: acc_in.simps)
  let ?e = "Ioctl SET_ACC_GPIO_TIMER (Some (no_args\<lparr>op_num := 1\<rparr>))"
  define s1 where "s1 = s\<lparr>am_args := no_args\<lparr>op_num := 1\<rparr>, am_total_time1 := 1\<rparr>"
  have "ioc_type SET_ACC_GPIO_TIMER = 10" "ioc_nr SET_ACC_GPIO_TIMER = 0"
    by code_simp+
  then have "acc_happens ?k ?e s = Some (Ret s1)"
    using s(4) by (simp add: acc_ioctl_def acc_copy_in_def s1_def)
  then have r1: "acc_reachable ?k s1"
    using acc_reachable.happens [OF acc_reachable.loaded [OF s(1)], of ?k ?e] s(2) by (simp add: acc_active_def)
  have "acc_waits Watching (Suc 99) s1" "acc_pin s1 = 1" "am_flag1 s1 = 2 - int 2"
    using s(2,3,5,6) acc_in_view [of s1 s Watching]
    by (simp_all add: s1_def acc_pin_def ar7100_gpio_in_val_def ar7100_reg_rd_def del: acc_in.simps)
  then obtain t where t: "acc_ticks ?k (Suc 99 + 2 * 100) s1 = Ret t" "acc_waits Delaying 100 t" "acc_pin t = 1" "am_total_time t = 1" "am_total_time1 t = 1"
    using acc_watch_off [of ?k 99 s1 2] by (auto simp: s1_def simp del: acc_waits.simps)
  define u where "u = t\<lparr>am_jiffies := am_jiffies t + of_nat 99\<rparr>"
  have "acc_reachable ?k u" "acc_waits Delaying 1 u"
    using acc_ticks_reachable [OF acc_ticks_reachable [OF r1 t(1)], of 99 u] acc_ticks_idle [of Delaying 99 0 t ?k] t(2) by (simp_all add: u_def)
  moreover define v where "v = u\<lparr>am_jiffies := am_jiffies u + 1\<rparr>"
  ultimately have v: "acc_reachable ?k v" "acc_waits Delaying 0 v"
    using acc_reachable.happens [of ?k u Tick v] acc_waits_tick [of Delaying 0 u] acc_waits_due(5) [of Delaying 1 u] by simp_all
  have "acc_pin v = 1" "am_total_time v = 1" "am_total_time1 v = 1" "acc_in Delaying v" and d: "acc_happens ?k Run_acc v = Some (run_acc ?k v)"
    using t(3-5) v(2) acc_waits_due(2) [OF v(2)] by (simp_all add: u_def v_def acc_pin_def ar7100_gpio_in_val_def ar7100_reg_rd_def del: acc_in.simps)
  then obtain w where "run_acc ?k v = Ret w" "acc_in Closing w" "am_total_time1 w = 1" "acc_in Delaying v"
    using run_handlers_return(2) [of ?k v] run_acc_off [of v ?k] by (auto simp: acc_kept_def simp del: acc_in.simps)
  then show ?thesis
    using acc_shutdown_needs_ignition_off [of ?k v Run_acc w] v(1) d by (intro exI [of _ v] exI [of _ w]) (simp add: acc_active_def)
qed

end
