(* ===== verification/Acc_Monitor.thy ===== *)
theory Acc_Monitor
  imports Acc_Mod
begin

text \<open>
  The user-space daemon of \<open>autelan_app/acc_utils/src/acc_monitor.c\<close>: it configures the delay of the
  kernel module over ioctl calls, follows the ignition through SIGIO, answers the bus object
  \<open>autelan.acc\<close>, and runs the shutdown scripts when the module's netlink messages arrive.

  Its state is one record with the module's state inside, so that an ioctl is the module's
  \<open>acc_ioctl\<close>. A bus message is what \<open>blobmsg_parse\<close> leaves of it: the delay and the list of
  controllers, if present; an array entry is \<open>None\<close> when it is not a valid string. Shell commands
  are recorded in the order they are started.
\<close>

subsection \<open>State\<close>

text \<open>\<open>mo_fd_acc\<close> tells whether \<open>fd_acc\<close> is a descriptor of the device; when \<open>open\<close> failed it is \<open>-1\<close>.\<close>

definition SWITCH_ON :: u32 where "SWITCH_ON = 0"
definition SWITCH_OFF :: u32 where "SWITCH_OFF = 1"
definition CTRL_MAX :: nat where "CTRL_MAX = 3"

datatype mon_cmd = System string | Sleep nat | Vcc_report

record acc_monitor =
  mo_timer :: u32
  mo_trigger :: u32
  mo_voltage :: int
  mo_controller :: "string option list"
  mo_controll_flag :: int
  mo_vcc_level :: int
  mo_vcc_interval :: u32
  mo_Timeaccoff :: string
  mo_cmds :: "mon_cmd list"
  mo_fd_acc :: bool
  mo_mod :: acc_mod

definition mo_run :: "mon_cmd \<Rightarrow> acc_monitor \<Rightarrow> acc_monitor" where
  "mo_run c m = m\<lparr>mo_cmds := mo_cmds m @ [c]\<rparr>"

definition default_config_init :: "acc_monitor \<Rightarrow> acc_monitor" where
  "default_config_init m = mo_run (System ''/bin/mv /root/acc_monitor.log /tmp/acc_monitor.log 2> /dev/null'')
     (m\<lparr>mo_timer := 60, mo_trigger := SWITCH_ON, mo_voltage := 0, mo_controller := replicate CTRL_MAX None,
        mo_vcc_interval := 10, mo_vcc_level := 0\<rparr>)"

subsection \<open>Calls into the module\<close>

text \<open>The caller's structure is valid memory, so the copies in the module succeed. Without the device the call fails and nothing is
  changed.\<close>

definition mo_ioctl :: "u32 \<Rightarrow> acc_op_args \<Rightarrow> acc_monitor \<Rightarrow> int \<times> acc_op_args \<times> acc_monitor" where
  "mo_ioctl cmd ops m =
     (if \<not> mo_fd_acc m then (-1, ops, m)
      else case acc_ioctl cmd (Some ops) (mo_mod m) of
        (r, out, a) \<Rightarrow> (r, (case out of None \<Rightarrow> ops | Some ops \<Rightarrow> ops), m\<lparr>mo_mod := a\<rparr>))"

definition gpio_set :: "acc_op_args \<Rightarrow> acc_monitor \<Rightarrow> int \<times> acc_monitor" where
  "gpio_set ops m = (case mo_ioctl SET_GPIO ops m of (r, ops, m) \<Rightarrow> (r, m))"

definition gpio_get :: "acc_op_args \<Rightarrow> acc_monitor \<Rightarrow> u32 \<times> acc_monitor" where
  "gpio_get ops m = (case mo_ioctl GET_GPIO ops m of (r, ops, m) \<Rightarrow> (op_status ops, m))"

definition set_acc_gpio_timer :: "acc_op_args \<Rightarrow> acc_monitor \<Rightarrow> int \<times> acc_monitor" where
  "set_acc_gpio_timer ops m = (case mo_ioctl SET_ACC_GPIO_TIMER ops m of (r, ops, m) \<Rightarrow> (r, m))"

text \<open>
  The handler of SIGIO; \<open>op_args\<close> is on the stack and only its \<open>num\<close> is set (\<open>junk\<close> is the rest),
  \<open>now\<close> the time string.
\<close>

definition signal_f :: "acc_op_args \<Rightarrow> string \<Rightarrow> acc_monitor \<Rightarrow> acc_monitor" where
  "signal_f junk now m =
     (let (switch_val, m) = gpio_get (junk\<lparr>op_num := word_of_int ACC_GPIO\<rparr>) m
      in if SWITCH_ON = switch_val \<or> SWITCH_OFF = switch_val
         then m\<lparr>mo_Timeaccoff := now, mo_trigger := switch_val\<rparr>
         else m\<lparr>mo_trigger := -1\<rparr>)"

subsection \<open>Controllers\<close>

definition set_controll_flag :: "string option \<Rightarrow> acc_monitor \<Rightarrow> acc_monitor" where
  "set_controll_flag str m = (case str of
      None \<Rightarrow> m
    | Some str \<Rightarrow>
        if str = ''none'' then m\<lparr>mo_controll_flag := 0\<rparr>
        else if str = ''sysupgrade'' then m\<lparr>mo_controll_flag := mo_controll_flag m OR 1\<rparr>
        else if str = ''download'' then m\<lparr>mo_controll_flag := mo_controll_flag m OR 2\<rparr>
        else m\<lparr>mo_controll_flag := mo_controll_flag m OR 4\<rparr>)"

text \<open>
  The loop of \<open>acc_create_func\<close> over the controllers. \<open>None\<close> is a fourth controller: it is stored
  past the end of \<open>acc.controller\<close>, into \<open>acc.configfile\<close>.
\<close>

fun create_controllers :: "string option list \<Rightarrow> nat \<Rightarrow> acc_monitor \<Rightarrow> acc_monitor option" where
  "create_controllers [] i m = Some m"
| "create_controllers (None # cs) i m = Some m"
| "create_controllers (Some c # cs) i m =
     (let m = (if 0 = i then m\<lparr>mo_controll_flag := 0\<rparr> else m);
          m = set_controll_flag (Some c) m
      in if c \<noteq> ''none'' then
           if i < CTRL_MAX then create_controllers cs (i + 1) (m\<lparr>mo_controller := (mo_controller m)[i := Some c]\<rparr>)
           else None
         else Some (m\<lparr>mo_controller := replicate CTRL_MAX None\<rparr>))"

record create_msg =
  cr_delaytime :: "u32 option"
  cr_controler :: "string option list option"

definition acc_create_func :: "acc_op_args \<Rightarrow> create_msg \<Rightarrow> acc_monitor \<Rightarrow> (int \<times> acc_monitor) option" where
  "acc_create_func junk msg m =
     (let rest = (\<lambda>m. case cr_controler msg of
            None \<Rightarrow> Some (0, m)
          | Some cs \<Rightarrow> map_option (Pair 0) (create_controllers cs 0 m))
      in case cr_delaytime msg of
           None \<Rightarrow> rest m
         | Some delay_time \<Rightarrow>
             if SWITCH_OFF \<noteq> mo_trigger m then
               if mo_timer m \<noteq> delay_time
               then rest (snd (set_acc_gpio_timer (junk\<lparr>op_num := delay_time\<rparr>) (m\<lparr>mo_timer := delay_time\<rparr>)))
               else rest m
             else Some (-1, m))"

subsection \<open>The bus object\<close>

definition acc_status :: "acc_monitor \<Rightarrow> u32 \<times> u32 \<times> string list" where
  "acc_status m = (mo_timer m, mo_trigger m, [c. Some c \<leftarrow> mo_controller m])"

definition config_init_acc :: "acc_op_args \<Rightarrow> (string \<times> create_msg) list \<Rightarrow> acc_monitor \<Rightarrow> acc_monitor option" where
  "config_init_acc junk sections m =
     fold (\<lambda>(type, msg) mo. if type = ''acc'' then Option.bind mo (\<lambda>m. map_option snd (acc_create_func junk msg m)) else mo)
       sections (Some m)"

text \<open>\<open>None\<close> as the package is a failed \<open>uci_load\<close>.\<close>

definition uci_monitor_init :: "acc_op_args \<Rightarrow> (string \<times> create_msg) list option \<Rightarrow> acc_monitor \<Rightarrow> acc_monitor option" where
  "uci_monitor_init junk package m = (case package of None \<Rightarrow> Some m | Some sections \<Rightarrow> config_init_acc junk sections m)"

definition acc_reload :: "acc_op_args \<Rightarrow> (string \<times> create_msg) list option \<Rightarrow> acc_monitor \<Rightarrow> (int \<times> acc_monitor) option" where
  "acc_reload junk package m =
     (if SWITCH_OFF \<noteq> mo_trigger m then map_option (Pair 0) (uci_monitor_init junk package m) else Some (-1, m))"

definition ubus_gpio_set :: "acc_op_args \<Rightarrow> u32 option \<Rightarrow> u32 option \<Rightarrow> acc_monitor \<Rightarrow> acc_monitor" where
  "ubus_gpio_set junk pin val m =
     (let ops = (case pin of None \<Rightarrow> junk | Some p \<Rightarrow> junk\<lparr>op_num := p\<rparr>);
          ops = (case val of None \<Rightarrow> ops | Some v \<Rightarrow> ops\<lparr>op_status := v\<rparr>)
      in snd (gpio_set ops m))"

definition ubus_gpio_get :: "acc_op_args \<Rightarrow> u32 option \<Rightarrow> acc_monitor \<Rightarrow> acc_monitor" where
  "ubus_gpio_get junk pin m = snd (gpio_get (case pin of None \<Rightarrow> junk | Some p \<Rightarrow> junk\<lparr>op_num := p\<rparr>) m)"

subsection \<open>Shutting down\<close>

definition acc_shutdown :: "acc_monitor \<Rightarrow> acc_monitor" where
  "acc_shutdown m =
     (let m = mo_run (Sleep 20) m
      in if SWITCH_OFF = mo_trigger m
         then mo_run (System ''/bin/echo 1 > /sys/devices/platform/leds-gpio/leds/db120:green:offdelay/brightness'') m
         else mo_run (System ''/sbin/reboot'') m)"

definition acc_poweroff :: "acc_monitor \<Rightarrow> acc_monitor" where
  "acc_poweroff m =
     mo_run (System ''echo 1 > /sys/devices/platform/leds-gpio/leds/db120:green:shutdown/brightness'')
       (mo_run (System ''echo 1 > /sys/devices/platform/leds-gpio/leds/db120:green:offdelay/brightness'')
         (mo_run (Sleep 20) m))"

text \<open>One round of the loop of \<open>netlink\<close>, for the received message.\<close>

definition netlink_round :: "string \<Rightarrow> acc_monitor \<Rightarrow> acc_monitor" where
  "netlink_round msg m =
     (if msg = ''acc off'' then mo_run (System ''/sbin/acc_off.sh >> /root/acc_monitor.log &'') m
      else if msg = ''acc on'' then mo_run (System ''/sbin/acc_on.sh >> /root/acc_monitor.log &'') m
      else if msg = ''delay off'' then
        let m = mo_run (System ''/sbin/time_off.sh >> /root/acc_monitor.log &'') m;
            m = (if 0 = mo_controll_flag m then mo_run (System ''/sbin/off_delay.sh >> /root/acc_monitor.log &'') m else m)
        in acc_shutdown m
      else m)"

text \<open>
  One round of \<open>vcc_monitor\<close>. \<open>raw\<close> is the number the voltage file prints, \<open>None\<close> when it prints
  nothing; \<open>below raw v\<close> stands for the floating-point comparison of the scaled number with \<open>v\<close> volts.
\<close>

definition vcc_round :: "(int \<Rightarrow> int \<Rightarrow> bool) \<Rightarrow> int option \<Rightarrow> acc_monitor \<Rightarrow> acc_monitor" where
  "vcc_round below raw m =
     (let m = (if SWITCH_OFF = mo_trigger m then
          (case raw of
            None \<Rightarrow> m
          | Some n \<Rightarrow>
              let m = m\<lparr>mo_voltage := n\<rparr>;
                  m = (if 0 = mo_vcc_level m then
                         m\<lparr>mo_vcc_level := (if below n 17 then 10 else 20)\<rparr>
                       else if below n (mo_vcc_level m)
                       then acc_poweroff (mo_run (System ''/sbin/power_off.sh'') (mo_run Vcc_report m))
                       else m)
              in mo_run Vcc_report m)
          else m)
      in mo_run (Sleep (unat (mo_vcc_interval m))) m)"

definition vcc_interval_opt :: "u32 \<Rightarrow> u32" where
  "vcc_interval_opt n = (if n < 5 \<or> 300 < n then 10 else n)"

subsection \<open>Start\<close>

text \<open>What it returns is not used, and is not defined when the device opens. The module lets one process in at a time.\<close>

definition acc_monitor_init :: "acc_monitor \<Rightarrow> acc_monitor" where
  "acc_monitor_init m = (case acc_open ACC_MINOR (mo_mod m) of (r, a) \<Rightarrow> m\<lparr>mo_fd_acc := (r = 0), mo_mod := a\<rparr>)"

text \<open>
  \<open>main\<close> up to the bus loop, for the values of its \<open>-t\<close> options; the result of opening the device is
  not looked at.
\<close>

definition acc_monitor_main :: "acc_op_args \<Rightarrow> u32 list \<Rightarrow> (string \<times> create_msg) list option \<Rightarrow> acc_monitor \<Rightarrow> acc_monitor option" where
  "acc_monitor_main junk topts package m =
     (let m = default_config_init m;
          m = fold (\<lambda>t m. m\<lparr>mo_vcc_interval := vcc_interval_opt t\<rparr>) topts m
      in uci_monitor_init junk package (acc_monitor_init m))"

subsection \<open>The client program\<close>

text \<open>
  \<open>acc_setget.c\<close> sends bus messages to the daemon. An attribute has a name and a typed value;
  \<open>parse_create\<close> is \<open>blobmsg_parse\<close> with \<open>create_policy\<close>, which takes an attribute only if it has the
  type the policy names.
\<close>

datatype blob_attr = Int32 u32 | Str string | Arr "string option list"

definition parse_create :: "(string \<times> blob_attr) list \<Rightarrow> create_msg" where
  "parse_create attrs = \<lparr>
     cr_delaytime = (case [t. (n, Int32 t) \<leftarrow> attrs, n = ''timer''] of [] \<Rightarrow> None | t # _ \<Rightarrow> Some t),
     cr_controler = (case [cs. (n, Arr cs) \<leftarrow> attrs, n = ''controller''] of [] \<Rightarrow> None | cs # _ \<Rightarrow> Some cs)\<rparr>"

definition setget_timer :: "u32 \<Rightarrow> (string \<times> blob_attr) list" where
  "setget_timer t = [(''timer'', Int32 t)]"

definition setget_controller :: "string option \<Rightarrow> (string \<times> blob_attr) list option" where
  "setget_controller controller = (case controller of None \<Rightarrow> None | Some c \<Rightarrow> Some [(''controller'', Str c)])"

text \<open>
  \<open>-t\<close> reaches the daemon as a delay; \<open>-c\<close> sends a string where the policy wants an array, so the
  daemon answers success and changes nothing.
\<close>

lemma setget_timer_parsed: "parse_create (setget_timer t) = \<lparr>cr_delaytime = Some t, cr_controler = None\<rparr>"
  by (simp add: parse_create_def setget_timer_def)

lemma setget_controller_ignored:
  "setget_controller (Some c) = Some attrs \<Longrightarrow> acc_create_func junk (parse_create attrs) m = Some (0, m)"
  by (auto simp: parse_create_def setget_controller_def acc_create_func_def)

subsection \<open>The configured delay reaches the module\<close>

lemma set_timer_ioctl: "ioc_type SET_ACC_GPIO_TIMER = 10" "ioc_nr SET_ACC_GPIO_TIMER = 0"
  by code_simp+

lemma get_gpio_ioctl: "ioc_type GET_GPIO = 10" "ioc_nr GET_GPIO = 3" "GET_GPIO \<noteq> SET_ACC_GPIO_TIMER"
    "GET_GPIO \<noteq> GET_ACC_GPIO_TIMER" "GET_GPIO \<noteq> SET_GPIO"
  by code_simp+

lemma set_acc_gpio_timer_mod:
  "am_flag (mo_mod m) = 0 \<Longrightarrow> mo_fd_acc m \<Longrightarrow> snd (set_acc_gpio_timer ops m)
     = m\<lparr>mo_mod := (mo_mod m)\<lparr>am_args := ops, am_total_time1 := sint (op_num ops)\<rparr>\<rparr>"
  "\<not> mo_fd_acc m \<Longrightarrow> snd (set_acc_gpio_timer ops m) = m"
  by (simp_all add: set_acc_gpio_timer_def mo_ioctl_def acc_ioctl_def set_timer_ioctl acc_copy_in_def)

lemma set_controll_flag_mod: "mo_mod (set_controll_flag c m) = mo_mod m"
  by (simp add: set_controll_flag_def split: option.split)

lemma create_controllers_mod: "create_controllers cs i m = Some m' \<Longrightarrow> mo_mod m' = mo_mod m"
  by (induction cs i m rule: create_controllers.induct) (auto simp: Let_def set_controll_flag_mod split: if_splits)

lemma acc_create_func_mod:
  assumes "acc_create_func junk msg m = Some (r, m')" and "cr_delaytime msg = Some d" and "SWITCH_OFF \<noteq> mo_trigger m"
    and "am_flag (mo_mod m) = 0"
  shows "mo_mod m' = (if mo_timer m = d \<or> \<not> mo_fd_acc m then mo_mod m
    else (mo_mod m)\<lparr>am_args := junk\<lparr>op_num := d\<rparr>, am_total_time1 := sint d\<rparr>)"
  using assms create_controllers_mod
  by (cases "mo_fd_acc m") (auto simp: acc_create_func_def Let_def set_acc_gpio_timer_mod split: if_splits option.splits)

text \<open>C26: the delay set over the bus is the delay that runs. After \<open>acc_create_func\<close> accepts a delay \<open>d\<close> while the module
  watches with a second to its next reading, and the ignition goes off and stays off, the module restarts the machine
  exactly \<open>d\<close> seconds (at least one) plus the fixed 63 later. In two cases the module keeps the delay it has although the daemon reports
  success: when the daemon believes \<open>d\<close> to be set already, and when it could not open the device at its start, which it ignores.\<close>

theorem acc_create_sets_restart:
  assumes "acc_create_func junk msg m = Some (r, m')" and "cr_delaytime msg = Some d" and "SWITCH_OFF \<noteq> mo_trigger m"
    and "acc_in Watching (mo_mod m)" and "am_flag (mo_mod m) = 0" and "am_flag1 (mo_mod m) = 0"
    and "tl_expires (am_gcc_timer (mo_mod m)) = am_jiffies (mo_mod m) + 100"
    and "ar7100_gpio_in_val ACC_GPIO (mo_mod m) = 1" and "\<forall>n. skb n"
  shows "\<exists>t. acc_ticks skb n (mo_mod m') = Ret t \<and> (am_down t \<longleftrightarrow>
    6300 + 100 * nat (max 1 (if mo_timer m = d \<or> \<not> mo_fd_acc m then am_total_time1 (mo_mod m) else sint d)) \<le> n)"
proof -
  note m' = acc_create_func_mod [OF assms(1-3,5)]
  have "acc_in Watching (mo_mod m')"
    using acc_in_view [of "mo_mod m'" "mo_mod m" Watching] assms(4) by (simp add: m' del: acc_in.simps)
  moreover have "ar7100_gpio_in_val ACC_GPIO (mo_mod m') = 1"
    using assms(8) by (simp add: m' ar7100_gpio_in_val_def ar7100_reg_rd_def split: if_splits)
  moreover have "am_total_time1 (mo_mod m') = (if mo_timer m = d \<or> \<not> mo_fd_acc m then am_total_time1 (mo_mod m) else sint d)"
    by (simp add: m')
  ultimately show ?thesis
    using acc_restart_tick [of "mo_mod m'" skb n] assms(6,7,9) by (simp add: m' del: acc_in.simps)
qed

definition sample_mon :: "acc_mod \<Rightarrow> acc_monitor" where
  "sample_mon a = acc_monitor_init (default_config_init \<lparr>mo_timer = 0, mo_trigger = 0, mo_voltage = 0, mo_controller = [], mo_controll_flag = 0,
     mo_vcc_level = 0, mo_vcc_interval = 0, mo_Timeaccoff = [], mo_cmds = [], mo_fd_acc = False, mo_mod = a\<rparr>)"

theorem acc_create_sets_restart_witness:
  "\<exists>a m' t. acc_init True (acc_globals 0 (\<lambda>_. 0x20000)) = Ret (0, a) \<and> mo_fd_acc (sample_mon a)
    \<and> acc_create_func no_args \<lparr>cr_delaytime = Some 300, cr_controler = None\<rparr> (sample_mon a) = Some (0, m')
    \<and> acc_ticks (\<lambda>_. True) 36299 (mo_mod m') = Ret t \<and> \<not> am_down t"
proof -
  let ?msg = "\<lparr>cr_delaytime = Some 300, cr_controler = None\<rparr>"
  obtain a where a: "acc_init True (acc_globals 0 (\<lambda>_. 0x20000)) = Ret (0, a)" "acc_in Watching a" "am_flag1 a = 0" "am_flag a = 0"
      "tl_expires (am_gcc_timer a) = am_jiffies a + 100" "ar7100_gpio_in_val ACC_GPIO a = 1" "am_is_open a = 0"
    using acc_init_loads [of True 0 "\<lambda>_. 0x20000"]
    by (auto simp: ar7100_gpio_in_val_def ar7100_reg_rd_def gpio_bit_def ACC_GPIO_def simp del: acc_in.simps)
  have m: "mo_mod (sample_mon a) = a\<lparr>am_is_open := 1\<rparr>" "mo_timer (sample_mon a) = 60" "SWITCH_OFF \<noteq> mo_trigger (sample_mon a)"
    "mo_fd_acc (sample_mon a)"
    using a(7) by (simp_all add: sample_mon_def acc_monitor_init_def acc_open_def default_config_init_def mo_run_def SWITCH_ON_def SWITCH_OFF_def)
  have a': "acc_in Watching (a\<lparr>am_is_open := 1\<rparr>)" "ar7100_gpio_in_val ACC_GPIO (a\<lparr>am_is_open := 1\<rparr>) = 1"
    using acc_in_view [of "a\<lparr>am_is_open := 1\<rparr>" a Watching] a(2,6)
    by (simp_all add: ar7100_gpio_in_val_def ar7100_reg_rd_def del: acc_in.simps split: if_splits)
  obtain m' where m': "acc_create_func no_args ?msg (sample_mon a) = Some (0, m')"
    using m by (simp add: acc_create_func_def Let_def)
  have "max 1 (if mo_timer (sample_mon a) = (300 :: u32) \<or> \<not> mo_fd_acc (sample_mon a) then am_total_time1 (mo_mod (sample_mon a)) else sint (300 :: u32)) = 300"
    using m(2,4) by simp
  then obtain t where "acc_ticks (\<lambda>_. True) 36299 (mo_mod m') = Ret t" "am_down t \<longleftrightarrow> 6300 + 100 * nat 300 \<le> (36299 :: nat)"
    using acc_create_sets_restart [OF m' _ m(3), of 300 "\<lambda>_. True" 36299] m(1) a a' by (auto simp del: acc_in.simps acc_ticks.simps)
  then show ?thesis
    using a(1) m' m(4) by auto
qed

text \<open>The daemon has room for three controllers.\<close>

lemma create_controllers_overflow:
  "i \<le> CTRL_MAX \<Longrightarrow> create_controllers cs i m = None
     \<longleftrightarrow> CTRL_MAX < i + length (takeWhile (\<lambda>c. c \<noteq> None \<and> c \<noteq> Some ''none'') cs)"
  by (induction cs i m rule: create_controllers.induct) (simp_all add: Let_def)

text \<open>SIGIO tells the daemon what the module saw: with the device open, the trigger is the pin.\<close>

lemma signal_f_trigger: "mo_fd_acc m \<Longrightarrow> mo_trigger (signal_f junk now m) = (if acc_pin (mo_mod m) = 1 then SWITCH_OFF else SWITCH_ON)"
proof -
  assume "mo_fd_acc m"
  moreover have "sint (word_of_int ACC_GPIO :: u32) = ACC_GPIO"
    by (simp add: ACC_GPIO_def)
  ultimately show ?thesis
    using acc_pin_cases [of "mo_mod m"]
    by (auto simp: signal_f_def gpio_get_def mo_ioctl_def acc_ioctl_def get_gpio_ioctl acc_copy_in_def Let_def
        SWITCH_ON_def SWITCH_OFF_def acc_pin_def ar7100_gpio_in_val_def ar7100_reg_rd_def split: prod.split)
qed

end
