(* ===== verification/Rgps.thy ===== *)
theory Rgps
  imports Os_Cmd Os_Libc "HOL-Library.Monad_Syntax"
begin

text \<open>
  The position reporter \<open>rgps\<close>: it cuts what the receiver sends into lines, picks the fields of the NMEA sentences
  GPGGA and GPRMC out of them, and reports the position. The parser is one loop over the characters with a
  segment number and a byte counter, both of eight bits; a write outside one of its arrays, or a read
  behind the end of the buffer, is \<open>None\<close>.
\<close>

section \<open>The parser\<close>

subsection \<open>State\<close>

record gps_struct =
  east_west :: u8
  north_south :: u8
  gps_Lng :: "u8 list"
  gps_Lat :: "u8 list"
  gps_Date :: "u8 list"
  gps_Time :: "u8 list"
  gps_Velocity :: "u8 list"
  gps_Orientation :: "u8 list"
  gps_Elevation :: "u8 list"
  gps_satellite :: int

record rgps_proc =
  rgps :: gps_struct
  flag_GPGGA :: int
  flag_GPRMC :: int
  Timereport :: "u8 list"

text \<open>The local variables of \<open>print_gpsinfo\<close> that it reads again; the arrays with their sizes.\<close>

record nmea =
  ReceivingF :: bool
  GPS_time :: "u8 list"
  GPS_wd :: "u8 list"
  GPS_jd :: "u8 list"
  GPS_status :: u8
  GPS_alt :: "u8 list"
  GPS_sv :: "u8 list"
  GPS_speed :: "u8 list"
  GPS_direction :: "u8 list"
  GPS_date :: "u8 list"
  GPS_warn :: u8
  Segment :: u8
  null_flag :: bool
  Bytes_counter :: u8
  Command :: nat

definition nmea_init :: nmea where
  "nmea_init = \<lparr>ReceivingF = False, GPS_time = replicate 9 0, GPS_wd = replicate 20 0, GPS_jd = replicate 12 0, GPS_status = 0,
     GPS_alt = replicate 8 0, GPS_sv = replicate 3 0, GPS_speed = replicate 6 0, GPS_direction = replicate 7 0,
     GPS_date = replicate 9 0, GPS_warn = 0, Segment = 0, null_flag = False, Bytes_counter = 0, Command = 0\<rparr>"

subsection \<open>Arrays and strings\<close>

definition put :: "u8 list \<Rightarrow> nat \<Rightarrow> u8 \<Rightarrow> u8 list option" where
  "put xs i v = (if i < length xs then Some (xs[i := v]) else None)"

text \<open>The string in an array; without a NUL, \<open>strlen\<close> runs out of it.\<close>

definition c_string :: "u8 list \<Rightarrow> u8 list option" where
  "c_string xs = (if 0 \<in> set xs then Some (takeWhile (\<lambda>b. b \<noteq> 0) xs) else None)"

text \<open>\<open>memset\<close> and \<open>memcpy\<close> of \<open>strlen\<close> bytes into a field of \<open>n\<close> bytes; \<open>sprintf\<close> needs one more for the NUL.\<close>

definition copy_field :: "nat \<Rightarrow> u8 list \<Rightarrow> u8 list option" where
  "copy_field n xs = do { s \<leftarrow> c_string xs; if length s \<le> n then Some s else None }"

definition fits_in :: "nat \<Rightarrow> u8 list \<Rightarrow> u8 list option" where
  "fits_in n s = (if length s < n then Some s else None)"

definition strtoul10 :: "u8 list \<Rightarrow> u32" where
  "strtoul10 s = (case scan_d s of
      None \<Rightarrow> 0
    | Some (n, _) \<Rightarrow> if 2 ^ 32 \<le> \<bar>n\<bar> then - 1 else word_of_int n)"

text \<open>\<open>strtok\<close> with the separator \<open>':'\<close>: the parts that are not empty.\<close>

fun strtok_colon :: "u8 list \<Rightarrow> u8 list \<Rightarrow> u8 list list" where
  "strtok_colon acc [] = (if acc = [] then [] else [rev acc])"
| "strtok_colon acc (ch # cs) =
     (if ch = 58 then (if acc = [] then strtok_colon [] cs else rev acc # strtok_colon [] cs) else strtok_colon (ch # acc) cs)"

definition print_int :: "int \<Rightarrow> u8 list" where
  "print_int n = (if n < 0 then 45 # print_dec (nat (- n)) else print_dec (nat n))"

definition print_02d :: "int \<Rightarrow> u8 list" where
  "print_02d n = (let s = print_int n in if length s < 2 then 48 # s else s)"

text \<open>\<open>print_timestr\<close>: local time is eight hours ahead. \<open>junk\<close> is what \<open>tm_int\<close> holds where no part was found.\<close>

definition print_timestr :: "(nat \<Rightarrow> u32) \<Rightarrow> u8 list \<Rightarrow> gps_struct \<Rightarrow> gps_struct option" where
  "print_timestr junk str g =
     (let tokens = strtok_colon [] str;
          tm_int = (\<lambda>i. if i < length tokens then strtoul10 (tokens ! i) else junk i);
          hour = tm_int 0 + 8;
          hour = (if hour > 24 then hour - 24 else hour)
      in do {
        s \<leftarrow> fits_in 30 (print_02d (sint hour) @ [58] @ print_02d (sint (tm_int 1)) @ [58] @ print_02d (sint (tm_int 2)));
        Some (g\<lparr>gps_Time := s\<rparr>) })"

subsection \<open>One character\<close>

definition seg0 :: "u8 \<Rightarrow> rgps_proc \<Rightarrow> nmea \<Rightarrow> nmea" where
  "seg0 ch p l =
     (if Bytes_counter l \<noteq> 3 then l
      else if ch = 71 then (if 1 = flag_GPGGA p then l\<lparr>Command := 0, ReceivingF := False\<rparr> else l\<lparr>Command := 1\<rparr>)
      else if ch = 77 then (if 1 = flag_GPRMC p then l\<lparr>Command := 0, ReceivingF := False\<rparr> else l\<lparr>Command := 2\<rparr>)
      else l\<lparr>Command := 0, ReceivingF := False\<rparr>)"

text \<open>A bounded copy: below \<open>n\<close>, the character and a NUL behind it.\<close>

definition put_str :: "nat \<Rightarrow> u8 list \<Rightarrow> u8 \<Rightarrow> u8 \<Rightarrow> u8 list option" where
  "put_str n xs i ch = (if unat i < n then do { xs \<leftarrow> put xs (unat i) ch; put xs (unat i + 1) 0 } else Some xs)"

definition seg1 :: "u8 \<Rightarrow> nmea \<Rightarrow> nmea option" where
  "seg1 ch l =
     (if Command l = 1 then do {
        l \<leftarrow> (if Bytes_counter l = 2 \<or> Bytes_counter l = 5
              then do {
                t \<leftarrow> put (GPS_time l) (unat (Bytes_counter l)) 58;
                Some (l\<lparr>GPS_time := t, Bytes_counter := Bytes_counter l + 1\<rparr>) }
              else Some l);
        l \<leftarrow> (if Bytes_counter l < 8
              then do { t \<leftarrow> put (GPS_time l) (unat (Bytes_counter l)) ch; Some (l\<lparr>GPS_time := t\<rparr>) }
              else Some l);
        if Bytes_counter l = 8
        then do { t \<leftarrow> put (GPS_time l) (unat (Bytes_counter l)) 0; Some (l\<lparr>GPS_time := t\<rparr>) }
        else Some l }
      else if Command l = 3 then do {
        d \<leftarrow> put_str 6 (GPS_direction l) (Bytes_counter l) ch;
        Some (l\<lparr>GPS_direction := d\<rparr>) }
      else Some l)"

definition seg2 :: "u8 list \<Rightarrow> nmea \<Rightarrow> (u8 list \<times> nmea) option" where
  "seg2 buf l = (case buf of [] \<Rightarrow> None | ch # rest \<Rightarrow>
     if Command l = 1 then
       if Bytes_counter l = 10 then do { w \<leftarrow> put (GPS_wd l) 10 0; Some (buf, l\<lparr>GPS_wd := w\<rparr>) }
       else do {
         l \<leftarrow> (if Bytes_counter l = 2
               then do { w \<leftarrow> put (GPS_wd l) 2 46; Some (l\<lparr>GPS_wd := w, Bytes_counter := Bytes_counter l + 1\<rparr>) }
               else Some l);
         if Bytes_counter l = 5
         then (case rest of [] \<Rightarrow> None | ch # _ \<Rightarrow> do { w \<leftarrow> put (GPS_wd l) 5 ch; Some (rest, l\<lparr>GPS_wd := w\<rparr>) })
         else do { w \<leftarrow> put (GPS_wd l) (unat (Bytes_counter l)) ch; Some (buf, l\<lparr>GPS_wd := w\<rparr>) } }
     else if Command l = 2 then
       Some (buf, if ch \<noteq> 65 then l\<lparr>GPS_warn := ch, Command := 0, ReceivingF := False\<rparr> else l\<lparr>GPS_warn := ch\<rparr>)
     else Some (buf, l))"

definition seg4 :: "u8 list \<Rightarrow> nmea \<Rightarrow> (u8 list \<times> nmea) option" where
  "seg4 buf l = (case buf of [] \<Rightarrow> None | ch # rest \<Rightarrow>
     if Command l = 1 then
       if Bytes_counter l = 11 then do { w \<leftarrow> put (GPS_jd l) 11 0; Some (buf, l\<lparr>GPS_jd := w\<rparr>) }
       else do {
         l \<leftarrow> (if Bytes_counter l = 3
               then do { w \<leftarrow> put (GPS_jd l) 3 46; Some (l\<lparr>GPS_jd := w, Bytes_counter := Bytes_counter l + 1\<rparr>) }
               else Some l);
         if Bytes_counter l = 6
         then (case rest of [] \<Rightarrow> None | ch # _ \<Rightarrow> do { w \<leftarrow> put (GPS_jd l) 6 ch; Some (rest, l\<lparr>GPS_jd := w\<rparr>) })
         else do { w \<leftarrow> put (GPS_jd l) (unat (Bytes_counter l)) ch; Some (buf, l\<lparr>GPS_jd := w\<rparr>) } }
     else if Command l = 3 then do {
       s \<leftarrow> put_str 5 (GPS_speed l) (Bytes_counter l) ch;
       Some (buf, l\<lparr>GPS_speed := s\<rparr>) }
     else Some (buf, l))"

definition seg6 :: "u8 \<Rightarrow> nmea \<Rightarrow> nmea" where
  "seg6 ch l =
     (if Command l = 1
      then (if 48 = ch then l\<lparr>GPS_status := ch, Command := 0, ReceivingF := False\<rparr> else l\<lparr>GPS_status := ch\<rparr>)
      else l)"

definition seg7 :: "u8 \<Rightarrow> nmea \<Rightarrow> nmea option" where
  "seg7 ch l =
     (if Command l = 1 then do {
        s \<leftarrow> (if Bytes_counter l < 2 then put (GPS_sv l) (unat (Bytes_counter l)) ch else Some (GPS_sv l));
        s \<leftarrow> put s 2 0;
        Some (l\<lparr>GPS_sv := s\<rparr>) }
      else if Command l = 2 then do {
        s \<leftarrow> put_str 5 (GPS_speed l) (Bytes_counter l) ch;
        Some (l\<lparr>GPS_speed := s\<rparr>) }
      else Some l)"

definition seg8 :: "u8 \<Rightarrow> nmea \<Rightarrow> nmea option" where
  "seg8 ch l =
     (if Command l = 2 then
        if ch = 44 then Some (l\<lparr>null_flag := True\<rparr>)
        else do { d \<leftarrow> put_str 6 (GPS_direction l) (Bytes_counter l) ch; Some (l\<lparr>GPS_direction := d\<rparr>) }
      else Some l)"

definition seg9 :: "u8 \<Rightarrow> nmea \<Rightarrow> nmea option" where
  "seg9 ch l =
     (let i = unat (Bytes_counter l) in
      if Command l = 1 then do { a \<leftarrow> put_str 7 (GPS_alt l) (Bytes_counter l) ch; Some (l\<lparr>GPS_alt := a\<rparr>) }
      else if Command l = 2 then do {
        d \<leftarrow> (if i < 2 then put (GPS_date l) (6 + i) ch else Some (GPS_date l));
        d \<leftarrow> (if 1 < i \<and> i < 4 then do { d \<leftarrow> put d (1 + i) ch; put d 5 45 } else Some d);
        d \<leftarrow> (if 3 < i \<and> i < 6 then do { d \<leftarrow> put d (i - 4) ch; d \<leftarrow> put d 2 45; put d 8 0 } else Some d);
        Some (l\<lparr>GPS_date := d\<rparr>) }
      else Some l)"

subsection \<open>The loop\<close>

text \<open>The \<open>switch\<close> over the segment. \<open>buf\<close> is what is left of the buffer from the current character on; segments 2 and 4 may
  skip one more.\<close>

definition nmea_switch :: "u8 list \<Rightarrow> rgps_proc \<Rightarrow> nmea \<Rightarrow> (u8 list \<times> rgps_proc \<times> nmea) option" where
  "nmea_switch buf p l = (case buf of [] \<Rightarrow> None | ch # _ \<Rightarrow>
     if Segment l = 0 then Some (buf, p, seg0 ch p l)
     else if Segment l = 1 then do { l \<leftarrow> seg1 ch l; Some (buf, p, l) }
     else if Segment l = 2 then do { (buf, l) \<leftarrow> seg2 buf l; Some (buf, p, l) }
     else if Segment l = 3 then Some (buf, if Command l = 1 then p\<lparr>rgps := (rgps p)\<lparr>north_south := ch\<rparr>\<rparr> else p, l)
     else if Segment l = 4 then do { (buf, l) \<leftarrow> seg4 buf l; Some (buf, p, l) }
     else if Segment l = 5 then Some (buf, if Command l = 1 then p\<lparr>rgps := (rgps p)\<lparr>east_west := ch\<rparr>\<rparr> else p, l)
     else if Segment l = 6 then Some (buf, p, seg6 ch l)
     else if Segment l = 7 then do { l \<leftarrow> seg7 ch l; Some (buf, p, l) }
     else if Segment l = 8 then do { l \<leftarrow> seg8 ch l; Some (buf, p, l) }
     else if Segment l = 9 then do { l \<leftarrow> seg9 ch l; Some (buf, p, l) }
     else Some (buf, p, l))"

definition nmea_next :: "nmea \<Rightarrow> nmea" where
  "nmea_next l = (if \<not> null_flag l then l\<lparr>Bytes_counter := Bytes_counter l + 1, null_flag := False\<rparr>
     else l\<lparr>Segment := Segment l + 1, null_flag := False\<rparr>)"

text \<open>At the \<open>'*'\<close>: what was collected is stored, if the sentence is one of the two and not yet seen in this round.\<close>

definition hemispheres :: "gps_struct \<Rightarrow> bool" where
  "hemispheres g \<longleftrightarrow> \<not> ((east_west g \<noteq> 69 \<and> east_west g \<noteq> 87) \<or> (north_south g \<noteq> 78 \<and> north_south g \<noteq> 83))"

definition store_gga :: "(nat \<Rightarrow> u32) \<Rightarrow> nmea \<Rightarrow> rgps_proc \<Rightarrow> rgps_proc option" where
  "store_gga junk l p = do {
     str \<leftarrow> c_string (GPS_time l);
     g \<leftarrow> print_timestr junk str (rgps p);
     sv \<leftarrow> c_string (GPS_sv l);
     lng \<leftarrow> copy_field 20 (GPS_jd l);
     lat \<leftarrow> copy_field 20 (GPS_wd l);
     alt \<leftarrow> copy_field 10 (GPS_alt l);
     let g = g\<lparr>gps_satellite := atoi sv, gps_Lng := lng, gps_Lat := lat, gps_Elevation := alt\<rparr>;
     Some (p\<lparr>rgps := g, flag_GPGGA := (if \<not> hemispheres g then 0 else 1)\<rparr>) }"

definition store_rmc :: "nmea \<Rightarrow> rgps_proc \<Rightarrow> rgps_proc option" where
  "store_rmc l p = do {
     v \<leftarrow> copy_field 10 (GPS_speed l);
     d \<leftarrow> c_string (GPS_date l);
     d \<leftarrow> fits_in 30 (asc ''20'' @ d);
     r \<leftarrow> copy_field 10 (GPS_direction l);
     Some (p\<lparr>rgps := (rgps p)\<lparr>gps_Velocity := v, gps_Date := d, gps_Orientation := r\<rparr>, flag_GPRMC := 1\<rparr>) }"

definition nmea_end :: "(nat \<Rightarrow> u32) \<Rightarrow> rgps_proc \<Rightarrow> nmea \<Rightarrow> rgps_proc option" where
  "nmea_end junk p l = do {
     p \<leftarrow> (if Command l = 1 \<and> flag_GPGGA p = 0 then store_gga junk l p else Some p);
     if Command l = 2 \<and> flag_GPRMC p = 0 then store_rmc l p else Some p }"

lemma seg2_length: "seg2 buf l = Some (buf', l') \<Longrightarrow> length buf' \<le> length buf"
  by (cases buf; cases "tl buf") (auto simp: seg2_def Option.bind_eq_Some_conv split: if_splits)

lemma seg4_length: "seg4 buf l = Some (buf', l') \<Longrightarrow> length buf' \<le> length buf"
  by (cases buf; cases "tl buf") (auto simp: seg4_def Option.bind_eq_Some_conv split: if_splits)

lemma nmea_switch_length: "nmea_switch buf p l = Some (buf', p', l') \<Longrightarrow> length buf' \<le> length buf"
  by (cases buf) (auto simp: nmea_switch_def Option.bind_eq_Some_conv split: if_splits prod.splits dest!: seg2_length seg4_length)

function nmea_loop :: "(nat \<Rightarrow> u32) \<Rightarrow> u8 list \<Rightarrow> rgps_proc \<Rightarrow> nmea \<Rightarrow> rgps_proc option" where
  "nmea_loop junk buf p l =
     (if \<not> ReceivingF l then Some p
      else (case buf of [] \<Rightarrow> None | ch # rest \<Rightarrow>
        if ch = 0 then Some p
        else
          let l1 = (if ch = 44 then l\<lparr>Segment := Segment l + 1, Bytes_counter := 0\<rparr> else l);
              buf1 = (if ch = 44 then rest else buf)
          in (case buf1 of [] \<Rightarrow> None | ch1 # _ \<Rightarrow>
               if ch1 = 42 then nmea_end junk p l1
               else (case nmea_switch buf1 p l1 of
                   None \<Rightarrow> None
                 | Some (buf2, p2, l2) \<Rightarrow> nmea_loop junk (tl buf2) p2 (nmea_next l2)))))"
  by pat_completeness auto
termination nmea_loop
proof (relation "measure (\<lambda>(junk, buf, p, l). length buf)")
  fix junk :: "nat \<Rightarrow> u32" and buf rest buf1 r :: "u8 list" and p p2 l l1 l2 buf2 ch ch1 and x y
  assume a: "buf = ch # rest" "buf1 = (if ch = 44 then rest else buf)" "buf1 = ch1 # r" "nmea_switch buf1 p l1 = Some x" "(buf2, y) = x" "(p2, l2) = y"
  then have "length buf2 \<le> length buf1" "length buf1 \<le> length buf" "buf1 \<noteq> []"
    using nmea_switch_length [of buf1 p l1 buf2 p2 l2] by (auto split: if_splits)
  then show "((junk, tl buf2, p2, nmea_next l2), (junk, buf, p, l)) \<in> measure (\<lambda>(junk, buf, p, l). length buf)"
    by (cases buf2) (auto simp: a(1))
qed simp

declare nmea_loop.simps [simp del]

definition print_gpsinfo :: "(nat \<Rightarrow> u32) \<Rightarrow> u8 list \<Rightarrow> rgps_proc \<Rightarrow> rgps_proc option" where
  "print_gpsinfo junk buf p = (case buf of [] \<Rightarrow> None | ch # rest \<Rightarrow>
     let buf = (if ch = 10 then rest else buf)
     in (case buf of [] \<Rightarrow> None | ch # rest \<Rightarrow>
          if ch = 36 then nmea_loop junk rest p (nmea_init\<lparr>ReceivingF := True\<rparr>) else Some p))"

subsection \<open>Reports\<close>

text \<open>What the program does to the outside: scripts it runs, lines it appends to the log, requests it sends.\<close>

datatype gps_event = System "u8 list" | Log "u8 list" | Request "u8 list" "u8 list"

record tm =
  tm_year :: int
  tm_mon :: int
  tm_mday :: int
  tm_hour :: int
  tm_min :: int
  tm_sec :: int

definition print_4d :: "int \<Rightarrow> u8 list" where
  "print_4d n = (let s = print_int n in replicate (4 - length s) 32 @ s)"

definition quoted :: "u8 list \<Rightarrow> u8 list" where
  "quoted s = [34] @ s @ [34]"

fun json_fields :: "(string \<times> u8 list) list \<Rightarrow> u8 list" where
  "json_fields [] = []"
| "json_fields ((k, v) # fs) = quoted (asc k) @ [58] @ quoted v @ (if fs = [] then [] else [44]) @ json_fields fs"

definition json :: "(string \<times> u8 list) list \<Rightarrow> u8 list" where
  "json fs = [123] @ json_fields fs @ [125]"

definition date_str :: "tm \<Rightarrow> u8 list" where
  "date_str t = print_4d (tm_year t + 1900) @ [45] @ print_02d (tm_mon t + 1) @ [45] @ print_02d (tm_mday t)"

definition time_str :: "tm \<Rightarrow> u8 list" where
  "time_str t = print_02d (tm_hour t) @ [58] @ print_02d (tm_min t) @ [58] @ print_02d (tm_sec t)"

text \<open>\<open>t\<close> is the local time, \<open>log\<close> whether there is a log file.\<close>

definition gps_report :: "tm \<Rightarrow> bool \<Rightarrow> u8 list option \<Rightarrow> int \<Rightarrow> rgps_proc \<Rightarrow> (int \<times> rgps_proc \<times> gps_event list) option" where
  "gps_report t log url status p =
     (let g = rgps p;
          status = (if \<not> hemispheres g then 0 else status)
      in do {
        (text, report, script) \<leftarrow>
          (if 0 = status then do {
             report \<leftarrow> fits_in 50 (
               if 10 = length (gps_Date g) \<and> 8 = length (gps_Time g) then gps_Date g @ [45] @ gps_Time g
               else if 8 = length (gps_Time g) then date_str t @ [45] @ gps_Time g
               else date_str t @ [45] @ time_str t);
             text \<leftarrow> fits_in 256 (json [(''status'', print_int status), (''latitude'', []), (''east_west'', []), (''date'', report),
               (''speed'', []), (''north_south'', []), (''longitude'', []), (''height'', [])]);
             Some (text, report, asc ''/sbin/gps_invalid.sh'') }
           else do {
             text \<leftarrow> fits_in 256 (json [(''status'', print_int status), (''latitude'', gps_Lat g), (''east_west'', [east_west g]),
               (''date'', gps_Date g @ [45] @ gps_Time g), (''speed'', gps_Velocity g), (''north_south'', [north_south g]),
               (''longitude'', gps_Lng g), (''height'', gps_Elevation g)]);
             report \<leftarrow> fits_in 50 (gps_Date g @ [45] @ gps_Time g);
             Some (text, report, asc ''/sbin/gps_valid.sh'') });
        Some (status, p\<lparr>Timereport := report\<rparr>,
          [System script] @ (if log then [Log text] else []) @ (case url of None \<Rightarrow> [] | Some u \<Rightarrow> [Request u text])) })"

text \<open>\<open>system\<close> sees the command up to its first NUL, which an unset hemisphere puts into it.\<close>

definition echo_cmd :: "u8 list \<Rightarrow> u8 list \<Rightarrow> string \<Rightarrow> gps_event option" where
  "echo_cmd logpath v file = do {
     s \<leftarrow> fits_in 256 (asc ''echo '' @ v @ asc '' > '' @ logpath @ [47] @ asc file);
     Some (System (takeWhile (\<lambda>b. b \<noteq> 0) s)) }"

definition gps_debug :: "u8 list \<Rightarrow> int \<Rightarrow> rgps_proc \<Rightarrow> gps_event list option" where
  "gps_debug logpath status p =
     (let g = rgps p in those
       [echo_cmd logpath (print_int status) ''status'', echo_cmd logpath [east_west g] ''east_west'',
        echo_cmd logpath [north_south g] ''north_south'', echo_cmd logpath (gps_Lat g) ''gps_Lat'',
        echo_cmd logpath (gps_Lng g) ''gps_Lng'', echo_cmd logpath (gps_Velocity g) ''gps_Velocity'',
        echo_cmd logpath (gps_Elevation g) ''gps_Elevation'', echo_cmd logpath (Timereport p) ''gps_time'',
        echo_cmd logpath (print_int (gps_satellite g)) ''gps_satellite''])"

subsection \<open>The main loop\<close>

definition RD_SIZE :: nat where "RD_SIZE = 1024"

definition at :: "u8 list \<Rightarrow> nat \<Rightarrow> u8 option" where
  "at xs i = (if i < length xs then Some (xs ! i) else None)"

text \<open>Cutting what was read into lines; \<open>buf1\<close> and \<open>j\<close> are the line so far.\<close>

fun rgps_lines :: "(nat \<Rightarrow> u32) \<Rightarrow> u8 list \<Rightarrow> nat \<Rightarrow> nat \<Rightarrow> u8 list \<Rightarrow> nat \<Rightarrow> rgps_proc \<Rightarrow> rgps_proc option" where
  "rgps_lines junk buf (Suc (Suc n)) i buf1 j p = do {
     ch \<leftarrow> at buf i;
     buf1 \<leftarrow> put buf1 j ch;
     ch \<leftarrow> at buf (i + 1);
     if ch = 10 then do {
       buf1 \<leftarrow> put buf1 (j + 1) 0;
       p \<leftarrow> print_gpsinfo junk buf1 p;
       rgps_lines junk buf (Suc n) (i + 2) (replicate RD_SIZE 0) 0 p }
     else rgps_lines junk buf (Suc n) (i + 1) buf1 (j + 1) p }"
| "rgps_lines junk buf _ i buf1 j p = Some p"

text \<open>One pass of the inner loop: the bytes \<open>read\<close> returned into the zeroed buffer, the seconds since the round began, the time.\<close>

record rgps_input =
  rd_data :: "u8 list"
  rd_elapsed :: int
  rd_now :: tm

definition rgps_read :: "(nat \<Rightarrow> u32) \<Rightarrow> u8 list \<Rightarrow> rgps_proc \<Rightarrow> rgps_proc option" where
  "rgps_read junk data p =
     (let d = take (RD_SIZE - 1) data
      in if d = [] then Some p
         else rgps_lines junk (d @ replicate (RD_SIZE - length d) 0) (length d) 0 (replicate RD_SIZE 0) 0 p)"

record rgps_conf =
  cf_log :: bool
  cf_url :: "u8 list option"
  cf_path :: "u8 list"

definition report_debug :: "rgps_conf \<Rightarrow> tm \<Rightarrow> int \<Rightarrow> rgps_proc \<Rightarrow> (rgps_proc \<times> gps_event list) option" where
  "report_debug cf t status p = do {
     (status, p, evs) \<leftarrow> gps_report t (cf_log cf) (cf_url cf) status p;
     dbg \<leftarrow> gps_debug (cf_path cf) status p;
     Some (p, evs @ dbg) }"

text \<open>The \<open>do\<close> loop over the passes given; the events tell what was reported, if the round came to an end.\<close>

fun rgps_passes :: "(nat \<Rightarrow> u32) \<Rightarrow> rgps_conf \<Rightarrow> rgps_input list \<Rightarrow> rgps_proc \<Rightarrow> (rgps_proc \<times> gps_event list) option" where
  "rgps_passes junk cf [] p = Some (p, [])"
| "rgps_passes junk cf (inp # inps) p = do {
     p \<leftarrow> rgps_read junk (rd_data inp) p;
     if rd_data inp \<noteq> [] \<and> 1 = flag_GPGGA p \<and> 1 = flag_GPRMC p then report_debug cf (rd_now inp) 1 p
     else if rd_elapsed inp > 3 then report_debug cf (rd_now inp) 0 p
     else if 1 \<noteq> flag_GPGGA p \<or> 1 \<noteq> flag_GPRMC p then rgps_passes junk cf inps p
     else Some (p, []) }"

definition rgps_round :: "(nat \<Rightarrow> u32) \<Rightarrow> rgps_conf \<Rightarrow> rgps_input list \<Rightarrow> rgps_proc \<Rightarrow> (rgps_proc \<times> gps_event list) option" where
  "rgps_round junk cf inps p = rgps_passes junk cf inps (p\<lparr>flag_GPGGA := 0, flag_GPRMC := 0\<rparr>)"

subsection \<open>Reading a sentence\<close>

definition plain :: "u8 \<Rightarrow> bool" where
  "plain ch \<longleftrightarrow> ch \<noteq> 0 \<and> ch \<noteq> 42 \<and> ch \<noteq> 44"

lemma loop_comma:
  "ReceivingF l \<Longrightarrow> y \<noteq> 0 \<Longrightarrow> y \<noteq> 44 \<Longrightarrow>
   nmea_loop junk (44 # y # r) p l = nmea_loop junk (y # r) p (l\<lparr>Segment := Segment l + 1, Bytes_counter := 0\<rparr>)"
  by (subst (1 2) nmea_loop.simps) simp

lemma loop_star: "ReceivingF l \<Longrightarrow> nmea_loop junk (42 # r) p l = nmea_end junk p l"
  by (subst nmea_loop.simps) simp

lemma loop_plain:
  "ReceivingF l \<Longrightarrow> plain ch \<Longrightarrow> nmea_loop junk (ch # r) p l =
     (case nmea_switch (ch # r) p l of None \<Rightarrow> None | Some (b, p', l') \<Rightarrow> nmea_loop junk (tl b) p' (nmea_next l'))"
  by (subst nmea_loop.simps) (simp add: plain_def)

lemma plain_codes [simp]: "plain 71" "plain 80" "plain 65" "plain 46" "plain 82" "plain 77" "plain 67"
  by (simp_all add: plain_def)

lemma header_gga:
  assumes "flag_GPGGA p = 0" "y \<noteq> 0" "y \<noteq> 44"
  shows "nmea_loop junk (71 # 80 # 71 # 71 # 65 # 44 # y # r) p (nmea_init\<lparr>ReceivingF := True\<rparr>)
    = nmea_loop junk (y # r) p (nmea_init\<lparr>ReceivingF := True, Segment := 1, Command := 1\<rparr>)"
  using assms by (simp add: loop_plain nmea_switch_def seg0_def nmea_next_def nmea_init_def loop_comma)


definition gga :: "u8 list \<Rightarrow> u8 list \<Rightarrow> u8 list \<Rightarrow> u8 \<Rightarrow> u8 list \<Rightarrow> u8 list \<Rightarrow> u8 \<Rightarrow> u8 \<Rightarrow> nmea" where
  "gga t w j st a v seg c = \<lparr>ReceivingF = True, GPS_time = t, GPS_wd = w, GPS_jd = j, GPS_status = st, GPS_alt = a, GPS_sv = v,
     GPS_speed = replicate 6 0, GPS_direction = replicate 7 0, GPS_date = replicate 9 0, GPS_warn = 0, Segment = seg,
     null_flag = False, Bytes_counter = c, Command = 1\<rparr>"

lemma gga_ReceivingF [simp]: "ReceivingF (gga t w j st a v seg c)"
  by (simp add: gga_def)

lemma gga_comma: "y \<noteq> 0 \<Longrightarrow> y \<noteq> 44 \<Longrightarrow>
   nmea_loop junk (44 # y # r) p (gga t w j st a v seg c) = nmea_loop junk (y # r) p (gga t w j st a v (seg + 1) 0)"
  by (simp add: loop_comma) (simp add: gga_def)


lemmas gga_step_defs = loop_plain gga_def nmea_switch_def put_def nmea_next_def

lemma gga_time:
  "plain ch \<Longrightarrow> c \<notin> {2, 5, 8} \<Longrightarrow> unat c < 8 \<Longrightarrow> length t = 9 \<Longrightarrow>
   nmea_loop junk (ch # r) p (gga t w j st a v 1 c) = nmea_loop junk r p (gga (t[unat c := ch]) w j st a v 1 (c + 1))"
  "plain ch \<Longrightarrow> c = 2 \<or> c = 5 \<Longrightarrow> length t = 9 \<Longrightarrow>
   nmea_loop junk (ch # r) p (gga t w j st a v 1 c) = nmea_loop junk r p (gga (t[unat c := 58, unat c + 1 := ch]) w j st a v 1 (c + 2))"
  "plain ch \<Longrightarrow> 8 \<le> unat c \<Longrightarrow> length t = 9 \<Longrightarrow> t ! 8 = 0 \<Longrightarrow>
   nmea_loop junk (ch # r) p (gga t w j st a v 1 c) = nmea_loop junk r p (gga t w j st a v 1 (c + 1))"
proof -
  show "nmea_loop junk (ch # r) p (gga t w j st a v 1 c) = nmea_loop junk r p (gga (t[unat c := ch]) w j st a v 1 (c + 1))"
    if "plain ch" "c \<notin> {2, 5, 8}" "unat c < 8" "length t = 9"
    using that by (simp add: gga_step_defs seg1_def word_less_nat_alt)
  show "nmea_loop junk (ch # r) p (gga t w j st a v 1 c) = nmea_loop junk r p (gga (t[unat c := 58, unat c + 1 := ch]) w j st a v 1 (c + 2))"
    if "plain ch" "c = 2 \<or> c = 5" "length t = 9"
    using that by (auto simp: gga_step_defs seg1_def)
  show "nmea_loop junk (ch # r) p (gga t w j st a v 1 c) = nmea_loop junk r p (gga t w j st a v 1 (c + 1))"
    if "plain ch" "8 \<le> unat c" "length t = 9" "t ! 8 = 0"
  proof -
    have "t[8 := 0] = t" "c \<noteq> 2" "c \<noteq> 5"
      using list_update_id [of t 8] that by auto
    then show ?thesis
      using that by (simp add: gga_step_defs seg1_def word_less_nat_alt)
  qed
qed

lemma gga_wd:
  "plain ch \<Longrightarrow> c \<notin> {2, 5, 10} \<Longrightarrow> unat c < 20 \<Longrightarrow> length w = 20 \<Longrightarrow>
   nmea_loop junk (ch # r) p (gga t w j st a v 2 c) = nmea_loop junk r p (gga t (w[unat c := ch]) j st a v 2 (c + 1))"
  "plain ch \<Longrightarrow> length w = 20 \<Longrightarrow>
   nmea_loop junk (ch # r) p (gga t w j st a v 2 2) = nmea_loop junk r p (gga t (w[2 := 46, 3 := ch]) j st a v 2 4)"
  "plain x \<Longrightarrow> length w = 20 \<Longrightarrow>
   nmea_loop junk (x # ch # r) p (gga t w j st a v 2 5) = nmea_loop junk r p (gga t (w[5 := ch]) j st a v 2 6)"
  "plain ch \<Longrightarrow> length w = 20 \<Longrightarrow>
   nmea_loop junk (ch # r) p (gga t w j st a v 2 10) = nmea_loop junk r p (gga t (w[10 := 0]) j st a v 2 11)"
  by (simp_all add: gga_step_defs seg2_def)

lemma gga_jd:
  "plain ch \<Longrightarrow> c \<notin> {3, 6, 11} \<Longrightarrow> unat c < 12 \<Longrightarrow> length j = 12 \<Longrightarrow>
   nmea_loop junk (ch # r) p (gga t w j st a v 4 c) = nmea_loop junk r p (gga t w (j[unat c := ch]) st a v 4 (c + 1))"
  "plain ch \<Longrightarrow> length j = 12 \<Longrightarrow>
   nmea_loop junk (ch # r) p (gga t w j st a v 4 3) = nmea_loop junk r p (gga t w (j[3 := 46, 4 := ch]) st a v 4 5)"
  "plain x \<Longrightarrow> length j = 12 \<Longrightarrow>
   nmea_loop junk (x # ch # r) p (gga t w j st a v 4 6) = nmea_loop junk r p (gga t w (j[6 := ch]) st a v 4 7)"
  "plain ch \<Longrightarrow> length j = 12 \<Longrightarrow>
   nmea_loop junk (ch # r) p (gga t w j st a v 4 11) = nmea_loop junk r p (gga t w (j[11 := 0]) st a v 4 12)"
  "plain ch \<Longrightarrow> length j = 12 \<Longrightarrow> 12 \<le> unat c \<Longrightarrow> nmea_loop junk (ch # r) p (gga t w j st a v 4 c) = None"
  by (simp_all add: gga_step_defs seg4_def) (auto simp: gga_step_defs seg4_def)

lemma gga_one:
  "plain ch \<Longrightarrow> nmea_loop junk (ch # r) p (gga t w j st a v 3 c) = nmea_loop junk r (p\<lparr>rgps := (rgps p)\<lparr>north_south := ch\<rparr>\<rparr>) (gga t w j st a v 3 (c + 1))"
  "plain ch \<Longrightarrow> nmea_loop junk (ch # r) p (gga t w j st a v 5 c) = nmea_loop junk r (p\<lparr>rgps := (rgps p)\<lparr>east_west := ch\<rparr>\<rparr>) (gga t w j st a v 5 (c + 1))"
  "plain ch \<Longrightarrow> ch \<noteq> 48 \<Longrightarrow> nmea_loop junk (ch # r) p (gga t w j st a v 6 c) = nmea_loop junk r p (gga t w j ch a v 6 (c + 1))"
  "plain ch \<Longrightarrow> nmea_loop junk (ch # r) p (gga t w j st a v 6 c) = (if ch = 48 then Some p else nmea_loop junk r p (gga t w j ch a v 6 (c + 1)))"
  "plain ch \<Longrightarrow> length v = 3 \<Longrightarrow> nmea_loop junk (ch # r) p (gga t w j st a v 7 c)
    = nmea_loop junk r p (gga t w j st a ((if unat c < 2 then v[unat c := ch] else v)[2 := 0]) 7 (c + 1))"
  "plain ch \<Longrightarrow> nmea_loop junk (ch # r) p (gga t w j st a v 8 c) = nmea_loop junk r p (gga t w j st a v 8 (c + 1))"
  "plain ch \<Longrightarrow> length a = 8 \<Longrightarrow> nmea_loop junk (ch # r) p (gga t w j st a v 9 c)
    = nmea_loop junk r p (gga t w j st (if unat c < 7 then a[unat c := ch, unat c + 1 := 0] else a) v 9 (c + 1))"
  by (simp_all add: gga_step_defs seg6_def seg7_def seg8_def seg9_def put_str_def word_less_nat_alt) (simp add: nmea_loop.simps)

lemma unat_Suc8: "unat (c :: u8) + 1 < 256 \<Longrightarrow> unat (c + 1) = unat c + 1"
  by (simp add: unat_word_ariths)

lemma gga_field_time:
  assumes "\<forall>ch \<in> set ([h1, h2, m1, m2, s1, s2] @ f). plain ch" "length f < 200"
  shows "\<exists>k. nmea_loop junk ([h1, h2, m1, m2, s1, s2] @ f @ r) p (gga (replicate 9 0) w j st a v 1 0)
    = nmea_loop junk r p (gga [h1, h2, 58, m1, m2, 58, s1, s2, 0] w j st a v 1 k)"
proof -
  have ext: "\<exists>k. nmea_loop junk (f @ r) p (gga t w j st a v 1 c) = nmea_loop junk r p (gga t w j st a v 1 k)"
    if "8 \<le> unat c" "unat c + length f < 256" "length t = 9" "t ! 8 = 0" "\<forall>ch \<in> set f. plain ch" for c t f
    using that
  proof (induction f arbitrary: c)
    case (Cons x f)
    have "unat (c + 1) = unat c + 1"
      using Cons.prems(2) by (intro unat_Suc8) simp
    then show ?case
      using Cons.IH [of "c + 1"] Cons.prems gga_time(3) [of x c t junk "f @ r" p w j st a v] by auto
  qed auto
  have "nmea_loop junk ([h1, h2, m1, m2, s1, s2] @ f @ r) p (gga (replicate 9 0) w j st a v 1 0)
      = nmea_loop junk (f @ r) p (gga [h1, h2, 58, m1, m2, 58, s1, s2, 0] w j st a v 1 8)"
    using assms(1) by (simp add: gga_time) (simp add: numeral_nat)
  then show ?thesis
    using ext [of 8 f "[h1, h2, 58, m1, m2, 58, s1, s2, 0]"] assms by auto
qed


text \<open>Degrees and minutes: a dot is put behind the degrees and the one behind the minutes is left out; five decimals are kept.\<close>

lemma take_cases6:
  assumes "0 < length f" "length f \<le> 6"
  obtains a where "f = [a]" | a b where "f = [a, b]" | a b c where "f = [a, b, c]" | a b c d where "f = [a, b, c, d]"
  | a b c d e where "f = [a, b, c, d, e]" | a b c d e g where "f = [a, b, c, d, e, g]"
proof -
  have "length f = 1 \<or> length f = 2 \<or> length f = 3 \<or> length f = 4 \<or> length f = 5 \<or> length f = 6"
    using assms by linarith
  then show ?thesis
    using that by (auto simp: numeral_nat length_Suc_conv)
qed

lemma gga_field_wd:
  assumes "\<forall>ch \<in> set ([d1, d2, m1, m2] @ f). plain ch" "0 < length f" "length f \<le> 6"
  shows "\<exists>k. nmea_loop junk ([d1, d2, m1, m2, 46] @ f @ r) p (gga t (replicate 20 0) j st a v 2 0)
    = nmea_loop junk r p (gga t ([d1, d2, 46, m1, m2] @ take 5 f @ replicate (15 - min 5 (length f)) 0) j st a v 2 k)"
  using assms(1) by (cases rule: take_cases6 [OF assms(2,3)]; simp add: gga_wd) (force simp: numeral_nat)+

lemma gga_field_jd:
  assumes "\<forall>ch \<in> set ([d1, d2, d3, m1, m2] @ f). plain ch" "0 < length f" "length f \<le> 6"
  shows "\<exists>k. nmea_loop junk ([d1, d2, d3, m1, m2, 46] @ f @ r) p (gga t w (replicate 12 0) st a v 4 0)
    = nmea_loop junk r p (gga t w ([d1, d2, d3, 46, m1, m2] @ take 5 f @ replicate (6 - min 5 (length f)) 0) st a v 4 k)"
  using assms(1) by (cases rule: take_cases6 [OF assms(2,3)]; simp add: gga_jd) (force simp: numeral_nat)+

lemma gga_jd_full:
  assumes "\<forall>ch \<in> set ([d1, d2, d3, m1, m2] @ f). plain ch" "7 \<le> length f"
  shows "nmea_loop junk ([d1, d2, d3, m1, m2, 46] @ f @ r) p (gga t w (replicate 12 0) st a v 4 0) = None"
proof -
  have "\<exists>f1 f2 f3 f4 f5 f6 f7 g. f = f1 # f2 # f3 # f4 # f5 # f6 # f7 # g"
    using assms(2) by (auto simp: numeral_nat Suc_le_length_iff)
  then show ?thesis
    using assms(1) by (auto simp: gga_jd)
qed

lemma gga_field_sv:
  "plain x \<Longrightarrow> plain y \<Longrightarrow> nmea_loop junk (x # y # r) p (gga t w j st a (replicate 3 0) 7 0) = nmea_loop junk r p (gga t w j st a [x, y, 0] 7 2)"
  by (simp add: gga_one(5)) (simp add: numeral_nat)

lemma gga_field_hdop:
  "\<forall>ch \<in> set f. plain ch \<Longrightarrow> \<exists>k. nmea_loop junk (f @ r) p (gga t w j st a v 8 c) = nmea_loop junk r p (gga t w j st a v 8 k)"
  by (induction f arbitrary: c) (auto simp: gga_one(6))

lemma gga_field_alt:
  "\<forall>ch \<in> set f. plain ch \<Longrightarrow> length as + length f \<le> 7 \<Longrightarrow>
   \<exists>k. nmea_loop junk (f @ r) p (gga t w j st (as @ replicate (8 - length as) 0) v 9 (word_of_nat (length as)))
     = nmea_loop junk r p (gga t w j st ((as @ f) @ replicate (8 - length (as @ f)) 0) v 9 k)"
proof (induction f arbitrary: as)
  case (Cons x f)
  have c: "unat (word_of_nat (length as) :: u8) = length as"
    using Cons.prems(2) by (simp add: unat_of_nat)
  have "(as @ replicate (8 - length as) 0)[length as := x, length as + 1 := 0] = (as @ [x]) @ replicate (8 - length (as @ [x])) 0"
  proof -
    have "8 - length as = Suc (Suc (6 - length as))" "7 - length as = Suc (6 - length as)"
      using Cons.prems(2) by simp_all
    then show ?thesis
      by (simp add: list_update_append)
  qed
  then have "nmea_loop junk ((x # f) @ r) p (gga t w j st (as @ replicate (8 - length as) 0) v 9 (word_of_nat (length as)))
      = nmea_loop junk (f @ r) p (gga t w j st ((as @ [x]) @ replicate (8 - length (as @ [x])) 0) v 9 (word_of_nat (length (as @ [x]))))"
    using Cons.prems c by (simp add: gga_one(7) add.commute)
  then show ?case
    using Cons.IH [of "as @ [x]"] Cons.prems by simp
qed auto

lemma gga_ignored:
  assumes "10 \<le> unat seg"
  shows "plain ch \<Longrightarrow> nmea_loop junk (ch # r) p (gga t w j st a v seg c) = nmea_loop junk r p (gga t w j st a v seg (c + 1))"
    "nmea_loop junk (44 # 44 # r) p (gga t w j st a v (seg - 1) c) = nmea_loop junk r p (gga t w j st a v seg 1)"
proof -
  have ne: "seg \<notin> {0, 1, 2, 3, 4, 5, 6, 7, 8, 9}"
    using assms by auto
  then show "plain ch \<Longrightarrow> nmea_loop junk (ch # r) p (gga t w j st a v seg c) = nmea_loop junk r p (gga t w j st a v seg (c + 1))"
    by (simp add: gga_step_defs)
  show "nmea_loop junk (44 # 44 # r) p (gga t w j st a v (seg - 1) c) = nmea_loop junk r p (gga t w j st a v seg 1)"
    using ne by (subst nmea_loop.simps) (simp add: gga_def nmea_switch_def nmea_next_def)
qed

lemma nmea_end_gga: "nmea_end junk p (gga t w j st a v seg c) = nmea_end junk p (gga t w j st a v 10 0)"
  by (simp add: nmea_end_def gga_def store_gga_def)

lemma gga_tail:
  assumes "\<forall>ch \<in> set u. ch \<noteq> 0 \<and> ch \<noteq> 42" "10 \<le> unat seg \<or> unat seg = 9 \<and> take 1 u = [44]" "unat seg + length u < 255"
  shows "nmea_loop junk (u @ 42 # r) p (gga t w j st a v seg c) = nmea_end junk p (gga t w j st a v 10 0)"
  using assms
proof (induction u arbitrary: seg c rule: length_induct)
  case (1 u)
  show ?case
  proof (cases u)
    case Nil
    then show ?thesis
      by (simp add: loop_star) (rule nmea_end_gga)
  next
    case (Cons ch u')
    have s1: "unat (seg + 1) = unat seg + 1"
      using 1(4) by (intro unat_Suc8) simp
    show ?thesis
    proof (cases "ch = 44")
      case False
      then have "plain ch" "10 \<le> unat seg"
        using 1(2,3) Cons by (auto simp: plain_def)
      then show ?thesis
        using 1(1) [rule_format, of u' seg "c + 1"] 1(2-4) Cons gga_ignored(1) [of seg ch] by simp
    next
      case ch: True
      show ?thesis
      proof (cases u')
        case Nil
        then show ?thesis
          using Cons ch by (simp add: gga_comma loop_star) (rule nmea_end_gga)
      next
        case (Cons y u'')
        show ?thesis
        proof (cases "y = 44")
          case True
          then show ?thesis
            using 1(1) [rule_format, of u'' "seg + 1" 1] 1(2-4) \<open>u = ch # u'\<close> Cons ch s1 gga_ignored(2) [of "seg + 1"] by auto
        next
          case False
          then show ?thesis
            using 1(1) [rule_format, of u' "seg + 1" 0] 1(2-4) \<open>u = ch # u'\<close> Cons ch s1 by (auto simp: gga_comma)
        qed
      qed
    qed
  qed
qed


subsection \<open>Two digits\<close>

definition num2 :: "u8 \<Rightarrow> u8 \<Rightarrow> int" where
  "num2 a b = 10 * (uint a - 48) + (uint b - 48)"

lemma digit_bounds: "is_digit a \<Longrightarrow> 48 \<le> uint a \<and> uint a \<le> 57"
  by (simp add: is_digit_def word_le_def)

lemma num2_bounds: "is_digit a \<Longrightarrow> is_digit b \<Longrightarrow> 0 \<le> num2 a b \<and> num2 a b < 100"
  using digit_bounds [of a] digit_bounds [of b] by (simp add: num2_def)

lemma is_digit_plain: "is_digit a \<Longrightarrow> plain a \<and> a \<noteq> 58 \<and> a \<noteq> 45 \<and> a \<noteq> 43 \<and> \<not> is_space a"
  using digit_bounds [of a] by (auto simp: plain_def is_space_def word_le_def)

lemma strtoul10_two: "is_digit a \<Longrightarrow> is_digit b \<Longrightarrow> strtoul10 [a, b] = word_of_int (num2 a b)"
  using num2_bounds [of a b] by (simp add: strtoul10_def scan_d_def is_digit_plain digits_value_def num2_def)

lemma print_two:
  assumes "0 \<le> n" "n < 100"
  shows "print_02d n = [word_of_int (48 + n div 10), word_of_int (48 + n mod 10)]"
proof -
  define k where "k = nat n"
  have n: "n = int k" "k < 100"
    using assms by (simp_all add: k_def)
  have one: "print_dec i = [word_of_nat (48 + i)]" if "i < 10" for i
    using that by (simp add: print_dec.simps)
  have "print_dec k = (if k < 10 then [word_of_nat (48 + k)] else [word_of_nat (48 + k div 10), word_of_nat (48 + k mod 10)])"
    using one [of "k div 10"] n(2) by (subst print_dec.simps) simp
  moreover have "int k div 10 = int (k div 10)" "int k mod 10 = int (k mod 10)"
    by (simp_all add: zdiv_int zmod_int)
  ultimately show ?thesis
    by (auto simp: print_02d_def print_int_def n(1) Let_def)
qed

lemma print_num2: "is_digit a \<Longrightarrow> is_digit b \<Longrightarrow> print_02d (num2 a b) = [a, b]"
proof -
  assume d: "is_digit a" "is_digit b"
  have "48 + num2 a b div 10 = uint a" "48 + num2 a b mod 10 = uint b"
    using digit_bounds [OF d(1)] digit_bounds [OF d(2)] unfolding num2_def by presburger+
  then show ?thesis
    using num2_bounds [OF d] by (simp add: print_two)
qed

definition local_hour :: "int \<Rightarrow> int" where
  "local_hour h = (if h + 8 > 24 then h - 16 else h + 8)"

lemma timestr_digits:
  assumes "\<forall>ch \<in> {h1, h2, m1, m2, s1, s2}. is_digit ch"
  shows "print_timestr junk [h1, h2, 58, m1, m2, 58, s1, s2] g
    = Some (g\<lparr>gps_Time := print_02d (local_hour (num2 h1 h2)) @ [58, m1, m2, 58, s1, s2]\<rparr>)"
proof -
  have b: "0 \<le> num2 h1 h2" "num2 h1 h2 < 100" "0 \<le> num2 m1 m2" "num2 m1 m2 < 100" "0 \<le> num2 s1 s2" "num2 s1 s2 < 100"
    using num2_bounds [of h1 h2] num2_bounds [of m1 m2] num2_bounds [of s1 s2] assms by auto
  have tok: "strtok_colon [] [h1, h2, 58, m1, m2, 58, s1, s2] = [[h1, h2], [m1, m2], [s1, s2]]"
    using assms is_digit_plain by auto
  have sint: "sint (word_of_int n :: u32) = n" if "0 \<le> n" "n < 200" for n
    using that by (simp add: signed_of_int signed_take_bit_int_eq_self)
  define n where "n = num2 h1 h2"
  have "(word_of_int n + 8 :: u32) = word_of_int (n + 8)"
    by simp
  moreover have "(24 :: u32) < word_of_int (n + 8) \<longleftrightarrow> 24 < n + 8"
  proof -
    have "uint (word_of_int (n + 8) :: u32) = n + 8"
      using b(1,2) by (simp only: uint_word_of_int_eq n_def) (simp add: take_bit_int_eq_self)
    then show ?thesis
      by (simp only: word_less_def) simp
  qed
  moreover have "word_of_int (n + 8) - (24 :: u32) = word_of_int (n - 16)"
    by simp
  moreover have T: "strtoul10 [h1, h2] = word_of_int n" "strtoul10 [m1, m2] = word_of_int (num2 m1 m2)" "strtoul10 [s1, s2] = word_of_int (num2 s1 s2)"
    using assms by (simp_all add: strtoul10_two n_def)
  ultimately have hour: "sint (if 24 < strtoul10 [h1, h2] + 8 then strtoul10 [h1, h2] + 8 - 24 else strtoul10 [h1, h2] + 8) = local_hour n"
    using b(1,2) sint [of "n + 8"] sint [of "n - 16"] by (simp only: T local_hour_def n_def split: if_splits) simp
  have "0 \<le> local_hour n" "local_hour n < 100"
    using b by (auto simp: local_hour_def n_def)
  then have len: "length (print_02d (local_hour n)) = 2"
    by (simp add: print_two)
  have "print_timestr junk [h1, h2, 58, m1, m2, 58, s1, s2] g =
      Option.bind (fits_in 30 (print_02d (sint (if 24 < strtoul10 [h1, h2] + 8 then strtoul10 [h1, h2] + 8 - 24 else strtoul10 [h1, h2] + 8))
        @ [58] @ print_02d (sint (strtoul10 [m1, m2])) @ [58] @ print_02d (sint (strtoul10 [s1, s2])))) (\<lambda>s. Some (g\<lparr>gps_Time := s\<rparr>))"
    by (simp add: print_timestr_def tok Let_def del: strtok_colon.simps)
  also have "\<dots> = Option.bind (fits_in 30 (print_02d (local_hour n) @ [58] @ [m1, m2] @ [58] @ [s1, s2])) (\<lambda>s. Some (g\<lparr>gps_Time := s\<rparr>))"
    unfolding hour T(2,3) using b assms by (simp add: sint print_num2)
  also have "\<dots> = Some (g\<lparr>gps_Time := print_02d (local_hour (num2 h1 h2)) @ [58, m1, m2, 58, s1, s2]\<rparr>)"
    using len by (simp add: fits_in_def n_def)
  finally show ?thesis .
qed


subsection \<open>A position fix\<close>

lemma c_string_pad: "\<forall>ch \<in> set xs. plain ch \<Longrightarrow> 0 < n \<Longrightarrow> c_string (xs @ replicate n 0) = Some xs"
  by (cases n) (auto simp: c_string_def plain_def takeWhile_append2)

lemma store_gga_fields:
  assumes "\<forall>ch \<in> {h1, h2, m1, m2, s1, s2, v1, v2}. is_digit ch" "\<forall>ch \<in> set (lat @ lng @ alt). plain ch"
    "length lat \<le> 20" "length lng \<le> 20" "length alt \<le> 10" "0 < i" "0 < j" "0 < k" "hemispheres (rgps p)" "flag_GPGGA p = 0"
  shows "nmea_end junk p (gga [h1, h2, 58, m1, m2, 58, s1, s2, 0] (lat @ replicate i 0) (lng @ replicate j 0) st (alt @ replicate k 0) [v1, v2, 0] 10 0)
    = Some (p\<lparr>rgps := (rgps p)\<lparr>gps_Time := print_02d (local_hour (num2 h1 h2)) @ [58, m1, m2, 58, s1, s2],
        gps_satellite := num2 v1 v2, gps_Lng := lng, gps_Lat := lat, gps_Elevation := alt\<rparr>, flag_GPGGA := 1\<rparr>)"
proof -
  have pl: "\<forall>ch \<in> {h1, h2, m1, m2, s1, s2, v1, v2}. plain ch"
    using assms(1) is_digit_plain by blast
  have t: "c_string [h1, h2, 58, m1, m2, 58, s1, s2, 0] = Some [h1, h2, 58, m1, m2, 58, s1, s2]" and v: "c_string [v1, v2, 0] = Some [v1, v2]"
    using c_string_pad [of "[h1, h2, 58, m1, m2, 58, s1, s2]" 1] c_string_pad [of "[v1, v2]" 1] pl by (simp_all add: plain_def)
  have "atoi [v1, v2] = num2 v1 v2"
    using assms(1) by (simp add: atoi_def scan_d_def is_digit_plain digits_value_def num2_def)
  then show ?thesis
    using assms c_string_pad [of lat i] c_string_pad [of lng j] c_string_pad [of alt k]
    by (simp add: nmea_end_def gga_def store_gga_def t v timestr_digits copy_field_def hemispheres_def ball_Un)
qed

definition gga_sentence :: "u8 list \<Rightarrow> u8 list \<Rightarrow> u8 \<Rightarrow> u8 list \<Rightarrow> u8 \<Rightarrow> u8 \<Rightarrow> u8 list \<Rightarrow> u8 list \<Rightarrow> u8 list \<Rightarrow> u8 list \<Rightarrow> u8 list" where
  "gga_sentence t lat ns lng ew st sv hdop alt u =
     asc ''$GPGGA,'' @ t @ [44] @ lat @ [44, ns, 44] @ lng @ [44, ew, 44, st, 44] @ sv @ [44] @ hdop @ [44] @ alt @ [44] @ u @ [42]"

lemma gga_comma_field: "f \<noteq> [] \<Longrightarrow> \<forall>ch \<in> set f. plain ch \<Longrightarrow>
   nmea_loop junk (44 # f @ r) p (gga t w j st a v seg c) = nmea_loop junk (f @ r) p (gga t w j st a v (seg + 1) 0)"
  by (cases f) (auto simp: gga_comma plain_def)

text \<open>The sentence up to the latitude's hemisphere, and from there to the end.\<close>

lemma gga_front:
  assumes "\<forall>ch \<in> set ([h1, h2, m1, m2, s1, s2] @ tf). plain ch" "\<forall>ch \<in> set ([a1, a2, b1, b2] @ lf). plain ch" "plain ns"
    "length tf < 200" "0 < length lf" "length lf \<le> 6" "flag_GPGGA p = 0"
  shows "print_gpsinfo junk (asc ''$GPGGA,'' @ ([h1, h2, m1, m2, s1, s2] @ tf) @ [44] @ ([a1, a2, b1, b2, 46] @ lf) @ [44, ns] @ r) p
    = nmea_loop junk r (p\<lparr>rgps := (rgps p)\<lparr>north_south := ns\<rparr>\<rparr>)
        (gga [h1, h2, 58, m1, m2, 58, s1, s2, 0] ([a1, a2, 46, b1, b2] @ take 5 lf @ replicate (15 - min 5 (length lf)) 0)
          (replicate 12 0) 0 (replicate 8 0) (replicate 3 0) 3 1)"
    (is "?l = nmea_loop junk r ?p1 (gga ?T ?W ?J 0 ?A ?V 3 1)")
proof -
  define r2 where "r2 = 44 # [ns] @ r"
  define r1 where "r1 = 44 # ([a1, a2, b1, b2, 46] @ lf) @ r2"
  have "?l = nmea_loop junk ([h1, h2, m1, m2, s1, s2] @ tf @ r1) p (gga (replicate 9 0) (replicate 20 0) ?J 0 ?A ?V 1 0)"
    using assms(1,7) header_gga [of p h1 junk "h2 # m1 # m2 # s1 # s2 # tf @ r1"]
    by (simp add: print_gpsinfo_def asc_def plain_def r1_def r2_def nmea_init_def gga_def)
  also obtain k1 where "\<dots> = nmea_loop junk r1 p (gga ?T (replicate 20 0) ?J 0 ?A ?V 1 k1)"
    using gga_field_time [OF assms(1,4)] by blast
  also have "\<dots> = nmea_loop junk ([a1, a2, b1, b2, 46] @ lf @ r2) p (gga ?T (replicate 20 0) ?J 0 ?A ?V 2 0)"
    using gga_comma_field [of "[a1, a2, b1, b2, 46] @ lf"] assms(2) by (simp add: r1_def plain_def)
  also obtain k2 where "\<dots> = nmea_loop junk r2 p (gga ?T ?W ?J 0 ?A ?V 2 k2)"
    using gga_field_wd [OF assms(2,5,6)] by blast
  also have "\<dots> = nmea_loop junk r ?p1 (gga ?T ?W ?J 0 ?A ?V 3 1)"
    using gga_comma_field [of "[ns]"] assms(3) by (simp add: r2_def gga_one(1))
  finally show ?thesis .
qed

lemma gga_back:
  assumes "\<forall>ch \<in> set ([c1, c2, c3, e1, e2] @ gf). plain ch" "\<forall>ch \<in> {ew, st, v1, v2}. plain ch" "\<forall>ch \<in> set hdop. plain ch" "\<forall>ch \<in> set alt. plain ch"
    "0 < length gf" "length gf \<le> 6" "hdop \<noteq> []" "alt \<noteq> []" "length alt \<le> 7" "\<forall>ch \<in> set u. ch \<noteq> 0 \<and> ch \<noteq> 42" "length u < 240" "st \<noteq> 48"
  shows "nmea_loop junk ([44] @ ([c1, c2, c3, e1, e2, 46] @ gf) @ [44, ew, 44, st, 44, v1, v2, 44] @ hdop @ [44] @ alt @ [44] @ u @ [42] @ r) p
      (gga t w (replicate 12 0) 0 (replicate 8 0) (replicate 3 0) 3 1)
    = nmea_end junk (p\<lparr>rgps := (rgps p)\<lparr>east_west := ew\<rparr>\<rparr>)
        (gga t w ([c1, c2, c3, 46, e1, e2] @ take 5 gf @ replicate (6 - min 5 (length gf)) 0) st (alt @ replicate (8 - length alt) 0) [v1, v2, 0] 10 0)"
    (is "?l = nmea_end junk ?p (gga t w ?J st ?A ?V 10 0)")
proof -
  define r9 where "r9 = (44 # u) @ 42 # r"
  define r8 where "r8 = 44 # alt @ r9"
  define r7 where "r7 = 44 # hdop @ r8"
  define r6 where "r6 = 44 # [v1, v2] @ r7"
  define r5 where "r5 = 44 # [st] @ r6"
  define r4 where "r4 = 44 # [ew] @ r5"
  have "?l = nmea_loop junk ([c1, c2, c3, e1, e2, 46] @ gf @ r4) p (gga t w (replicate 12 0) 0 (replicate 8 0) (replicate 3 0) 4 0)"
    using gga_comma_field [of "[c1, c2, c3, e1, e2, 46] @ gf"] assms(1) by (simp add: r4_def r5_def r6_def r7_def r8_def r9_def plain_def)
  also obtain k4 where "\<dots> = nmea_loop junk r4 p (gga t w ?J 0 (replicate 8 0) (replicate 3 0) 4 k4)"
    using gga_field_jd [OF assms(1,5,6)] by blast
  also have "\<dots> = nmea_loop junk r6 ?p (gga t w ?J st (replicate 8 0) (replicate 3 0) 6 1)"
    using gga_comma_field [of "[ew]"] gga_comma_field [of "[st]"] assms(2,12) by (simp add: r4_def r5_def gga_one(2,3))
  also have "\<dots> = nmea_loop junk r7 ?p (gga t w ?J st (replicate 8 0) ?V 7 2)"
    using gga_comma_field [of "[v1, v2]"] assms(2) by (simp add: r6_def gga_field_sv)
  also have "\<dots> = nmea_loop junk (hdop @ r8) ?p (gga t w ?J st (replicate 8 0) ?V 8 0)"
    using gga_comma_field [OF assms(7,3)] by (simp add: r7_def)
  also obtain k8 where "\<dots> = nmea_loop junk r8 ?p (gga t w ?J st (replicate 8 0) ?V 8 k8)"
    using gga_field_hdop [OF assms(3)] by blast
  also have "\<dots> = nmea_loop junk (alt @ r9) ?p (gga t w ?J st (replicate 8 0) ?V 9 0)"
    using gga_comma_field [OF assms(8,4)] by (simp add: r8_def)
  also obtain k9 where "\<dots> = nmea_loop junk r9 ?p (gga t w ?J st ?A ?V 9 k9)"
    using gga_field_alt [OF assms(4), of "[]", simplified, OF assms(9)] by blast
  also have "\<dots> = nmea_end junk ?p (gga t w ?J st ?A ?V 10 0)"
    unfolding r9_def using assms(10,11) by (intro gga_tail) auto
  finally show ?thesis .
qed

text \<open>C18: reading a position fix. The sentence is a GPGGA sentence of the usual shape, the first one of a round: six digits of
  time with an optional fraction, a latitude of four and a longitude of five digits with one to six decimals, a status other
  than \<open>'0'\<close>, a satellite count of two digits, a precision and a height that are not empty, the height with at most seven
  characters, and at most 239 characters behind it. On all of these \<open>print_gpsinfo\<close> stays inside its arrays and stores
  the hemispheres, the number of satellites, the height, both coordinates with the decimal point behind the degrees and the
  first five decimals of the minutes, and the time with eight hours added, less 24 only when that gives more than 24, so 16
  hours UTC is stored as hour 24.\<close>

theorem rgps_parses_gga:
  assumes "\<forall>ch \<in> {h1, h2, m1, m2, s1, s2, v1, v2}. is_digit ch"
    and "\<forall>ch \<in> set ([a1, a2, b1, b2] @ lf @ [c1, c2, c3, e1, e2] @ gf @ st # tf @ hdop @ alt). plain ch"
    and "length tf < 200" and "0 < length lf" and "length lf \<le> 6" and "0 < length gf" and "length gf \<le> 6"
    and "hdop \<noteq> []" and "alt \<noteq> []" and "length alt \<le> 7" and "\<forall>ch \<in> set u. ch \<noteq> 0 \<and> ch \<noteq> 42" and "length u < 240"
    and "ns = 78 \<or> ns = 83" and "ew = 69 \<or> ew = 87" and "st \<noteq> 48" and "flag_GPGGA p = 0"
  shows "print_gpsinfo junk (gga_sentence ([h1, h2, m1, m2, s1, s2] @ tf) ([a1, a2, b1, b2, 46] @ lf) ns ([c1, c2, c3, e1, e2, 46] @ gf) ew st [v1, v2] hdop alt u @ r) p
    = Some (p\<lparr>flag_GPGGA := 1, rgps := (rgps p)\<lparr>north_south := ns, east_west := ew,
        gps_Time := print_02d (local_hour (num2 h1 h2)) @ [58, m1, m2, 58, s1, s2], gps_satellite := num2 v1 v2,
        gps_Lat := [a1, a2, 46, b1, b2] @ take 5 lf, gps_Lng := [c1, c2, c3, 46, e1, e2] @ take 5 gf, gps_Elevation := alt\<rparr>\<rparr>)"
    (is "?l = Some ?p")
proof -
  have pl: "\<forall>ch \<in> {h1, h2, m1, m2, s1, s2, v1, v2}. plain ch"
    using assms(1) is_digit_plain by blast
  have pn: "plain ns" "plain ew"
    using assms(13,14) by (auto simp: plain_def)
  have pls: "\<forall>ch \<in> set ([h1, h2, m1, m2, s1, s2] @ tf). plain ch" "\<forall>ch \<in> set ([a1, a2, b1, b2] @ lf). plain ch"
    "\<forall>ch \<in> set ([c1, c2, c3, e1, e2] @ gf). plain ch" "\<forall>ch \<in> set hdop. plain ch" "\<forall>ch \<in> set alt. plain ch" "\<forall>ch \<in> {ew, st, v1, v2}. plain ch"
    using assms(2) pl pn by (simp_all add: ball_Un)
  let ?p = "p\<lparr>rgps := (rgps p)\<lparr>north_south := ns, east_west := ew\<rparr>\<rparr>"
  have "?l = nmea_end junk ?p (gga [h1, h2, 58, m1, m2, 58, s1, s2, 0] (([a1, a2, 46, b1, b2] @ take 5 lf) @ replicate (15 - min 5 (length lf)) 0)
      (([c1, c2, c3, 46, e1, e2] @ take 5 gf) @ replicate (6 - min 5 (length gf)) 0) st (alt @ replicate (8 - length alt) 0) [v1, v2, 0] 10 0)"
    using gga_front [OF pls(1,2) pn(1) assms(3-5,16)] gga_back [OF pls(3,6,4,5) assms(6-12,15)] by (simp add: gga_sentence_def)
  moreover have fl: "\<forall>ch \<in> set (([a1, a2, 46, b1, b2] @ take 5 lf) @ ([c1, c2, c3, 46, e1, e2] @ take 5 gf) @ alt). plain ch"
    using pls(2,3,5) by (simp add: ball_Un) (blast dest: in_set_takeD)
  moreover have "hemispheres (rgps ?p)"
    using assms(13,14) by (auto simp: hemispheres_def)
  ultimately show ?thesis
    using store_gga_fields [OF assms(1) fl, of "15 - min 5 (length lf)" "6 - min 5 (length gf)" "8 - length alt" ?p junk st] assms(10,16) by simp
qed

definition sample_rgps :: rgps_proc where
  "sample_rgps = \<lparr>rgps = \<lparr>east_west = 0, north_south = 0, gps_Lng = [], gps_Lat = [], gps_Date = [], gps_Time = [], gps_Velocity = [],
     gps_Orientation = [], gps_Elevation = [], gps_satellite = 0\<rparr>, flag_GPGGA = 0, flag_GPRMC = 0, Timereport = []\<rparr>"

theorem rgps_parses_gga_witness:
  "map_option (\<lambda>p. (flag_GPGGA p, gps_Lat (rgps p), gps_Lng (rgps p), gps_satellite (rgps p)))
     (print_gpsinfo (\<lambda>_. 0) (gga_sentence (asc ''050509.50'') (asc ''3114.361111'') 78 (asc ''12129.968941'') 69 49 (asc ''06'') (asc ''2.1'') (asc ''-42.1'') (asc ''M,,,,'') @ [50, 67, 0]) sample_rgps)
   = Some (1, asc ''31.1436111'', asc ''121.2996894'', 6)"
proof -
  have "\<forall>ch \<in> {48, 53, 48, 53, 48, 57, 48, 54}. is_digit ch"
    by (simp add: is_digit_def)
  from rgps_parses_gga [OF this, of 51 49 49 52 "[51, 54, 49, 49, 49, 49]" 49 50 49 50 57 "[57, 54, 56, 57, 52, 49]" 49 "[46, 53, 48]"
      "asc ''2.1''" "asc ''-42.1''" "asc ''M,,,,''" 78 69 sample_rgps "\<lambda>_. 0" "[50, 67, 0]"]
  show ?thesis
    by (simp add: asc_def plain_def sample_rgps_def num2_def)
qed

text \<open>C24: a longitude with more than six decimals, in the first GPGGA sentence of a round. \<open>print_gpsinfo\<close> then writes past the twelve bytes of \<open>GPS_jd\<close>, whatever follows in the
  sentence.\<close>

theorem rgps_longitude_overflows:
  assumes "\<forall>ch \<in> {h1, h2, m1, m2, s1, s2}. is_digit ch"
    and "\<forall>ch \<in> set ([a1, a2, b1, b2] @ lf @ [ns] @ [c1, c2, c3, e1, e2] @ gf @ tf). plain ch"
    and "length tf < 200" and "0 < length lf" and "length lf \<le> 6" and "7 \<le> length gf" and "flag_GPGGA p = 0"
  shows "print_gpsinfo junk (asc ''$GPGGA,'' @ ([h1, h2, m1, m2, s1, s2] @ tf) @ [44] @ ([a1, a2, b1, b2, 46] @ lf) @ [44, ns]
    @ [44] @ [c1, c2, c3, e1, e2, 46] @ gf @ r) p = None"
proof -
  have pls: "\<forall>ch \<in> set ([h1, h2, m1, m2, s1, s2] @ tf). plain ch" "\<forall>ch \<in> set ([a1, a2, b1, b2] @ lf). plain ch" "plain ns"
    using assms(1,2) is_digit_plain by (simp_all add: ball_Un)
  have "\<forall>ch \<in> set ([c1, c2, c3, e1, e2] @ gf). plain ch"
    using assms(2) by (simp add: ball_Un)
  then have "nmea_loop junk ([44] @ ([c1, c2, c3, e1, e2, 46] @ gf) @ r) q (gga t w (replicate 12 0) 0 a v 3 1) = None" for q t w a v
    using gga_comma_field [of "[c1, c2, c3, e1, e2, 46] @ gf"] gga_jd_full [of c1 c2 c3 e1 e2 gf] assms(6) by (simp add: plain_def)
  then show ?thesis
    using gga_front [OF pls assms(3-5,7)] by simp
qed

theorem rgps_longitude_overflows_witness:
  "print_gpsinfo (\<lambda>_. 0) (asc ''$GPGGA,050509,3114.3,N,12129.9689411,E,1,06,2.1,-42.1,M*2C'') sample_rgps = None"
proof -
  have "\<forall>ch \<in> {48, 53, 48, 53, 48, 57}. is_digit ch"
    by (simp add: is_digit_def)
  from rgps_longitude_overflows [OF this, of 51 49 49 52 "[51]" 78 49 50 49 50 57 "[57, 54, 56, 57, 52, 49, 49]" "[]" sample_rgps "\<lambda>_. 0"
      "asc '',E,1,06,2.1,-42.1,M*2C''"]
  show ?thesis
    by (simp add: asc_def plain_def sample_rgps_def)
qed

subsection \<open>No fix\<close>






subsection \<open>Empty fields\<close>

text \<open>Two commas in a row: the second is taken as the data of the field.\<close>

lemma gga_empty:
  "length w = 20 \<Longrightarrow> nmea_loop junk (44 # 44 # r) p (gga t w j st a v 1 c) = nmea_loop junk r p (gga t (w[0 := 44]) j st a v 2 1)"
  "nmea_loop junk (44 # 44 # r) p (gga t w j st a v 2 c) = nmea_loop junk r (p\<lparr>rgps := (rgps p)\<lparr>north_south := 44\<rparr>\<rparr>) (gga t w j st a v 3 1)"
  "length v = 3 \<Longrightarrow> nmea_loop junk (44 # 44 # r) p (gga t w j st a v 6 c) = nmea_loop junk r p (gga t w j st a (v[0 := 44, 2 := 0]) 7 1)"
  "nmea_loop junk (44 # 44 # r) p (gga t w j st a v 7 c) = nmea_loop junk r p (gga t w j st a v 8 1)"
  "length a = 8 \<Longrightarrow> nmea_loop junk (44 # 44 # r) p (gga t w j st a v 8 c) = nmea_loop junk r p (gga t w j st (a[0 := 44, 1 := 0]) v 9 1)"
  by (subst nmea_loop.simps, simp add: gga_def nmea_switch_def nmea_next_def seg2_def seg7_def seg8_def seg9_def put_def put_str_def)+

lemma gga_field_status:
  "\<forall>ch \<in> set f. plain ch \<and> ch \<noteq> 48 \<Longrightarrow> \<exists>k st'. nmea_loop junk (f @ r) p (gga t w j st a v 6 c) = nmea_loop junk r p (gga t w j st' a v 6 k)"
  by (induction f arbitrary: c st) (auto simp: gga_one(3))

text \<open>C28: what a receiver without a fix prints. It leaves the position empty and the status is \<open>'0'\<close>, but the parser takes the second comma of an empty
  field as data, so it reads the status as the longitude and the precision as the status. When no digit of the precision is 0, the check for a fix is
  passed, and commas and the status replace the stored position, the height and the number of satellites. Only the wrong hemisphere keeps the
  sentence from counting as seen.\<close>

theorem rgps_empty_fields_overwrite:
  assumes "\<forall>ch \<in> {h1, h2, m1, m2, s1, s2}. is_digit ch" and "\<forall>ch \<in> set tf. plain ch" and "length tf < 200"
    and "is_digit v1" and "is_digit v2" and "\<forall>ch \<in> set hdop. plain ch \<and> ch \<noteq> 48" and "hdop \<noteq> []" and "flag_GPGGA p = 0"
  shows "print_gpsinfo junk (asc ''$GPGGA,'' @ ([h1, h2, m1, m2, s1, s2] @ tf) @ asc '',,,,,0,'' @ [v1, v2, 44] @ hdop @ asc '',,,,,,*'' @ r) p
    = Some (p\<lparr>rgps := (rgps p)\<lparr>north_south := 44, east_west := v2,
        gps_Time := print_02d (local_hour (num2 h1 h2)) @ [58, m1, m2, 58, s1, s2], gps_satellite := 0,
        gps_Lat := [44], gps_Lng := [48], gps_Elevation := [44]\<rparr>\<rparr>)"
    (is "?l = Some ?q")
proof -
  let ?T = "[h1, h2, 58, m1, m2, 58, s1, s2, 0]" and ?p = "p\<lparr>rgps := (rgps p)\<lparr>north_south := 44, east_west := v2\<rparr>\<rparr>"
  define r3 where "r3 = [44, 44, 44, 44, 44, 44] @ 42 # r"
  define r2 where "r2 = 44 # hdop @ r3"
  define r1 where "r1 = [44, 44, 44, 44, 44, 48, 44, v1, v2] @ r2"
  have pl: "\<forall>ch \<in> set ([h1, h2, m1, m2, s1, s2] @ tf). plain ch" "plain v1" "plain v2" "\<forall>ch \<in> set hdop. plain ch" "plain 48"
    using assms(1,2,4-6) is_digit_plain by (auto simp: plain_def)
  have "?l = nmea_loop junk ([h1, h2, m1, m2, s1, s2] @ tf @ r1) p (gga (replicate 9 0) (replicate 20 0) (replicate 12 0) 0 (replicate 8 0) (replicate 3 0) 1 0)"
    using pl(1) assms(8) header_gga [of p h1 junk "h2 # m1 # m2 # s1 # s2 # tf @ r1"]
    by (simp add: print_gpsinfo_def asc_def plain_def r1_def r2_def r3_def nmea_init_def gga_def)
  also obtain k1 where "\<dots> = nmea_loop junk r1 p (gga ?T (replicate 20 0) (replicate 12 0) 0 (replicate 8 0) (replicate 3 0) 1 k1)"
    using gga_field_time [OF pl(1) assms(3)] by blast
  also have "\<dots> = nmea_loop junk r2 ?p (gga ?T ([44] @ replicate 19 0) ([48] @ replicate 11 0) 0 (replicate 8 0) (replicate 3 0) 5 2)"
    using gga_comma_field [of "[48]"] gga_comma_field [of "[v1, v2]"] pl(2,3,5)
    by (simp add: r1_def gga_empty gga_jd(1) gga_one(2)) (simp add: numeral_nat)
  also have "\<dots> = nmea_loop junk (hdop @ r3) ?p (gga ?T ([44] @ replicate 19 0) ([48] @ replicate 11 0) 0 (replicate 8 0) (replicate 3 0) 6 0)"
    using gga_comma_field [OF assms(7) pl(4)] by (simp add: r2_def)
  also obtain k st where "\<dots> = nmea_loop junk r3 ?p (gga ?T ([44] @ replicate 19 0) ([48] @ replicate 11 0) st (replicate 8 0) (replicate 3 0) 6 k)"
    using gga_field_status [OF assms(6)] by blast
  also have "\<dots> = nmea_end junk ?p (gga ?T ([44] @ replicate 19 0) ([48] @ replicate 11 0) st ([44] @ replicate 7 0) ([44] @ replicate 2 0) 9 1)"
    by (simp add: r3_def gga_empty loop_star) (simp add: numeral_nat)
  also have "\<dots> = Some ?q"
  proof -
    have t: "c_string ?T = Some [h1, h2, 58, m1, m2, 58, s1, s2]"
      using c_string_pad [of "[h1, h2, 58, m1, m2, 58, s1, s2]" 1] pl(1) by (simp add: plain_def)
    have z: "c_string ([x] @ replicate n 0) = Some [x]" if "x \<noteq> 0" "0 < n" for x n
      using that by (cases n) (simp_all add: c_string_def)
    have "c_string ([44] @ replicate 19 0) = Some [44]" "c_string ([48] @ replicate 11 0) = Some [48]" "c_string ([44] @ replicate 7 0) = Some [44]"
      "c_string ([44] @ replicate 2 0) = Some [44]"
      by (rule z; simp)+
    moreover have "atoi [44] = 0"
      by code_simp
    ultimately show ?thesis
      using assms(1,8) t by (simp add: nmea_end_def gga_def store_gga_def timestr_digits copy_field_def hemispheres_def)
  qed
  finally show ?thesis .
qed

theorem rgps_empty_fields_overwrite_witness:
  "map_option (\<lambda>p. (flag_GPGGA p, gps_Lat (rgps p), gps_Lng (rgps p)))
     (print_gpsinfo (\<lambda>_. 0) (asc ''$GPGGA,050509.50,,,,,0,00,99.99,,,,,,*66'') sample_rgps) = Some (0, asc '','', asc ''0'')"
proof -
  have "\<forall>ch \<in> {48, 53, 48, 53, 48, 57}. is_digit ch"
    by (simp add: is_digit_def)
  from rgps_empty_fields_overwrite [OF this, of "asc ''.50''" 48 48 "asc ''99.99''" sample_rgps "\<lambda>_. 0" "asc ''66''"]
  show ?thesis
    by (simp add: asc_def plain_def is_digit_def sample_rgps_def)
qed

subsection \<open>What is reported\<close>

definition valid_script :: gps_event where
  "valid_script = System (asc ''/sbin/gps_valid.sh'')"

lemma echo_not_script: "echo_cmd logpath v file \<noteq> Some valid_script"
  by (auto simp: echo_cmd_def valid_script_def asc_def fits_in_def)

lemma those_mem: "those xs = Some ys \<Longrightarrow> y \<in> set ys \<Longrightarrow> Some y \<in> set xs"
  by (induction xs arbitrary: ys) (auto split: option.splits)

lemma gps_debug_not_script: "gps_debug logpath status p = Some evs \<Longrightarrow> valid_script \<notin> set evs"
  unfolding gps_debug_def Let_def by (rule notI, drule (1) those_mem) (simp add: echo_not_script [symmetric])

lemma gps_report_script:
  assumes "gps_report t log url status p = Some (status', p', evs)" "valid_script \<in> set evs"
  shows "status \<noteq> 0 \<and> status' = status \<and> hemispheres (rgps p) \<and> rgps p' = rgps p \<and> flag_GPGGA p' = flag_GPGGA p \<and> flag_GPRMC p' = flag_GPRMC p"
  using assms
  by (auto simp: gps_report_def Let_def valid_script_def asc_def Option.bind_eq_Some_conv split: if_splits option.splits prod.splits)

lemma report_debug_script:
  assumes "report_debug cf t status p = Some (p', evs)" "valid_script \<in> set evs"
  shows "status \<noteq> 0 \<and> hemispheres (rgps p') \<and> flag_GPGGA p' = flag_GPGGA p \<and> flag_GPRMC p' = flag_GPRMC p"
  using assms gps_report_script [of t "cf_log cf" "cf_url cf" status p] gps_debug_not_script
  by (fastforce simp: report_debug_def Option.bind_eq_Some_conv split: prod.splits)

lemma rgps_passes_script:
  assumes "rgps_passes junk cf inps p = Some (p', evs)" and "valid_script \<in> set evs"
  shows "flag_GPGGA p' = 1 \<and> flag_GPRMC p' = 1 \<and> hemispheres (rgps p')"
  using assms
proof (induction inps arbitrary: p)
  case (Cons inp inps)
  then obtain q where q: "rgps_read junk (rd_data inp) p = Some q"
    by (auto simp: Option.bind_eq_Some_conv)
  consider (both) "flag_GPGGA q = 1" "flag_GPRMC q = 1" "report_debug cf (rd_now inp) 1 q = Some (p', evs)"
    | (late) "report_debug cf (rd_now inp) 0 q = Some (p', evs)" | (more) "rgps_passes junk cf inps q = Some (p', evs)" | (stop) "evs = []"
    using Cons.prems(1) q by (auto split: if_splits)
  then show ?case
    using Cons.IH [of q] Cons.prems(2) report_debug_script [of cf "rd_now inp"] by cases fastforce+
qed simp

text \<open>Whatever the receiver sends, a round that runs \<open>gps_valid.sh\<close> has stored both
  sentences since the flags were cleared at its start, and the hemispheres it reports are N or S and E or W.\<close>

theorem rgps_valid_needs_both:
  assumes "rgps_round junk cf inps p = Some (p', evs)" and "valid_script \<in> set evs"
  shows "flag_GPGGA p' = 1 \<and> flag_GPRMC p' = 1 \<and> hemispheres (rgps p')"
  using assms unfolding rgps_round_def by (rule rgps_passes_script)

definition sample_round :: "(rgps_proc \<times> gps_event list) option" where
  "sample_round = rgps_round (\<lambda>_. 0) \<lparr>cf_log = False, cf_url = None, cf_path = []\<rparr>
     [\<lparr>rd_data = asc ''$GPGGA,1,2,N,3,E,1*'' @ [10] @ asc ''$GPRMC,1,A*'' @ [10], rd_elapsed = 0,
       rd_now = \<lparr>tm_year = 0, tm_mon = 0, tm_mday = 1, tm_hour = 0, tm_min = 0, tm_sec = 0\<rparr>\<rparr>] sample_rgps"

lemma sample_round_runs: "case sample_round of None \<Rightarrow> False | Some (p, evs) \<Rightarrow> valid_script \<in> set evs"
  by code_simp

theorem rgps_valid_needs_both_witness:
  "\<exists>p evs. sample_round = Some (p, evs) \<and> valid_script \<in> set evs \<and> flag_GPGGA p = 1 \<and> flag_GPRMC p = 1 \<and> hemispheres (rgps p)"
  using sample_round_runs rgps_valid_needs_both [of "\<lambda>_. 0"] unfolding sample_round_def by (auto split: option.splits)

text \<open>Seen is not fixed: a sentence that ends before its status passes the tests, so this round announces a position although neither sentence
  says that there is a fix.\<close>

lemma truncated_announced:
  "case rgps_round (\<lambda>_. 0) \<lparr>cf_log = False, cf_url = None, cf_path = []\<rparr>
     [\<lparr>rd_data = asc ''$GPGGA,1,2,N,3,E*'' @ [10] @ asc ''$GPRMC*'' @ [10], rd_elapsed = 0,
       rd_now = \<lparr>tm_year = 0, tm_mon = 0, tm_mday = 1, tm_hour = 0, tm_min = 0, tm_sec = 0\<rparr>\<rparr>] sample_rgps
   of None \<Rightarrow> False | Some (p, evs) \<Rightarrow> valid_script \<in> set evs"
  by code_simp

subsection \<open>Reading past the buffer\<close>

text \<open>The loop counts the bytes it copied, but skips the line ends too. Once the two have drifted apart, it leaves the buffer.\<close>

lemma rgps_lines_out: "length buf \<le> i + n \<Longrightarrow> 0 < n \<Longrightarrow> rgps_lines junk buf (Suc n) i buf1 j p = None"
proof (induction n arbitrary: i buf1 j p)
  case (Suc n)
  show ?case
  proof (cases "n = 0")
    case True
    then show ?thesis
      using Suc.prems(1) by (auto simp: at_def bind_eq_None_conv)
  next
    case False
    then show ?thesis
      using Suc.IH Suc.prems(1) by (auto simp: bind_eq_None_conv)
  qed
qed simp

lemma at_drop:
  assumes "drop i buf = x # y # r"
  shows "at buf i = Some x" "at buf (i + 1) = Some y"
proof -
  have "length buf - i = Suc (Suc (length r))"
    using arg_cong [OF assms, of length] by simp
  then have "i + 1 < length buf"
    by linarith
  then show "at buf i = Some x" "at buf (i + 1) = Some y"
    using nth_drop [of i buf 0] nth_drop [of i buf 1] assms by (simp_all add: at_def)
qed

lemma rgps_lines_one:
  assumes "\<forall>ch \<in> set xs. ch \<noteq> 10" "drop i buf = x # xs @ 10 # rest" "Suc (length xs) < n"
  shows "rgps_lines junk buf n i buf1 j p = None
    \<or> (\<exists>q. rgps_lines junk buf n i buf1 j p = rgps_lines junk buf (n - Suc (length xs)) (i + length xs + 2) (replicate RD_SIZE 0) 0 q)"
  using assms
proof (induction xs arbitrary: i x n buf1 j)
  case Nil
  obtain k where k: "n = Suc (Suc k)"
    using that [of "n - 2"] Nil.prems(3) by simp
  have "at buf i = Some x" "at buf (i + 1) = Some 10"
    using at_drop [of i buf x 10 rest] Nil.prems(2) by simp_all
  then show ?case
    by (cases "put buf1 j x") (auto simp: k put_def bind_eq_None_conv split: if_splits)
next
  case (Cons y xs)
  obtain k where k: "n = Suc (Suc k)"
    using that [of "n - 2"] Cons.prems(3) by simp
  have d: "drop (i + 1) buf = y # xs @ 10 # rest"
    using arg_cong [OF Cons.prems(2), of tl] by (simp add: drop_Suc tl_drop)
  have "at buf i = Some x" "at buf (i + 1) = Some y"
    using at_drop [of i buf x y "xs @ 10 # rest"] Cons.prems(2) by simp_all
  then show ?case
    using Cons.IH [OF _ d, of "Suc k"] Cons.prems(1,3) by (cases "put buf1 j x") (auto simp: k)
qed

text \<open>C25: a full read. When \<open>read\<close> fills the buffer and the data has two lines, the loop that cuts it into lines reads behind the
  1024 bytes of \<open>buf\<close>, or has already failed on a line.\<close>

theorem rgps_full_read_overruns:
  assumes "data = (x # xs) @ 10 # (y # ys) @ 10 # rest" and "\<forall>ch \<in> set (xs @ ys). ch \<noteq> 10" and "length data = RD_SIZE - 1"
  shows "rgps_read junk data p = None"
proof -
  define buf where "buf = data @ [0]"
  have len: "length buf = 1024" "length data = 1023" "length xs + length ys + length rest = 1019"
    using assms(1,3) by (simp_all add: buf_def RD_SIZE_def)
  have run: "rgps_read junk data p = rgps_lines junk buf 1023 0 (replicate RD_SIZE 0) 0 p"
    using assms(1,3) by (simp add: rgps_read_def buf_def RD_SIZE_def Let_def)
  have d1: "drop 0 buf = x # xs @ 10 # ((y # ys) @ 10 # rest @ [0])" and d2: "drop (length xs + 2) buf = y # ys @ 10 # (rest @ [0])"
    by (simp_all add: buf_def assms(1))
  have "rgps_lines junk buf (1023 - Suc (length xs)) (length xs + 2) (replicate RD_SIZE 0) 0 q = None" for q
  proof -
    have n: "1023 - Suc (length xs) - Suc (length ys) = Suc (length rest + 1)"
      using len(3) by linarith
    have "rgps_lines junk buf (1023 - Suc (length xs) - Suc (length ys)) (length xs + 2 + length ys + 2) b 0 q' = None" for b q'
      unfolding n using len by (intro rgps_lines_out) simp_all
    then show ?thesis
      using rgps_lines_one [OF _ d2, of "1023 - Suc (length xs)" junk "replicate RD_SIZE 0" 0 q] assms(2) len by auto
  qed
  then show ?thesis
    using rgps_lines_one [OF _ d1, of 1023 junk "replicate RD_SIZE 0" 0 p] assms(2) len run by auto
qed

theorem rgps_full_read_overruns_witness:
  "rgps_read (\<lambda>_. 0) ([36] @ 10 # [36] @ 10 # replicate 1019 0) sample_rgps = None"
  using rgps_full_read_overruns [of "[36] @ 10 # [36] @ 10 # replicate 1019 0" 36 "[]" 36 "[]" "replicate 1019 0" "\<lambda>_. 0" sample_rgps]
  by (simp add: RD_SIZE_def)

end
