(* ===== verification/Rgps_Main.thy ===== *)
theory Rgps_Main
  imports Rgps
begin

text \<open>
  The rest of \<open>rgps\<close>: its options, the HTTP request, and the main loop as a sequence of rounds. The invariant
  says that every string the parser stores fits the array it is stored in, with its NUL; in every state the
  program can reach, the report and the status files are then printed without leaving their buffers.
\<close>

section \<open>Options\<close>

text \<open>What \<open>getopt\<close> delivers, one option after the other; \<open>-h\<close> ends the program.\<close>

record rgps_opts =
  op_intval :: int
  op_dev_path :: "u8 list option"
  op_url :: "u8 list option"
  op_logfile :: "u8 list option"
  op_logpath :: "u8 list"

definition rgps_opts_init :: rgps_opts where
  "rgps_opts_init = \<lparr>op_intval = 15, op_dev_path = None, op_url = None, op_logfile = None, op_logpath = asc ''/tmp/.gps''\<rparr>"

fun rgps_options :: "(char \<times> u8 list) list \<Rightarrow> rgps_opts \<Rightarrow> rgps_opts option" where
  "rgps_options [] os = Some os"
| "rgps_options ((opt, optarg) # opts) os =
     (if opt = CHR ''h'' then None
      else if opt = CHR ''d'' then rgps_options opts (os\<lparr>op_dev_path := Some optarg\<rparr>)
      else if opt = CHR ''u'' then rgps_options opts (os\<lparr>op_url := Some optarg\<rparr>)
      else if opt = CHR ''l'' then rgps_options opts (os\<lparr>op_logfile := Some optarg\<rparr>)
      else if opt = CHR ''p'' then rgps_options opts (os\<lparr>op_logpath := optarg\<rparr>)
      else if opt = CHR ''t'' then
        let n = sint (strtoul10 optarg)
        in rgps_options opts (os\<lparr>op_intval := (if n < 5 \<or> n > 300 then 15 else n)\<rparr>)
      else rgps_options opts os)"

section \<open>The request\<close>

text \<open>The network as the program sees it: the addresses of a host as \<open>inet_ntop\<close> prints them, which texts
  \<open>inet_aton\<close> takes, and whether the socket calls succeed; and whether there is a log file. \<open>wb_open\<close> counts the descriptors in use, \<open>wb_sent\<close> is
  what was sent, and to whom, \<open>wb_log\<close> what was logged.\<close>

record web_env =
  we_gethostbyname :: "u8 list \<Rightarrow> u8 list list option"
  we_socket :: bool
  we_bind :: bool
  we_inet_aton :: "u8 list \<Rightarrow> bool"
  we_connect :: "u8 list \<Rightarrow> bool"
  we_send :: bool
  we_log :: bool

record web =
  wb_open :: nat
  wb_sent :: "(u8 list \<times> u8 list) list"
  wb_log :: "u8 list list"

definition BUFFSIZE_H :: nat where "BUFFSIZE_H = 1024"

text \<open>Each address is copied over the one before, without its NUL.\<close>

fun web_addr :: "u8 list list \<Rightarrow> u8 list \<Rightarrow> u8 list option" where
  "web_addr [] d_addr = c_string d_addr"
| "web_addr (a # as) d_addr = (if length a \<le> length d_addr then web_addr as (a @ drop (length a) d_addr) else None)"

definition web_head :: "u8 list \<Rightarrow> u8 list \<Rightarrow> u8 list" where
  "web_head Url pUrl = asc ''POST /'' @ pUrl @ asc '' HTTP/1.1'' @ [13, 10] @ asc ''host: '' @ Url
     @ [13, 10] @ asc ''Connection: Close'' @ [13, 10, 13, 10]"

text \<open>\<open>printf (head)\<close> takes the request as a format: a \<open>'%'\<close> that does not stand before another asks for an argument there is none of. The
  buffer of the request is freed only when \<open>send\<close> fails; memory is not counted here.\<close>

fun format_plain :: "u8 list \<Rightarrow> bool" where
  "format_plain [] \<longleftrightarrow> True"
| "format_plain [ch] \<longleftrightarrow> ch \<noteq> 37"
| "format_plain (ch # ch' # s) \<longleftrightarrow> (if ch = 37 then ch' = 37 \<and> format_plain s else format_plain (ch' # s))"

definition WEBQuest :: "web_env \<Rightarrow> u8 list \<Rightarrow> u8 list \<Rightarrow> web \<Rightarrow> (int \<times> web) option" where
  "WEBQuest env Url pUrl w = (case we_gethostbyname env Url of
      None \<Rightarrow> Some (1, w)
    | Some addrs \<Rightarrow> do {
        d_addr \<leftarrow> web_addr addrs (replicate 32 0);
        if \<not> we_socket env then Some (1, w)
        else
          let w = w\<lparr>wb_open := wb_open w + 1\<rparr>
          in if \<not> we_bind env then Some (1, w)
             else if \<not> we_inet_aton env d_addr then Some (1, w)
             else if \<not> we_connect env d_addr then Some (1, w)
             else do {
               head \<leftarrow> fits_in BUFFSIZE_H (web_head Url pUrl);
               head \<leftarrow> (if format_plain head then Some head else None);
               if \<not> we_send env then Some (1, w\<lparr>wb_open := wb_open w - 1\<rparr>)
               else Some (0, w\<lparr>wb_open := wb_open w - 1, wb_sent := wb_sent w @ [(d_addr, head)],
                 wb_log := wb_log w @ (if we_log env then [head] else [])\<rparr>) } })"

section \<open>The main loop\<close>

definition rgps_start :: rgps_proc where
  "rgps_start = \<lparr>rgps = \<lparr>east_west = 0, north_south = 0, gps_Lng = [], gps_Lat = [], gps_Date = [], gps_Time = [], gps_Velocity = [],
     gps_Orientation = [], gps_Elevation = [], gps_satellite = 0\<rparr>, flag_GPGGA = 0, flag_GPRMC = 0, Timereport = []\<rparr>"

text \<open>The requests a round has asked for, made in order; their results are ignored.\<close>

fun web_events :: "web_env \<Rightarrow> gps_event list \<Rightarrow> web \<Rightarrow> web option" where
  "web_events env [] w = Some w"
| "web_events env (Request u text # evs) w = do { (_, w) \<leftarrow> WEBQuest env u text w; web_events env evs w }"
| "web_events env (_ # evs) w = web_events env evs w"

fun rgps_run :: "(nat \<Rightarrow> u32) \<Rightarrow> rgps_conf \<Rightarrow> rgps_input list list \<Rightarrow> rgps_proc \<Rightarrow> (rgps_proc \<times> gps_event list) option" where
  "rgps_run junk cf [] p = Some (p, [])"
| "rgps_run junk cf (inps # rounds) p = do {
     (p, evs) \<leftarrow> rgps_round junk cf inps p;
     (p, evs') \<leftarrow> rgps_run junk cf rounds p;
     Some (p, evs @ evs') }"

section \<open>Strings fit their arrays\<close>

text \<open>The arrays of the parser keep their sizes.\<close>

definition nmea_ok :: "nmea \<Rightarrow> bool" where
  "nmea_ok l \<longleftrightarrow> length (GPS_time l) = 9 \<and> length (GPS_wd l) = 20 \<and> length (GPS_jd l) = 12 \<and> length (GPS_alt l) = 8 \<and> length (GPS_sv l) = 3
     \<and> length (GPS_speed l) = 6 \<and> length (GPS_direction l) = 7 \<and> length (GPS_date l) = 9"

definition gps_ok :: "gps_struct \<Rightarrow> bool" where
  "gps_ok g \<longleftrightarrow> length (gps_Lng g) < 12 \<and> length (gps_Lat g) < 20 \<and> length (gps_Date g) < 11 \<and> length (gps_Time g) < 30
     \<and> length (gps_Velocity g) < 6 \<and> length (gps_Orientation g) < 7 \<and> length (gps_Elevation g) < 8 \<and> \<bar>gps_satellite g\<bar> < 100"

definition rgps_ok :: "rgps_proc \<Rightarrow> bool" where
  "rgps_ok p \<longleftrightarrow> gps_ok (rgps p) \<and> length (Timereport p) < 50"

named_theorems seg_defs

declare seg0_def [seg_defs] seg1_def [seg_defs] seg2_def [seg_defs] seg4_def [seg_defs] seg6_def [seg_defs] seg7_def [seg_defs]
  seg8_def [seg_defs] seg9_def [seg_defs] nmea_next_def [seg_defs] nmea_ok_def [seg_defs]

lemma put_length: "put xs i v = Some ys \<Longrightarrow> length ys = length xs"
  by (auto simp: put_def split: if_splits)

lemma put_str_length: "put_str n xs i ch = Some ys \<Longrightarrow> length ys = length xs"
  by (auto simp: put_str_def Option.bind_eq_Some_conv split: if_splits dest!: put_length)

lemma c_string_length: "c_string xs = Some s \<Longrightarrow> length s < length xs"
  by (induction xs arbitrary: s) (auto simp: c_string_def split: if_splits)

lemma copy_field_length: "copy_field n xs = Some s \<Longrightarrow> length s < length xs"
  by (auto simp: copy_field_def Option.bind_eq_Some_conv split: if_splits dest: c_string_length)

lemma fits_in_length: "fits_in n s = Some t \<longleftrightarrow> t = s \<and> length s < n"
  by (auto simp: fits_in_def)

lemma segs_ok:
  assumes "nmea_ok l"
  shows "nmea_ok (seg0 ch p l)" and "nmea_ok (seg6 ch l)" and "nmea_ok (nmea_next l)"
    and "seg1 ch l = Some l' \<Longrightarrow> nmea_ok l'" and "seg7 ch l = Some l' \<Longrightarrow> nmea_ok l'"
    and "seg8 ch l = Some l' \<Longrightarrow> nmea_ok l'" and "seg9 ch l = Some l' \<Longrightarrow> nmea_ok l'"
    and "seg2 buf l = Some (buf', l') \<Longrightarrow> nmea_ok l'" and "seg4 buf l = Some (buf', l') \<Longrightarrow> nmea_ok l'"
  using assms
  by (auto simp: seg_defs Let_def Option.bind_eq_Some_conv split: if_splits list.splits dest!: put_length put_str_length)

lemma nmea_switch_ok:
  assumes "nmea_switch buf p l = Some (buf', p', l')" and "nmea_ok l" and "rgps_ok p"
  shows "nmea_ok l' \<and> rgps_ok p'"
  using assms by (cases buf) (auto simp: nmea_switch_def rgps_ok_def gps_ok_def Option.bind_eq_Some_conv split: if_splits dest: segs_ok)

lemma print_timestr_ok: "print_timestr junk str g = Some g' \<Longrightarrow> \<exists>s. g' = g\<lparr>gps_Time := s\<rparr> \<and> length s < 30"
  unfolding print_timestr_def Let_def by (auto simp: fits_in_length Option.bind_eq_Some_conv)

lemma store_gga_ok:
  assumes "store_gga junk l p = Some p'" and "nmea_ok l" and "rgps_ok p"
  shows "rgps_ok p'"
proof -
  obtain str g sv lng lat alt f where s: "print_timestr junk str (rgps p) = Some g" "c_string (GPS_sv l) = Some sv"
    "copy_field 20 (GPS_jd l) = Some lng" "copy_field 20 (GPS_wd l) = Some lat" "copy_field 10 (GPS_alt l) = Some alt"
    and p': "p' = p\<lparr>rgps := g\<lparr>gps_satellite := atoi sv, gps_Lng := lng, gps_Lat := lat, gps_Elevation := alt\<rparr>, flag_GPGGA := f\<rparr>"
    using assms(1) by (simp add: store_gga_def Let_def Option.bind_eq_Some_conv) metis
  have "\<bar>atoi sv\<bar> < 100"
    using atoi_bound [of sv 2] c_string_length [OF s(2)] assms(2) by (simp add: nmea_ok_def)
  then show ?thesis
    using p' s(3-5) [THEN copy_field_length] print_timestr_ok [OF s(1)] assms(2,3) by (auto simp: rgps_ok_def gps_ok_def nmea_ok_def)
qed

lemma store_rmc_ok:
  assumes "store_rmc l p = Some p'" and "nmea_ok l" and "rgps_ok p"
  shows "rgps_ok p'"
proof -
  obtain v d r where s: "copy_field 10 (GPS_speed l) = Some v" "c_string (GPS_date l) = Some d" "copy_field 10 (GPS_direction l) = Some r"
    and p': "p' = p\<lparr>rgps := (rgps p)\<lparr>gps_Velocity := v, gps_Date := asc ''20'' @ d, gps_Orientation := r\<rparr>, flag_GPRMC := 1\<rparr>"
    using assms(1) by (auto simp: store_rmc_def fits_in_length Option.bind_eq_Some_conv)
  then show ?thesis
    using copy_field_length [OF s(1)] c_string_length [OF s(2)] copy_field_length [OF s(3)] assms(2,3)
    by (simp add: rgps_ok_def gps_ok_def nmea_ok_def asc_def)
qed

lemma nmea_end_ok: "nmea_end junk p l = Some p' \<Longrightarrow> nmea_ok l \<Longrightarrow> rgps_ok p \<Longrightarrow> rgps_ok p'"
  by (auto simp: nmea_end_def Option.bind_eq_Some_conv split: if_splits intro: store_gga_ok store_rmc_ok)

lemma nmea_loop_ok: "nmea_loop junk buf p l = Some p' \<Longrightarrow> nmea_ok l \<Longrightarrow> rgps_ok p \<Longrightarrow> rgps_ok p'"
proof (induction junk buf p l rule: nmea_loop.induct)
  case (1 junk buf p l)
  show ?case
  proof (cases "\<not> ReceivingF l \<or> buf = [] \<or> hd buf = 0")
    case True
    then show ?thesis
      using "1.prems" by (auto simp: nmea_loop.simps [of junk buf] neq_Nil_conv split: list.splits if_splits)
  next
    case False
    then obtain ch rest where b: "buf = ch # rest" "ch \<noteq> 0" "ReceivingF l"
      by (auto simp: neq_Nil_conv)
    define l1 where "l1 = (if ch = 44 then l\<lparr>Segment := Segment l + 1, Bytes_counter := 0\<rparr> else l)"
    define buf1 where "buf1 = (if ch = 44 then rest else buf)"
    have l1: "nmea_ok l1"
      using "1.prems"(2) by (simp add: l1_def nmea_ok_def)
    have run: "nmea_loop junk buf p l = (case buf1 of [] \<Rightarrow> None | ch1 # _ \<Rightarrow> if ch1 = 42 then nmea_end junk p l1
        else (case nmea_switch buf1 p l1 of None \<Rightarrow> None | Some (buf2, p2, l2) \<Rightarrow> nmea_loop junk (tl buf2) p2 (nmea_next l2)))"
      unfolding l1_def buf1_def using b by (subst nmea_loop.simps) (simp add: Let_def)
    show ?thesis
    proof (cases "buf1 = [] \<or> hd buf1 = 42 \<or> nmea_switch buf1 p l1 = None")
      case True
      then show ?thesis
        using "1.prems" nmea_end_ok [OF _ l1] by (auto simp: run neq_Nil_conv split: list.splits if_splits)
    next
      case False
      then obtain ch1 r buf2 p2 l2 where c: "buf1 = ch1 # r" "ch1 \<noteq> 42" "nmea_switch buf1 p l1 = Some (buf2, p2, l2)"
        by (auto simp: neq_Nil_conv)
      have "nmea_ok (nmea_next l2)" "rgps_ok p2"
        using nmea_switch_ok [OF c(3) l1 "1.prems"(3)] segs_ok(3) by simp_all
      moreover have "nmea_loop junk (tl buf2) p2 (nmea_next l2) = Some p'"
        using "1.prems"(1) c by (simp add: run)
      ultimately show ?thesis
        using "1.IH" [OF _ b(1,2) l1_def buf1_def c] b(3) by simp
    qed
  qed
qed

lemma print_gpsinfo_ok: "print_gpsinfo junk buf p = Some p' \<Longrightarrow> rgps_ok p \<Longrightarrow> rgps_ok p'"
  by (auto simp: print_gpsinfo_def Let_def nmea_ok_def nmea_init_def split: list.splits if_splits intro: nmea_loop_ok)

lemma rgps_lines_ok: "rgps_lines junk buf n i buf1 j p = Some p' \<Longrightarrow> rgps_ok p \<Longrightarrow> rgps_ok p'"
proof (induction n arbitrary: i buf1 j p)
  case (Suc n)
  then show ?case
    by (cases n) (auto simp: Option.bind_eq_Some_conv split: if_splits dest: print_gpsinfo_ok)
qed simp

lemma rgps_read_ok: "rgps_read junk data p = Some p' \<Longrightarrow> rgps_ok p \<Longrightarrow> rgps_ok p'"
  unfolding rgps_read_def Let_def by (auto split: if_splits intro: rgps_lines_ok)

section \<open>Printing stays inside the buffers\<close>

text \<open>A broken-down time as \<open>localtime\<close> fills it, up to the year 9999.\<close>

definition tm_ok :: "tm \<Rightarrow> bool" where
  "tm_ok t \<longleftrightarrow> 0 \<le> tm_year t \<and> tm_year t < 8100 \<and> tm_mon t \<in> {0..11} \<and> tm_mday t \<in> {1..31} \<and> tm_hour t \<in> {0..23}
     \<and> tm_min t \<in> {0..59} \<and> tm_sec t \<in> {0..60}"

lemma print_int_length:
  assumes "\<bar>n\<bar> < 10 ^ k" and "0 < k"
  shows "length (print_int n) \<le> k + 1"
proof -
  have "nat \<bar>n\<bar> < 10 ^ k"
    using assms(1) by (simp add: nat_less_iff)
  then show ?thesis
    using print_dec_length [OF _ assms(2), of "nat \<bar>n\<bar>"] by (cases "n < 0") (simp_all add: print_int_def)
qed

lemma print_02d_length: "0 \<le> n \<Longrightarrow> n < 100 \<Longrightarrow> length (print_02d n) \<le> 2"
  using print_dec_length [of "nat n" 2] by (auto simp: print_02d_def print_int_def Let_def)

lemma tm_lengths:
  assumes "tm_ok t"
  shows "length (date_str t) \<le> 10" and "length (time_str t) \<le> 8"
proof -
  have "length (print_4d (tm_year t + 1900)) \<le> 4"
    using assms print_dec_length [of "nat (tm_year t + 1900)" 4] by (auto simp: tm_ok_def print_4d_def print_int_def Let_def)
  then show "length (date_str t) \<le> 10"
    using assms print_02d_length [of "tm_mon t + 1"] print_02d_length [of "tm_mday t"] by (auto simp: tm_ok_def date_str_def)
  show "length (time_str t) \<le> 8"
    using assms print_02d_length [of "tm_hour t"] print_02d_length [of "tm_min t"] print_02d_length [of "tm_sec t"]
    by (auto simp: tm_ok_def time_str_def)
qed

lemma json_fields_length: "fs \<noteq> [] \<Longrightarrow> length (json_fields fs) + 1 = sum_list (map (\<lambda>(k, v). length k + length v + 6) fs)"
proof (induction fs rule: json_fields.induct)
  case (2 k v fs)
  then show ?case
    by (cases fs) (auto simp: quoted_def asc_def)
qed simp

lemma json_length: "fs \<noteq> [] \<Longrightarrow> length (json fs) = sum_list (map (\<lambda>(k, v). length k + length v + 6) fs) + 1"
  using json_fields_length [of fs] by (simp add: json_def)

lemma fits_in_Some: "length s < n \<Longrightarrow> fits_in n s = Some s"
  by (simp add: fits_in_def)

lemma gps_report_total:
  assumes "rgps_ok p" and "tm_ok t" and "\<bar>status\<bar> < 10"
  obtains status' p' evs where "gps_report t log url status p = Some (status', p', evs)" "rgps_ok p'" "\<bar>status'\<bar> < 10"
proof -
  define st where "st = (if \<not> hemispheres (rgps p) then 0 else status)"
  define at where "at = (if 10 = length (gps_Date (rgps p)) \<and> 8 = length (gps_Time (rgps p)) then gps_Date (rgps p) @ [45] @ gps_Time (rgps p)
    else if 8 = length (gps_Time (rgps p)) then date_str t @ [45] @ gps_Time (rgps p) else date_str t @ [45] @ time_str t)"
  have st: "\<bar>st\<bar> < 10" "length (print_int st) \<le> 2"
    using assms(3) print_int_length [of st 1] by (auto simp: st_def)
  have at: "length at \<le> 19" and g: "length (gps_Date (rgps p)) + length (gps_Time (rgps p)) < 49"
    using tm_lengths [OF assms(2)] assms(1) by (auto simp: at_def rgps_ok_def gps_ok_def)
  note fits = fits_in_Some json_length rgps_ok_def gps_ok_def
  have "\<exists>report evs. gps_report t log url status p = Some (st, p\<lparr>Timereport := report\<rparr>, evs) \<and> length report < 50"
  proof (cases "st = 0")
    case True
    then show ?thesis
      using st at unfolding gps_report_def Let_def st_def [symmetric] at_def [symmetric] by (intro exI [of _ at]) (simp add: fits)
  next
    case False
    then show ?thesis
      using assms(1) st g unfolding gps_report_def Let_def st_def [symmetric] at_def [symmetric]
      by (intro exI [of _ "gps_Date (rgps p) @ [45] @ gps_Time (rgps p)"]) (simp add: fits)
  qed
  then show thesis
    using assms(1) st(1) that by (auto simp: rgps_ok_def)
qed

lemma echo_cmd_total:
  "length logpath \<le> 180 \<Longrightarrow> length v < 50 \<Longrightarrow> length file \<le> 14 \<Longrightarrow> \<exists>e. echo_cmd logpath v file = Some e"
  by (simp add: echo_cmd_def fits_in_def asc_def)

lemma those_total: "\<forall>x \<in> set xs. \<exists>y. x = Some y \<Longrightarrow> \<exists>ys. those xs = Some ys"
  by (induction xs) auto

lemma gps_debug_total:
  assumes "rgps_ok p" and "\<bar>status\<bar> < 10" and "length logpath \<le> 180"
  shows "\<exists>evs. gps_debug logpath status p = Some evs"
proof -
  have "length (print_int status) < 50" "length (print_int (gps_satellite (rgps p))) < 50"
    using print_int_length [of status 1] print_int_length [of "gps_satellite (rgps p)" 2] assms(1,2) by (simp_all add: rgps_ok_def gps_ok_def)
  then show ?thesis
    using assms(1,3) unfolding gps_debug_def Let_def by (intro those_total) (auto simp: rgps_ok_def gps_ok_def intro!: echo_cmd_total)
qed

lemma report_debug_total:
  assumes "rgps_ok p" and "tm_ok t" and "\<bar>status\<bar> < 10" and "length (cf_path cf) \<le> 180"
  shows "\<exists>p' evs. report_debug cf t status p = Some (p', evs) \<and> rgps_ok p'"
proof -
  obtain status' p' evs where r: "gps_report t (cf_log cf) (cf_url cf) status p = Some (status', p', evs)" "rgps_ok p'" "\<bar>status'\<bar> < 10"
    by (rule gps_report_total [OF assms(1-3)])
  then show ?thesis
    using gps_debug_total [OF r(2,3) assms(4)] by (auto simp: report_debug_def)
qed

text \<open>A pass fails only in the parser: when the clock and the log path are in range, everything printed fits.\<close>

lemma rgps_passes_ok:
  assumes "rgps_ok p" and "\<forall>inp \<in> set inps. tm_ok (rd_now inp)" and "length (cf_path cf) \<le> 180"
    and "rgps_passes junk cf inps p = Some (p', evs)"
  shows "rgps_ok p'"
  using assms
proof (induction inps arbitrary: p)
  case (Cons inp inps)
  then obtain q where q: "rgps_read junk (rd_data inp) p = Some q"
    by (auto simp: Option.bind_eq_Some_conv)
  note ok = rgps_read_ok [OF q Cons.prems(1)]
  have "rgps_ok p'" if "report_debug cf (rd_now inp) s q = Some (p', evs)" "\<bar>s\<bar> < 10" for s
    using report_debug_total [OF ok _ that(2) assms(3), of "rd_now inp"] that(1) Cons.prems(2) by auto
  then show ?case
    using Cons ok q by (auto split: if_splits)
qed simp

lemma rgps_run_ok:
  assumes "rgps_ok p" and "\<forall>inps \<in> set rounds. \<forall>inp \<in> set inps. tm_ok (rd_now inp)" and "length (cf_path cf) \<le> 180"
    and "rgps_run junk cf rounds p = Some (p', evs)"
  shows "rgps_ok p'"
  using assms
proof (induction rounds arbitrary: p evs)
  case (Cons inps rounds)
  then obtain q evs1 evs2 where q: "rgps_round junk cf inps p = Some (q, evs1)" "rgps_run junk cf rounds q = Some (p', evs2)"
    by (auto simp: Option.bind_eq_Some_conv)
  have "rgps_ok (p\<lparr>flag_GPGGA := 0, flag_GPRMC := 0\<rparr>)"
    using Cons.prems(1) by (simp add: rgps_ok_def)
  then show ?case
    using Cons q rgps_passes_ok [of "p\<lparr>flag_GPGGA := 0, flag_GPRMC := 0\<rparr>" inps cf junk q evs1] by (auto simp: rgps_round_def)
qed simp

text \<open>C20: the main loop without a URL. In every state it reaches on a run in which the parser stays inside its arrays (those it does
  not survive are undefined here, as in the two overflow properties), each string fits the array that holds it, and another
  report, valid or not, with its nine status files is printed without leaving a buffer. So the reports add no overflow of
  their own. The clock must read a year before 10000 and the path of the status files have at most 180 characters. With a
  URL the report also goes into a request, whose text is used as a format, see \<open>web_format_string\<close>.\<close>

theorem rgps_state_fits:
  assumes "rgps_run junk cf rounds rgps_start = Some (p, evs)" and "cf_url cf = None"
    and "\<forall>inps \<in> set rounds. \<forall>inp \<in> set inps. tm_ok (rd_now inp)" and "length (cf_path cf) \<le> 180" and "tm_ok t" and "status \<in> {0, 1}"
  shows "rgps_ok p \<and> (\<exists>p' evs'. report_debug cf t status p = Some (p', evs'))"
proof -
  have "rgps_ok rgps_start"
    by (simp add: rgps_ok_def gps_ok_def rgps_start_def)
  then have "rgps_ok p"
    using assms(1,3,4) rgps_run_ok by blast
  then show ?thesis
    using report_debug_total [of p t status cf] assms(4-6) by auto
qed

definition sample_tm :: tm where
  "sample_tm = \<lparr>tm_year = 114, tm_mon = 10, tm_mday = 26, tm_hour = 9, tm_min = 7, tm_sec = 16\<rparr>"

definition sample_conf :: rgps_conf where
  "sample_conf = \<lparr>cf_log = False, cf_url = None, cf_path = asc ''/tmp/.gps''\<rparr>"

definition sample_input :: rgps_input where
  "sample_input = \<lparr>rd_data = asc ''$GPGGA,1,2,N,3,E,1*'' @ [10] @ asc ''$GPRMC,1,A*'' @ [10], rd_elapsed = 0, rd_now = sample_tm\<rparr>"

lemma sample_run: "case rgps_run (\<lambda>_. 0) sample_conf [[sample_input]] rgps_start of None \<Rightarrow> False | Some (p, evs) \<Rightarrow> valid_script \<in> set evs"
  by code_simp

theorem rgps_state_fits_witness:
  "\<exists>p evs p' evs'. rgps_run (\<lambda>_. 0) sample_conf [[sample_input]] rgps_start = Some (p, evs) \<and> valid_script \<in> set evs \<and> rgps_ok p
     \<and> report_debug sample_conf sample_tm 1 p = Some (p', evs')"
proof -
  have "tm_ok sample_tm" "length (cf_path sample_conf) \<le> 180" "cf_url sample_conf = None" "rd_now sample_input = sample_tm"
    by (simp_all add: tm_ok_def sample_tm_def sample_conf_def sample_input_def asc_def)
  moreover obtain p evs where "rgps_run (\<lambda>_. 0) sample_conf [[sample_input]] rgps_start = Some (p, evs)" "valid_script \<in> set evs"
    using sample_run by (auto split: option.splits)
  ultimately show ?thesis
    using rgps_state_fits [of "\<lambda>_. 0" sample_conf "[[sample_input]]" p evs sample_tm 1] by auto
qed

section \<open>Requests\<close>

lemma c_string_padded: "0 \<notin> set a \<Longrightarrow> 0 < n \<Longrightarrow> c_string (a @ replicate n 0) = Some a"
  by (cases n) (simp_all add: c_string_def takeWhile_append)

lemma web_addr_one: "0 \<notin> set a \<Longrightarrow> length a < 32 \<Longrightarrow> web_addr [a] (replicate 32 0) = Some a"
  using c_string_padded [of a "32 - length a"] by simp

text \<open>A host with several addresses: a shorter one leaves the end of a longer one behind it.\<close>

theorem web_addr_mixes:
  assumes "0 \<notin> set a" and "0 \<notin> set b" and "length b < length a" and "length a < 32"
  shows "web_addr [a, b] (replicate 32 0) = Some (b @ drop (length b) a)"
proof -
  have "0 \<notin> set (b @ drop (length b) a)"
    using assms(1,2) by (auto dest: in_set_dropD)
  then show ?thesis
    using c_string_padded [of "b @ drop (length b) a" "32 - length a"] assms(3,4) by simp
qed

text \<open>A server that does not answer costs a descriptor for every report: the socket is closed only after \<open>connect\<close> succeeded.\<close>

theorem web_failures_leak:
  assumes "we_gethostbyname env u = Some [a]" and "0 \<notin> set a" and "length a < 32" and "we_socket env" and "\<not> we_connect env a"
  shows "web_events env (replicate n (Request u text)) w = Some (w\<lparr>wb_open := wb_open w + n\<rparr>)"
proof (induction n arbitrary: w)
  case (Suc n)
  have "WEBQuest env u text w = Some (1, w\<lparr>wb_open := wb_open w + 1\<rparr>)"
    using assms(1,4,5) web_addr_one [OF assms(2,3)] by (simp add: WEBQuest_def Let_def)
  then show ?case
    using Suc by simp
qed simp

lemma format_plain_free: "37 \<notin> set s \<Longrightarrow> format_plain s"
  by (induction s rule: format_plain.induct) auto

lemma format_plain_prefix: "37 \<notin> set s \<Longrightarrow> format_plain (s @ t) \<longleftrightarrow> format_plain t"
proof (induction s)
  case (Cons a s)
  then show ?case
    by (cases "s @ t") (auto simp del: append_is_Nil_conv)
qed simp

text \<open>With a server that answers, each report is one request, and no descriptor stays open, as long as there is no \<open>'%'\<close> in it.\<close>

theorem web_delivers:
  assumes "we_gethostbyname env u = Some [a]" and "0 \<notin> set a" and "length a < 32" and "we_socket env" and "we_bind env"
    and "we_inet_aton env a" and "we_connect env a" and "we_send env" and "length u + length text < 900"
    and "37 \<notin> set u" and "37 \<notin> set text"
  shows "WEBQuest env u text w = Some (0, w\<lparr>wb_sent := wb_sent w @ [(a, web_head u text)],
    wb_log := wb_log w @ (if we_log env then [web_head u text] else [])\<rparr>)"
proof -
  have "37 \<notin> set (web_head u text)"
    using assms(10,11) by (simp add: web_head_def asc_def)
  then have "format_plain (web_head u text)"
    by (rule format_plain_free)
  moreover have "length (web_head u text) < 1024"
    using assms(9) by (simp add: web_head_def asc_def)
  ultimately show ?thesis
    using assms(1,4-8) web_addr_one [OF assms(2,3)] by (simp add: WEBQuest_def Let_def fits_in_def BUFFSIZE_H_def)
qed

text \<open>The text of a report comes from the receiver. A single \<open>'%'\<close> in it makes the request undefined, once the server has accepted the
  connection.\<close>

theorem web_format_string:
  assumes "we_gethostbyname env u = Some [a]" and "0 \<notin> set a" and "length a < 32" and "we_socket env" and "we_bind env"
    and "we_inet_aton env a" and "we_connect env a" and "37 \<notin> set xs" and "ch \<noteq> 37"
  shows "WEBQuest env u (xs @ [37, ch] @ ys) w = None"
proof -
  have "\<not> format_plain (web_head u (xs @ [37, ch] @ ys))"
    using format_plain_prefix [of "asc ''POST /'' @ xs"] assms(8,9) by (simp add: web_head_def asc_def)
  then show ?thesis
    using assms(1,4-7) web_addr_one [OF assms(2,3)] by (auto simp: WEBQuest_def Let_def fits_in_def)
qed

lemma rgps_options_interval: "rgps_options opts os = Some os' \<Longrightarrow> op_intval os \<in> {5..300} \<Longrightarrow> op_intval os' \<in> {5..300}"
  by (induction opts os rule: rgps_options.induct) (auto simp: Let_def split: if_splits)

end
