(* ===== verification/Loopcheck.thy ===== *)
theory Loopcheck
  imports Os_Cmd Os_Libc "HOL-Library.Monad_Syntax"
begin

text \<open>
  The Ethernet loop test \<open>loopcheck\<close> (\<open>smalltool\<close>): it sends frames of random bytes out of an interface and expects each
  of them back. The socket is a parameter: what \<open>write\<close>, \<open>select\<close> and \<open>read\<close> do to the state of the wire; \<open>select\<close>
  stores the time that is left, as it does on Linux. An interface name that does not fit its array is \<open>None\<close>. The code prints the
  name into the request with itself as the format; names are taken to have no \<open>'%'\<close>, as interface names do.
\<close>

section \<open>The code\<close>

definition LOOP_TYPE :: u16 where "LOOP_TYPE = 0x5a5a"
definition MAX_SIZE :: nat where "MAX_SIZE = 1024"

datatype lc_result = Help | ParamErr | SocketFailed | IfreqFailed | BindFailed | SelectFailed | RecvTimeout | FdNotSet
  | DataErr | DataLost | Success

record lc_opts =
  lc_iface :: "u8 list"
  lc_retry :: int
  lc_pkt_size :: int
  lc_debug :: int

record 'w lc_env =
  lc_socket :: bool
  lc_ioctl :: "u8 list \<Rightarrow> bool"
  lc_bind :: bool
  lc_time :: "nat \<Rightarrow> nat"
  lc_rand :: "nat \<Rightarrow> nat \<Rightarrow> nat"
  lc_write :: "u8 list \<Rightarrow> 'w \<Rightarrow> int \<times> 'w"
  lc_select :: "nat \<Rightarrow> 'w \<Rightarrow> int \<times> bool \<times> nat \<times> 'w"
  lc_read :: "'w \<Rightarrow> int \<times> u8 list \<times> 'w"

text \<open>The options \<open>getopt\<close> delivers. \<open>Inl\<close> is a result the program ends with.\<close>

fun lc_options :: "(char \<times> u8 list) list \<Rightarrow> lc_opts \<Rightarrow> (lc_result + lc_opts) option" where
  "lc_options [] os = Some (Inr os)"
| "lc_options ((ch, optarg) # opts) os =
     (if ch = CHR ''i'' then (if length optarg < 16 then lc_options opts (os\<lparr>lc_iface := optarg\<rparr>) else None)
      else if ch = CHR ''r'' then lc_options opts (os\<lparr>lc_retry := atoi optarg\<rparr>)
      else if ch = CHR ''s'' then lc_options opts (os\<lparr>lc_pkt_size := atoi optarg\<rparr>)
      else if ch = CHR ''d'' then lc_options opts (os\<lparr>lc_debug := atoi optarg\<rparr>)
      else Some (Inl Help))"

text \<open>\<open>genrand\<close> seeds the generator with the time of every call.\<close>

definition genrand :: "'w lc_env \<Rightarrow> nat \<Rightarrow> nat \<Rightarrow> u8 list" where
  "genrand env k count = map (\<lambda>i. word_of_nat (lc_rand env (lc_time env k) i mod 128)) [0..<count]"

definition eth_header :: "u8 list" where
  "eth_header = replicate 6 0xff @ [0x1f, 0x2f, 0x3f, 0x4f, 0x5f, 0x6f] @ [ucast (drop_bit 8 LOOP_TYPE), ucast LOOP_TYPE]"

text \<open>One pass: \<open>tv\<close> is the time left for all the passes, in microseconds. \<open>Inl\<close> leaves the loop.\<close>

definition lc_pass :: "'w lc_env \<Rightarrow> nat \<Rightarrow> nat \<Rightarrow> nat \<times> 'w \<Rightarrow> lc_result + nat \<times> 'w" where
  "lc_pass env pkt_size k st = (case st of (tv, w) \<Rightarrow>
     let data = genrand env k pkt_size;
         (w_ret, w) = lc_write env (eth_header @ data) w;
         (ret, isset, tv, w) = lc_select env tv w
     in if ret < 0 then Inl SelectFailed
        else if ret = 0 then Inl RecvTimeout
        else if \<not> isset then Inl FdNotSet
        else
          let (r_ret, rbuf, w) = lc_read env w
          in if r_ret > 0 then
               if w_ret = r_ret then
                 if data \<noteq> take pkt_size (drop (length eth_header) (take MAX_SIZE rbuf) @ replicate MAX_SIZE 0) then Inl DataErr
                 else Inr (tv, w)
               else Inl DataLost
             else Inr (tv, w))"

text \<open>\<open>while (retry--)\<close>; \<open>k\<close> counts the passes done.\<close>

fun lc_loop :: "'w lc_env \<Rightarrow> nat \<Rightarrow> nat \<Rightarrow> nat \<Rightarrow> nat \<times> 'w \<Rightarrow> lc_result" where
  "lc_loop env pkt_size 0 k st = Success"
| "lc_loop env pkt_size (Suc retry) k st = (case lc_pass env pkt_size k st of
      Inl r \<Rightarrow> r
    | Inr st \<Rightarrow> lc_loop env pkt_size retry (k + 1) st)"

definition loopcheck :: "'w lc_env \<Rightarrow> (char \<times> u8 list) list \<Rightarrow> 'w \<Rightarrow> lc_result option" where
  "loopcheck env opts w = do {
     r \<leftarrow> lc_options opts \<lparr>lc_iface = [], lc_retry = 0, lc_pkt_size = 0, lc_debug = 0\<rparr>;
     Some (case r of
         Inl res \<Rightarrow> res
       | Inr os \<Rightarrow>
           if lc_pkt_size os > 512 \<or> lc_pkt_size os < 64 \<or> lc_retry os \<le> 0 then ParamErr
           else if \<not> lc_socket env then SocketFailed
           else if \<not> lc_ioctl env (lc_iface os) then IfreqFailed
           else if \<not> lc_bind env then BindFailed
           else lc_loop env (nat (lc_pkt_size os)) (nat (lc_retry os)) 0 (2000000, w)) }"

section \<open>A cable\<close>

text \<open>A wire that brings every frame back after \<open>d\<close> microseconds, changed by \<open>f\<close>. Its state is the frames under way.\<close>

definition cable :: "(u8 list \<Rightarrow> u8 list) \<Rightarrow> nat \<Rightarrow> u8 list list lc_env \<Rightarrow> bool" where
  "cable f d env \<longleftrightarrow> lc_socket env \<and> lc_bind env \<and> (\<forall>n. lc_ioctl env n)
     \<and> lc_write env = (\<lambda>fr q. (int (length fr), q @ [f fr]))
     \<and> lc_select env = (\<lambda>tv q. if q \<noteq> [] \<and> d \<le> tv then (1, True, tv - d, q) else (0, False, 0, q))
     \<and> lc_read env = (\<lambda>q. (int (length (hd q)), hd q, tl q))"

definition sent :: "'w lc_env \<Rightarrow> nat \<Rightarrow> nat \<Rightarrow> u8 list" where
  "sent env n k = eth_header @ genrand env k n"

lemma length_header: "length eth_header = 14"
  by (simp add: eth_header_def)

lemma length_genrand: "length (genrand env k n) = n"
  by (simp add: genrand_def)

lemma cable_pass:
  assumes "cable f d env" and "n \<le> 512" and "length (f (sent env n k)) = length (sent env n k)"
  shows "lc_pass env n k (tv, []) = (if tv < d then Inl RecvTimeout
    else if drop 14 (f (sent env n k)) \<noteq> drop 14 (sent env n k) then Inl DataErr else Inr (tv - d, []))"
proof -
  have len: "length (sent env n k) = 14 + n"
    by (simp add: sent_def length_header length_genrand)
  then have "take n (drop 14 (take MAX_SIZE (f (sent env n k))) @ replicate MAX_SIZE 0) = drop 14 (f (sent env n k))"
    using assms(2,3) by (simp add: MAX_SIZE_def)
  moreover have "drop 14 (sent env n k) = genrand env k n"
    by (simp add: sent_def length_header)
  ultimately show ?thesis
    using assms(1,3) len by (auto simp: lc_pass_def cable_def Let_def length_header length_genrand sent_def [symmetric])
qed

lemma cable_loop:
  assumes "cable f d env" and "n \<le> 512" and "\<And>fr. length (f fr) = length fr"
  shows "lc_loop env n r k (tv, []) = Success
    \<longleftrightarrow> r * d \<le> tv \<and> (\<forall>i < r. drop 14 (f (sent env n (k + i))) = drop 14 (sent env n (k + i)))"
proof (induction r arbitrary: k tv)
  case (Suc r)
  let ?P = "\<lambda>i. drop 14 (f (sent env n i)) = drop 14 (sent env n i)"
  have all: "(\<forall>i < Suc r. ?P (k + i)) \<longleftrightarrow> ?P k \<and> (\<forall>i < r. ?P (k + 1 + i))"
    by (auto simp: less_Suc_eq_0_disj)
  have time: "Suc r * d \<le> tv \<longleftrightarrow> d \<le> tv \<and> r * d \<le> tv - d"
    by auto
  show ?case
    unfolding all time using cable_pass [OF assms(1,2,3), of k tv] Suc [of "k + 1" "tv - d"] by simp
qed simp

lemma lc_options_ok:
  "length ifn < 16 \<Longrightarrow> lc_options [(CHR ''i'', ifn), (CHR ''r'', r), (CHR ''s'', s)] os
     = Some (Inr (os\<lparr>lc_iface := ifn, lc_retry := atoi r, lc_pkt_size := atoi s\<rparr>))"
  by simp

text \<open>C22: what a successful test means. On a cable that brings every frame back with a fixed delay, \<open>loopcheck\<close> reports success exactly
  when no payload was changed and all the passes together waited at most two seconds: the time for \<open>select\<close>
  is set once, before the loop.\<close>

theorem loopcheck_cable:
  assumes "cable f d env" and "\<And>fr. length (f fr) = length fr" and "length ifn < 16"
    and "64 \<le> atoi s" and "atoi s \<le> 512" and "0 < atoi r"
  shows "loopcheck env [(CHR ''i'', ifn), (CHR ''r'', r), (CHR ''s'', s)] [] = Some Success
    \<longleftrightarrow> atoi r * int d \<le> 2000000
      \<and> (\<forall>k < nat (atoi r). drop 14 (f (sent env (nat (atoi s)) k)) = drop 14 (sent env (nat (atoi s)) k))"
proof -
  have "loopcheck env [(CHR ''i'', ifn), (CHR ''r'', r), (CHR ''s'', s)] []
      = Some (lc_loop env (nat (atoi s)) (nat (atoi r)) 0 (2000000, []))"
    using assms(1,3-6) by (simp add: loopcheck_def lc_options_ok cable_def del: lc_options.simps)
  moreover have "nat (atoi r) * d \<le> 2000000 \<longleftrightarrow> atoi r * int d \<le> 2000000"
    using assms(6) by (simp flip: of_nat_le_iff [where 'a = int])
  ultimately show ?thesis
    using cable_loop [OF assms(1) _ assms(2), of "nat (atoi s)" "nat (atoi r)" 0 2000000] assms(5) by simp
qed

definition sample_cable :: "u8 list list lc_env" where
  "sample_cable = \<lparr>lc_socket = True, lc_ioctl = (\<lambda>_. True), lc_bind = True, lc_time = (\<lambda>k. k), lc_rand = (\<lambda>s i. s + i),
     lc_write = (\<lambda>fr q. (int (length fr), q @ [fr])),
     lc_select = (\<lambda>tv q. if q \<noteq> [] \<and> 500000 \<le> tv then (1, True, tv - 500000, q) else (0, False, 0, q)),
     lc_read = (\<lambda>q. (int (length (hd q)), hd q, tl q))\<rparr>"

theorem loopcheck_cable_witness:
  "loopcheck sample_cable [(CHR ''i'', asc ''eth0''), (CHR ''r'', asc ''4''), (CHR ''s'', asc ''64'')] [] = Some Success
   \<and> loopcheck sample_cable [(CHR ''i'', asc ''eth0''), (CHR ''r'', asc ''5''), (CHR ''s'', asc ''64'')] [] \<noteq> Some Success"
proof -
  have c: "cable (\<lambda>fr. fr) 500000 sample_cable"
    by (simp add: cable_def sample_cable_def)
  have n: "atoi (asc ''64'') = 64" "atoi (asc ''4'') = 4" "atoi (asc ''5'') = 5"
    by code_simp+
  have i: "length (asc ''eth0'') < 16"
    by (simp add: asc_def)
  show ?thesis
    using loopcheck_cable [OF c refl i, of "asc ''64''"] n by auto
qed

end
