(* ===== verification/Gobi_Gps.thy ===== *)
theory Gobi_Gps
  imports Os_Cmd Os_Libc "HOL-Library.Monad_Syntax" Complex_Main
begin

unbundle bit_operations_syntax

text \<open>
  The program \<open>gps\<close> that drives the receiver of the modem (\<open>gobi_apps/src/gps.c\<close>, \<open>gpsmain.c\<close>). It asks the modem for
  positions and handles what the modem indicates: NMEA sentences go to a file that is cut back when it is
  longer than 2048 bytes, satellites are counted. The modem library is a parameter: how the bytes of an indication
  are decoded; so is the shell: what it appends for a command and what the size pipeline prints.
\<close>

section \<open>The code\<close>

subsection \<open>Indications\<close>

definition QMI_LOC_EVENT_POSITION_REPORT_IND_V02 :: nat where "QMI_LOC_EVENT_POSITION_REPORT_IND_V02 = 0x24"
definition QMI_LOC_EVENT_GNSS_SV_INFO_IND_V02 :: nat where "QMI_LOC_EVENT_GNSS_SV_INFO_IND_V02 = 0x25"
definition QMI_LOC_EVENT_NMEA_IND_V02 :: nat where "QMI_LOC_EVENT_NMEA_IND_V02 = 0x26"

text \<open>The fields of a satellite that are read. A finite \<open>float\<close> is a rational number.\<close>

record sv_info =
  sv_validMask :: u32
  sv_system :: nat
  sv_snr :: rat

record sv_ind =
  svList_valid :: bool
  svList :: "sv_info list"

record gps_lib =
  gl_decode_pos :: "u8 list \<Rightarrow> bool"
  gl_decode_nmea :: "u8 list \<Rightarrow> u8 list option"
  gl_decode_sv :: "u8 list \<Rightarrow> sv_ind option"
  gl_echo :: "u8 list \<Rightarrow> u8 list"
  gl_size :: "u8 list \<Rightarrow> u8 list option"

record gps_state =
  nmea_file :: "u8 list"
  total_sv :: int
  total_good_sv :: int

text \<open>The command, if it fits \<open>cmd[128]\<close>. \<open>gl_echo\<close> is what the shell appends for it; \<open>gl_size\<close> what the pipeline leaves in the size
  file, \<open>None\<close> when that cannot be opened.\<close>

definition nmea_cmd :: "u8 list \<Rightarrow> u8 list option" where
  "nmea_cmd nmea =
     (let cmd = asc ''echo '' @ [34, 92] @ nmea @ [34] @ asc '' >> /var/run/nmea''
      in if length cmd < 128 then Some cmd else None)"

definition gps_event_nmea_ind :: "gps_lib \<Rightarrow> u8 list \<Rightarrow> gps_state \<Rightarrow> gps_state option" where
  "gps_event_nmea_ind lib nmea st = do {
     cmd \<leftarrow> nmea_cmd nmea;
     let st = st\<lparr>nmea_file := nmea_file st @ gl_echo lib cmd\<rparr>;
     Some (case gl_size lib (nmea_file st) of
         None \<Rightarrow> st
       | Some txt \<Rightarrow> if atoi (take 20 txt) > 2048 then st\<lparr>nmea_file := [10]\<rparr> else st) }"

definition sv_counted :: "sv_info \<Rightarrow> bool" where
  "sv_counted s \<longleftrightarrow> sv_validMask s AND 0x01 \<noteq> 0 \<and> sv_validMask s AND 0x02 \<noteq> 0 \<and> sv_validMask s AND 0x80 \<noteq> 0 \<and> sv_system s = 1"

fun sv_loop :: "sv_info list \<Rightarrow> int \<times> int \<Rightarrow> int \<times> int" where
  "sv_loop [] c = c"
| "sv_loop (s # ss) (sv, good_sv) =
     sv_loop ss (if sv_counted s then (sv + 1, if sv_snr s > 30 then good_sv + 1 else good_sv) else (sv, good_sv))"

text \<open>The totals are signed: a sum that does not fit an \<open>int\<close> is undefined.\<close>

definition gps_event_sv_ind :: "sv_ind \<Rightarrow> gps_state \<Rightarrow> gps_state option" where
  "gps_event_sv_ind ind st =
     (if \<not> svList_valid ind then Some st
      else let (sv, good_sv) = sv_loop (svList ind) (0, 0)
           in if total_sv st + sv < 2 ^ 31 \<and> total_good_sv st + good_sv < 2 ^ 31
              then Some (st\<lparr>total_sv := total_sv st + sv, total_good_sv := total_good_sv st + good_sv\<rparr>)
              else None)"

text \<open>The other indications only write to the log. A sentence that cannot be decoded is the empty one.\<close>

definition gps_ind_handler :: "gps_lib \<Rightarrow> nat \<Rightarrow> u8 list \<Rightarrow> gps_state \<Rightarrow> gps_state option" where
  "gps_ind_handler lib msg_id ind_buf st =
     (if msg_id = QMI_LOC_EVENT_NMEA_IND_V02 then
        gps_event_nmea_ind lib (case gl_decode_nmea lib ind_buf of Some nmea \<Rightarrow> nmea | None \<Rightarrow> []) st
      else if msg_id = QMI_LOC_EVENT_GNSS_SV_INFO_IND_V02 then
        (case gl_decode_sv lib ind_buf of None \<Rightarrow> Some st | Some ind \<Rightarrow> gps_event_sv_ind ind st)
      else Some st)"

fun gps_inds :: "gps_lib \<Rightarrow> (nat \<times> u8 list) list \<Rightarrow> gps_state \<Rightarrow> gps_state option" where
  "gps_inds lib [] st = Some st"
| "gps_inds lib ((msg_id, buf) # inds) st = do { st \<leftarrow> gps_ind_handler lib msg_id buf st; gps_inds lib inds st }"

subsection \<open>The main program\<close>

datatype gps_call = Usage | Wncqmi_init | Reg_events "64 word" | Set_operation_mode int | Start_req nat nat nat
  | Killall | Statistics

definition gps_start_req :: gps_call where
  "gps_start_req = Start_req 0 1 3"

definition gps_set_oper_mode_req :: "int \<Rightarrow> gps_call" where
  "gps_set_oper_mode_req mode = Set_operation_mode mode"

definition gps_event_reg :: gps_call where
  "gps_event_reg = Reg_events 0xffffffffffffffff"

text \<open>\<open>once\<close> is the static flag of \<open>initGPSResp\<close>.\<close>

definition initGPSResp :: "bool \<Rightarrow> gps_call list \<times> bool" where
  "initGPSResp once = (if \<not> once then ([], once) else ([gps_event_reg], False))"

definition gps_begin :: "bool \<times> bool \<Rightarrow> gps_call list \<times> bool \<times> bool" where
  "gps_begin s = (case s of (gps_start, once) \<Rightarrow>
     if \<not> gps_start then
       let (reg, once) = initGPSResp once
       in ([Wncqmi_init] @ reg @ [gps_set_oper_mode_req 4, gps_start_req], True, once)
     else ([], gps_start, once))"

text \<open>One pass of the \<open>do\<close> loop: the calls made, the flags, and whether the loop ends.\<close>

definition gps_pass :: "u8 list \<Rightarrow> bool \<times> bool \<Rightarrow> gps_call list \<times> (bool \<times> bool) \<times> bool" where
  "gps_pass arg s =
     (if arg = asc ''-on'' then let (cs, s) = gps_begin s in (cs, s, False)
      else if arg = asc ''-off'' then ([Killall], s, True)
      else if arg = asc ''-sv'' then let (cs, s) = gps_begin s in (cs @ [Statistics], s, False)
      else ([], s, True))"

text \<open>The first \<open>n\<close> passes, or fewer when the loop ends.\<close>

fun gps_passes :: "nat \<Rightarrow> u8 list \<Rightarrow> bool \<times> bool \<Rightarrow> gps_call list" where
  "gps_passes 0 arg s = []"
| "gps_passes (Suc n) arg s = (case gps_pass arg s of (cs, s, fin) \<Rightarrow> cs @ (if fin then [] else gps_passes n arg s))"

definition gps_main :: "nat \<Rightarrow> u8 list option \<Rightarrow> gps_call list" where
  "gps_main n arg = (case arg of None \<Rightarrow> [Usage] | Some arg \<Rightarrow> gps_passes n arg (False, True))"

section \<open>The file stays short\<close>

text \<open>What the pipeline prints: the size of the file.\<close>

definition size_ok :: "gps_lib \<Rightarrow> bool" where
  "size_ok lib \<longleftrightarrow> (\<forall>file. gl_size lib file = Some (print_dec (length file) @ [10]))"

text \<open>The command is a line for the shell with the sentence in double quotes, behind a backslash that is meant for the \<open>'$'\<close> every sentence
  begins with. The shell prints what stands there and a newline, if the rest of the sentence has none of the characters that keep a meaning
  inside double quotes.\<close>

definition shell_literal :: "u8 \<Rightarrow> bool" where
  "shell_literal ch \<longleftrightarrow> ch \<notin> {0, 34, 36, 92, 96}"

definition echo_literal :: "gps_lib \<Rightarrow> bool" where
  "echo_literal lib \<longleftrightarrow> (\<forall>rest. (\<forall>ch \<in> set rest. shell_literal ch) \<longrightarrow>
     gl_echo lib (asc ''echo '' @ [34, 92] @ (36 # rest) @ [34] @ asc '' >> /var/run/nmea'') = 36 # rest @ [10])"

definition literal_sentence :: "u8 list \<Rightarrow> bool" where
  "literal_sentence nmea \<longleftrightarrow> length nmea < 103 \<and> take 1 nmea = [36] \<and> (\<forall>ch \<in> set (tl nmea). shell_literal ch)"

text \<open>The file as it should develop: a line for each sentence, emptied to one newline when it gets longer than 2048 bytes.\<close>

definition file_add :: "u8 list \<Rightarrow> u8 list \<Rightarrow> u8 list" where
  "file_add fl nmea = (let fl = fl @ nmea @ [10] in if length fl > 2048 then [10] else fl)"

text \<open>The sentence of an indication, and the satellites it adds.\<close>

definition sentence :: "gps_lib \<Rightarrow> u8 list \<Rightarrow> u8 list" where
  "sentence lib buf = (case gl_decode_nmea lib buf of Some nmea \<Rightarrow> nmea | None \<Rightarrow> [])"

definition sentences :: "gps_lib \<Rightarrow> (nat \<times> u8 list) list \<Rightarrow> u8 list list" where
  "sentences lib inds = map (\<lambda>ind. sentence lib (snd ind)) (filter (\<lambda>ind. fst ind = QMI_LOC_EVENT_NMEA_IND_V02) inds)"

definition seen :: "gps_lib \<Rightarrow> nat \<times> u8 list \<Rightarrow> sv_info list" where
  "seen lib ind = (if fst ind = QMI_LOC_EVENT_GNSS_SV_INFO_IND_V02
     then (case gl_decode_sv lib (snd ind) of None \<Rightarrow> [] | Some i \<Rightarrow> if svList_valid i then filter sv_counted (svList i) else []) else [])"

definition good :: "sv_info list \<Rightarrow> sv_info list" where
  "good ss = filter (\<lambda>s. sv_snr s > 30) ss"

lemma good_simps [simp]: "good [] = []" "good (ss @ ss') = good ss @ good ss'"
  by (simp_all add: good_def)

lemma good_length: "length (good ss) \<le> length ss"
  by (simp add: good_def)

lemma sv_loop_counts: "sv_loop ss (m, n) = (m + int (length (filter sv_counted ss)), n + int (length (good (filter sv_counted ss))))"
  by (induction ss arbitrary: m n) (auto simp: good_def)

lemma nmea_cmd_iff: "nmea_cmd nmea = None \<longleftrightarrow> 103 \<le> length nmea"
  by (auto simp: nmea_cmd_def asc_def)

lemma file_add_length: "length (file_add fl nmea) \<le> 2048"
  by (simp add: file_add_def Let_def)

lemma nmea_ind_adds:
  assumes "size_ok lib" and "echo_literal lib" and "literal_sentence nmea" and "length (nmea_file st) \<le> 2048"
  shows "gps_event_nmea_ind lib nmea st = Some (st\<lparr>nmea_file := file_add (nmea_file st) nmea\<rparr>)"
proof -
  obtain rest where rest: "nmea = 36 # rest" "\<forall>ch \<in> set rest. shell_literal ch" "length nmea < 103"
    using assms(3) by (cases nmea) (auto simp: literal_sentence_def)
  define cmd where "cmd = asc ''echo '' @ [34, 92] @ (36 # rest) @ [34] @ asc '' >> /var/run/nmea''"
  have cmd: "nmea_cmd nmea = Some cmd" "gl_echo lib cmd = nmea @ [10]"
    using rest assms(2) by (simp_all add: nmea_cmd_def Let_def cmd_def asc_def echo_literal_def)
  define fl where "fl = nmea_file st @ nmea @ [10]"
  have len: "length fl < 10 ^ 4"
    using assms(4) rest(3) by (simp add: fl_def)
  have "take 20 (print_dec (length fl) @ [10]) = print_dec (length fl) @ [10]"
    using print_dec_length [OF len] by simp
  then show ?thesis
    using assms(1) cmd atoi_print [of "length fl"] unfolding fl_def by (simp add: gps_event_nmea_ind_def size_ok_def file_add_def Let_def)
qed

lemma gps_ind_handler_run:
  assumes "size_ok lib" and "echo_literal lib" and "fst ind = QMI_LOC_EVENT_NMEA_IND_V02 \<longrightarrow> literal_sentence (sentence lib (snd ind))"
    and "length (nmea_file st) \<le> 2048"
    and "total_sv st + int (length (seen lib ind)) < 2 ^ 31" and "total_good_sv st + int (length (good (seen lib ind))) < 2 ^ 31"
  shows "gps_ind_handler lib (fst ind) (snd ind) st = Some \<lparr>nmea_file = foldl file_add (nmea_file st) (sentences lib [ind]),
    total_sv = total_sv st + int (length (seen lib ind)), total_good_sv = total_good_sv st + int (length (good (seen lib ind)))\<rparr>"
proof (cases "fst ind = QMI_LOC_EVENT_NMEA_IND_V02")
  case True
  then have "seen lib ind = []"
    by (simp add: seen_def QMI_LOC_EVENT_NMEA_IND_V02_def QMI_LOC_EVENT_GNSS_SV_INFO_IND_V02_def)
  then show ?thesis
    using True nmea_ind_adds [OF assms(1,2) _ assms(4), of "sentence lib (snd ind)"] assms(3)
    by (simp add: gps_ind_handler_def sentence_def sentences_def)
next
  case False
  then have none: "sentences lib [ind] = []"
    by (simp add: sentences_def)
  show ?thesis
  proof (cases "fst ind = QMI_LOC_EVENT_GNSS_SV_INFO_IND_V02 \<and> gl_decode_sv lib (snd ind) \<noteq> None")
    case True
    then obtain i where "gl_decode_sv lib (snd ind) = Some i" "fst ind = QMI_LOC_EVENT_GNSS_SV_INFO_IND_V02"
      by auto
    then show ?thesis
      using False assms(5,6) none by (cases "svList_valid i") (simp_all add: gps_ind_handler_def seen_def gps_event_sv_ind_def sv_loop_counts)
  next
    case no: False
    then have "seen lib ind = []" "gps_ind_handler lib (fst ind) (snd ind) st = Some st"
      using False by (cases "gl_decode_sv lib (snd ind)"; simp add: gps_ind_handler_def seen_def)+
    then show ?thesis
      using none by simp
  qed
qed

text \<open>C23: the indications of the modem. However many come, each is handled, the file of sentences has a line for each sentence
  since it was last emptied and stays within 2048 bytes, and the totals count the valid satellites, those above 30 dB apart. This holds
  when the file has at most 2048 bytes to begin with, the size pipeline prints its size, the totals stay below \<open>2 ^ 31\<close>, and each sentence has at most 102 characters, begins with
  \<open>'$'\<close> and has no quote, dollar sign, backslash or backquote after it: the shell expands others, which the code does not prevent.\<close>

theorem gps_inds_run:
  assumes "size_ok lib" and "echo_literal lib" and "length (nmea_file st) \<le> 2048"
    and "\<forall>nmea \<in> set (sentences lib inds). literal_sentence nmea"
    and "total_sv st + int (length (concat (map (seen lib) inds))) < 2 ^ 31"
    and "total_good_sv st + int (length (concat (map (seen lib) inds))) < 2 ^ 31"
  shows "gps_inds lib inds st = Some \<lparr>nmea_file = foldl file_add (nmea_file st) (sentences lib inds),
      total_sv = total_sv st + int (length (concat (map (seen lib) inds))),
      total_good_sv = total_good_sv st + int (length (good (concat (map (seen lib) inds))))\<rparr>
    \<and> length (foldl file_add (nmea_file st) (sentences lib inds)) \<le> 2048"
  using assms(3-6)
proof (induction inds arbitrary: st)
  case Nil
  then show ?case
    by (simp add: sentences_def)
next
  case (Cons ind inds)
  define st1 where "st1 = \<lparr>nmea_file = foldl file_add (nmea_file st) (sentences lib [ind]),
    total_sv = total_sv st + int (length (seen lib ind)), total_good_sv = total_good_sv st + int (length (good (seen lib ind)))\<rparr>"
  have app: "sentences lib (ind # inds) = sentences lib [ind] @ sentences lib inds"
    by (simp add: sentences_def)
  have g: "length (good (seen lib ind)) \<le> length (seen lib ind)"
    by (rule good_length)
  have one: "fst ind = QMI_LOC_EVENT_NMEA_IND_V02 \<longrightarrow> literal_sentence (sentence lib (snd ind))"
    using Cons.prems(2) by (auto simp: sentences_def)
  have "gps_ind_handler lib (fst ind) (snd ind) st = Some st1"
    using gps_ind_handler_run [OF assms(1,2) one Cons.prems(1)] Cons.prems(3,4) g unfolding st1_def by simp
  moreover have "length (nmea_file st1) \<le> 2048"
    using Cons.prems(1) file_add_length by (simp add: st1_def sentences_def)
  ultimately show ?case
    using Cons.IH [of st1] Cons.prems(2-4) g unfolding app by (cases ind) (simp add: st1_def ball_Un)
qed

definition sample_lib :: gps_lib where
  "sample_lib = \<lparr>gl_decode_pos = (\<lambda>_. True), gl_decode_nmea = Some, gl_decode_sv = (\<lambda>b. Some \<lparr>svList_valid = True,
     svList = map (\<lambda>x. \<lparr>sv_validMask = 0x83, sv_system = 1, sv_snr = 31\<rparr>) b\<rparr>), gl_echo = (\<lambda>cmd. take (length cmd - 25) (drop 7 cmd) @ [10]),
     gl_size = (\<lambda>f. Some (print_dec (length f) @ [10]))\<rparr>"

theorem gps_inds_run_witness:
  "gps_inds sample_lib [(0x26, asc ''$GPGGA''), (0x25, [1, 2])] \<lparr>nmea_file = [10], total_sv = 0, total_good_sv = 1\<rparr>
     = Some \<lparr>nmea_file = [10] @ asc ''$GPGGA'' @ [10], total_sv = 2, total_good_sv = 3\<rparr>"
proof -
  have ok: "size_ok sample_lib" "echo_literal sample_lib"
    by (simp_all add: size_ok_def echo_literal_def sample_lib_def asc_def)
  have c: "sv_counted \<lparr>sv_validMask = 0x83, sv_system = 1, sv_snr = 31\<rparr>"
    by code_simp
  have s: "seen sample_lib (38, asc ''$GPGGA'') = []"
    "seen sample_lib (37, [1, 2]) = [\<lparr>sv_validMask = 0x83, sv_system = 1, sv_snr = 31\<rparr>, \<lparr>sv_validMask = 0x83, sv_system = 1, sv_snr = 31\<rparr>]"
    using c by (simp_all add: seen_def sample_lib_def QMI_LOC_EVENT_GNSS_SV_INFO_IND_V02_def)
  have t: "sentences sample_lib [(38, asc ''$GPGGA''), (37, [1, 2])] = [asc ''$GPGGA'']"
    by (simp add: sentences_def sentence_def sample_lib_def QMI_LOC_EVENT_NMEA_IND_V02_def)
  have l: "literal_sentence (asc ''$GPGGA'')"
    by (simp add: literal_sentence_def shell_literal_def asc_def)
  have f: "file_add [10] (asc ''$GPGGA'') = [10] @ asc ''$GPGGA'' @ [10]"
    by (simp add: file_add_def asc_def)
  from gps_inds_run [OF ok, of "\<lparr>nmea_file = [10], total_sv = 0, total_good_sv = 1\<rparr>" "[(0x26, asc ''$GPGGA''), (0x25, [1, 2])]"]
  show ?thesis
    using l by (simp add: s t f good_def del: gps_inds.simps)
qed

text \<open>A longer sentence, and the modem may send 200 characters, is printed past the end of \<open>cmd\<close>.\<close>

theorem gps_nmea_overflows:
  "gl_decode_nmea lib buf = Some nmea \<Longrightarrow> 103 \<le> length nmea \<Longrightarrow> gps_ind_handler lib QMI_LOC_EVENT_NMEA_IND_V02 buf st = None"
  using nmea_cmd_iff [of nmea] by (simp add: gps_ind_handler_def gps_event_nmea_ind_def)

section \<open>Starting the receiver\<close>

lemma gps_passes_started: "gps_passes n (asc ''-on'') (True, once) = []"
  by (induction n) (simp_all add: gps_pass_def gps_begin_def asc_def)

text \<open>With \<open>-on\<close> the program never ends, and asks the modem once.\<close>

theorem gps_main_on:
  "0 < n \<Longrightarrow> gps_main n (Some (asc ''-on'')) = [Wncqmi_init, Reg_events 0xffffffffffffffff, Set_operation_mode 4, Start_req 0 1 3]"
  by (cases n) (simp_all add: gps_main_def gps_pass_def gps_begin_def initGPSResp_def gps_event_reg_def gps_set_oper_mode_req_def
      gps_start_req_def gps_passes_started)

end
