(* ===== verification/Spec2Isabelle.thy ===== *)
theory Spec2Isabelle
  imports Os_String Os_Crc32 Os_Channel Os_Timer Os_Slice Os_Autoarray Os_Dump Os_Appkey Part_App Um_Main Um_Links Acc_Monitor
    Rgps_Main Loopcheck Gobi_Gps
begin

text \<open>
  \<^bold>\<open>Autelan router software.\<close> The repository is an OpenWrt tree for 32-bit big-endian MIPS routers with
  the vendor's own programs under \<open>src/trunk/package\<close>: the library \<open>autelan-lib\<close>, the programs of
  \<open>autelan-app\<close>, the ignition control and the position
  programs of \<open>autelan\<close>, and \<open>smalltool\<close>. This development models that code; the build
  system, the kernel, the feeds and the vendored packages of the tree are third-party.

  \<^bold>\<open>How the parts work together.\<close> \<open>autelan-lib/src/utils\<close> holds header-only helpers that everything else
  uses. \<open>timer\<close>, \<open>slice\<close> and \<open>appkey\<close> are libraries on top of it: a hierarchical timer wheel, cursor
  buffers, and a shared table of settings. \<open>partool\<close> keeps named variables in a flash partition; the
  library does the work on an image in memory, the program copies it from and to the device. The user
  manager \<open>um\<close> keeps the table of wireless stations: it reads the configuration (\<open>uci.c\<close>), polls the
  stations of each interface (\<open>l2user.c\<close>), ages out those it no longer sees (\<open>um.c\<close>), and answers and
  notifies the system bus (\<open>ubus.c\<close>). In a vehicle, the kernel module \<open>acc_mod\<close> watches the ignition
  and restarts the machine after a delay; the daemon \<open>acc_monitor\<close> configures it and runs scripts.
  \<open>gps\<close> switches the satellite receiver of the modem on and keeps its sentences in a file; \<open>rgps\<close> parses them and reports
  the position. \<open>loopcheck\<close> tests an Ethernet port.

  \<^bold>\<open>Theories and sources.\<close>
  \<^item> \<open>Os_Prelude\<close>: machine types, \<open>outcome\<close> (\<open>Ret\<close>, \<open>Abort\<close> for a failed \<open>os_assert\<close> or an invalid memory access, \<open>Hang\<close> for a call that
    does not return), error numbers (\<open>utils/errno.h\<close>), lemmas on lists and words.
  \<^item> \<open>Os_Libc\<close>: the C functions that read and print decimal numbers.
  \<^item> \<open>Os_List\<close>, \<open>Os_Hlist\<close> (\<open>utils/list.h\<close>): the intrusive lists on a memory of link cells, where a load or a store
    through a dangling pointer is \<open>None\<close>. Every operation on a family of disjoint lists does to the cells what its
    counterpart on HOL lists says, and leaves the rest alone; the loops that unlink as they go are covered by the
    locale \<open>safe_traversal\<close>.
  \<^item> \<open>Os_Base\<close>: \<open>utils/type.h\<close>, \<open>base.h\<close>, \<open>bits.h\<close>, \<open>number.h\<close>, \<open>memory.h\<close>, \<open>mac.h\<close>, \<open>ip.h\<close>. Multi-values, flags,
    digit strings, MAC and IP addresses; printing and reading them back.
  \<^item> \<open>Os_String\<close> (\<open>utils/string.h\<close>), \<open>Os_Crc32\<close> (\<open>crc32.h\<close>, equal to the bit-serial CRC, detects bursts),
    \<open>Os_Cmd\<close> (\<open>cmd.h\<close>, what a command table selects).
  \<^item> \<open>Os_Channel\<close> (\<open>channel.h\<close>): the ring is an instance of the locale of bounded queues, so every run of
    reads and writes is a run of a list queue.
  \<^item> \<open>Os_Slice\<close> (\<open>slice/slice.h\<close>, \<open>slice.c\<close>): the slice rules; a slice refines a list of bytes; printing with
    growth terminates and never truncates.
  \<^item> \<open>Os_Dump\<close> (\<open>dump.h\<close>): hex dumps, and reading them back.
  \<^item> \<open>Os_Autoarray\<close> (\<open>autoarray.h\<close>): growing arrays and what \<open>os_aa_get\<close> fails to do.
  \<^item> \<open>Os_Sfile\<close> (\<open>sfile.h\<close>) and \<open>Os_Appkey\<close> (\<open>appkey/appkey.c\<close>, \<open>utils/appkey.h\<close>, the program \<open>appkey\<close>): the
    scanner keeps what its callback keeps (locale \<open>line_invariant\<close>); the settings table is a map; files
    load into it; identifiers survive a reload and stop working at entry 964. A read error makes the scanner hang.
  \<^item> \<open>Os_Timer\<close> (\<open>timer/timer.c\<close>): the invariant of the wheel, and that it refines a flat table of deadlines:
    timers fire on time, exactly once per period, and not after removal.
  \<^item> \<open>Part_Block\<close>, \<open>Part_Codec\<close>, \<open>Part_Store\<close> (\<open>partool/partool.c\<close>, \<open>partool.h\<close> of the library) and \<open>Part_App\<close>
    (the program): line codec, CRC header, variables as a map, write-then-read round trips through
    the device, damage detection.
  \<^item> \<open>Um_Base\<close>, \<open>Um_User\<close> (\<open>um.h\<close>, \<open>user.c\<close>), \<open>Um_Uci\<close> (\<open>uci.c\<close>), \<open>Um_Ubus\<close> (\<open>ubus.c\<close>), \<open>Um_L2\<close> (\<open>l2user.c\<close>,
    \<open>l3user.c\<close>), \<open>Um_Main\<close> (\<open>um.c\<close>): the user table with its two hashes as an explicit store, one
    definition per function, the process as a step function. The invariant \<open>um_inv\<close> holds in every
    reachable state; updates, deletions and sweeps refine operations on a map from MAC addresses to
    users; configuration loads, reports and queries do what they list.
  \<^item> \<open>Um_Links\<close>: the same functions of \<open>user.c\<close> and \<open>uci.c\<close> once more, now with their list calls on linked memory; they
    refine the definitions of \<open>Um_User\<close> and \<open>Um_Uci\<close>, which use HOL lists.
  \<^item> \<open>Acc_Mod\<close> (\<open>acc_mod/src/check_acc.c\<close> and the GPIO part of \<open>ar9350.h\<close>): the module under its kernel as an
    inductive reachability relation over events; it refines a machine of five phases, uses its timers as the kernel
    asks, announces a shutdown only after enough readings, and restarts at a known tick.
  \<^item> \<open>Acc_Monitor\<close> (\<open>acc_utils/src/acc_monitor.c\<close>, the messages of \<open>acc_setget.c\<close>): the daemon with the module
    inside; the delay set over the bus is the delay that runs, if the device could be opened.
  \<^item> \<open>Rgps\<close> (\<open>rgps/src/rgps.c\<close>): the NMEA parser, character by character, with its arrays; the reports and the round of
    the main loop. It reads back the sentences a receiver with a fix prints, ignores those that say there is none, takes empty fields
    for data, and overruns its arrays on the inputs named there. \<open>Rgps_Main\<close>: options, the HTTP request, and the main loop; in every
    state it reaches without such an overrun the strings fit their arrays and the next report is printed inside its buffers.
  \<^item> \<open>Gobi_Gps\<close> (\<open>gobi_apps/src/gps.c\<close>, \<open>gpsmain.c\<close>): indications of the modem; what the file of sentences holds, and that it stays within 2048 bytes.
  \<^item> \<open>Loopcheck\<close> (\<open>smalltool/src/loopcheck.c\<close>): when the test succeeds on a cable.
  \<^item> This theory: properties over several of them.

  \<^bold>\<open>Conventions.\<close> A C string is the list of its bytes before the NUL; a struct is a record, shared objects
  are addresses into a store where aliasing matters (\<open>Um_Base\<close>, \<open>Os_Timer\<close>, \<open>Os_List\<close>) and values elsewhere.
  Integers are words where they can wrap and \<open>int\<close> where an invariant keeps them small. Failing
  functions return \<open>err e\<close>, the negated number, as the code does. A memory access outside an object is
  \<open>None\<close> in \<open>Um_L2\<close>, \<open>Os_Slice\<close>, \<open>Acc_Monitor\<close>, \<open>Os_List\<close>, \<open>Os_Dump\<close>,
  \<open>Rgps\<close>, \<open>Loopcheck\<close> and \<open>Gobi_Gps\<close>, where the code can make one.

  \<^bold>\<open>Loops.\<close> No definition uses fuel. Loops over data are structural recursions; \<open>part_line_read_loop\<close>,
  \<open>stream_lines\<close>, \<open>slice_vsprintf\<close> and \<open>nmea_loop\<close> come with a measure; \<open>channel_align\<close>, which diverges for a limit of
  0, and the list loops, which run for ever on links that are not a ring, are partial functions into \<open>option\<close>. They
  are shown to return: \<open>channel_align\<close> for every positive limit, the loops on every well-formed list.

  \<^bold>\<open>Environment.\<close> What the code calls outside the repository is a parameter with named assumptions:
  allocation (\<open>alloc\<close>, \<open>malloc_fresh\<close>: a new object has an address not in use), shell pipelines of the
  station collector (what they print; \<open>shell_ok\<close>, that they print something, is assumed by one rule of \<open>Um_L2\<close> only), libuci and libubus (parsed packages and messages), the
  file system (\<open>dir_ok\<close>: names without NUL; \<open>dir_readable\<close>: no read errors), socket buffers (\<open>skb\<close>), contents of uninitialised memory
  (\<open>junk\<close>, \<open>fresh\<close>), the clock (\<open>tm\<close>), sockets (\<open>web_env\<close>, \<open>lc_env\<close>), the modem library and the shell of
  \<open>gps\<close> (\<open>gps_lib\<close>: \<open>size_ok\<close>, what \<open>ls\<close> prints, and \<open>echo_literal\<close>, what \<open>echo\<close> does with text the shell does not expand). The kernel calls of \<open>check_acc.c\<close> (timers, tasklet, semaphore) and the libc scanners
  are modelled by their documented effect. Each assumption is met by a concrete sample in a witness.

  \<^bold>\<open>Not modelled.\<close> Trace, dump and help output (one trace of \<open>uci.c\<close> reads an interface after it was freed); timer callbacks that
  change timers; the returned local arrays and the second \<open>pclose\<close> of \<open>l2user.c\<close>; sleeping in atomic context and unchecked
  addresses in \<open>acc_mod\<close>; socket set-up, signals and the bus registration calls; the
  boot-loader variants; floating-point scaling of the voltage (a parameter); the modem
  tools \<open>at_ctrl\<close>, which pass one command to a serial port, and the vendor's SDK; \<open>btt\<close>, which crashes on purpose; everything of
  OpenWrt itself. On the router the \<open>list_head\<close> half of \<open>list.h\<close> is replaced by the header of the same name and
  operations in \<open>libubox\<close>.
\<close>

section \<open>Properties that span components\<close>

text \<open>C10: a partition whose stored payload is damaged inside one window of at most four bytes is rejected.
  \<open>part_high_read\<close> on the damaged cache returns \<open>-EBADCRC\<close> and leaves the block as it was, so no
  damaged variable is ever read.\<close>

theorem part_damage_rejected:
  assumes "fits (pb_size block) cs" and "image (pb_size block) cs = h @ ws @ post" and "9 \<le> length h"
    and "length ws = length vs" and "length ws \<le> 4" and "ws \<noteq> vs"
    and "pb_cache block = h @ vs @ post" and "pb_count block = 0"
  shows "part_high_read alloc past block = Ret (err EBADCRC, block)"
proof -
  define n where "n = pb_size block"
  have img: "crc_head (os_crc32 (payload n cs)) @ PART_CRLF # payload n cs = h @ ws @ post"
    using assms(2) by (simp add: image_def n_def)
  have len: "length (payload n cs) = n - 9" "length (h @ vs @ post) = n" "9 < n"
    using assms(1,4) arg_cong [OF assms(2), of length] by (simp_all add: length_payload length_image n_def fits_def)
  have h: "take 8 h = crc_head (os_crc32 (payload n cs))" "payload n cs = drop 9 h @ ws @ post"
    using arg_cong [OF img, of "take 8"] arg_cong [OF img, of "drop 9"] assms(3) by simp_all
  have body: "part_block_body block = drop 9 h @ vs @ post"
    using assms(3,7) len by (simp add: part_block_body_def CRC32_STRINGLEN_def n_def)
  have "part_block_crc_read block = Ret (os_crc32 (payload n cs))"
    using h(1) assms(3,7) by (simp add: part_block_crc_read_def Let_def crc_head_digits CRC32_STRINGLEN_def)
  moreover have "part_block_crc block = os_crc32 (drop 9 h @ vs @ post)"
    using len assms(3) by (simp add: part_block_crc_def body part_block_size_def CRC32_STRINGLEN_def n_def)
  moreover have "os_crc32 (payload n cs) \<noteq> os_crc32 (drop 9 h @ vs @ post)"
    unfolding h(2) by (rule crc_burst [OF assms(4-6)])
  ultimately show ?thesis
    using assms(8) by (simp add: part_high_read_def)
qed

theorem part_damage_rejected_witness:
  "part_high_read (\<lambda>_ _. True) 0 ((sample_block [])\<lparr>pb_cache := (crc_head (os_crc32 (payload 40 [])) @ [PART_CRLF]) @ [1] @ replicate 30 0\<rparr>)
    = Ret (err EBADCRC, (sample_block [])\<lparr>pb_cache := (crc_head (os_crc32 (payload 40 [])) @ [PART_CRLF]) @ [1] @ replicate 30 0\<rparr>)"
proof -
  have "replicate 31 (0 :: u8) = [0] @ replicate 30 0"
    by (simp flip: replicate_Suc)
  then have "image 40 [] = (crc_head (os_crc32 (payload 40 [])) @ [PART_CRLF]) @ [0] @ replicate 30 0"
    by (simp add: image_def payload_def lines_of_simps)
  then show ?thesis
    by (intro part_damage_rejected [where cs = "[]" and ws = "[0]" and vs = "[1]"
        and h = "crc_head (os_crc32 (payload 40 [])) @ [PART_CRLF]" and post = "replicate 30 0"]) (simp_all add: sample_block_def fits_def lines_of_simps)
qed

text \<open>C9: the life of a station. Storing a local station with a 6-byte address, neither zero nor all ones, through \<open>um_user_update\<close> with \<open>l2user_update\<close>, the
  call that \<open>l2user_timer\<close> makes for every station it sees, enters it into a consistent table or refreshes it, provided
  the allocation of a new record succeeds. From then on the station stays in the table for as many rounds of \<open>aging\<close> as
  \<open>um_agtimes\<close>, which must be positive, says, less one, and is gone after that many, if it is not stored again.\<close>

theorem station_lifecycle:
  assumes "um_inv c" and "malloc_fresh env" and "user_map c (us_mac info) = None \<Longrightarrow> env_malloc env c \<noteq> None"
    and "length (us_mac info) = 6" and "is_good_mac (us_mac info)" and "us_local info" and "0 < um_agtimes env"
  shows "\<exists>a c'. um_user_update env c info (l2user_update env) = (Some a, c')
    \<and> (\<forall>k. user_map (((\<lambda>c. snd (aging env c)) ^^ k) c') (us_mac info) = None \<longleftrightarrow> um_agtimes env \<le> int k)"
proof -
  obtain v where v: "v = (case user_map c (us_mac info) of Some u \<Rightarrow> l2user_fill env False u info
    | None \<Rightarrow> l2user_fill env True (new_user env (us_mac info)) info)"
    by simp
  obtain a c' where c': "um_user_update env c info (l2user_update env) = (Some a, c')" "um_inv c'"
    "\<forall>m. length m = 6 \<longrightarrow> user_map c' m = ((user_map c)(us_mac info \<mapsto> v\<lparr>us_aging := um_agtimes env\<rparr>)) m"
    using l2.update_map [OF assms(1,4,5,2,3) v] by auto
  have u: "user_map c' (us_mac info) = Some (v\<lparr>us_aging := um_agtimes env\<rparr>)"
    using c'(3) assms(4) by simp
  have "us_local v"
    using assms(6) by (simp add: v l2user_fill_def Let_def split: option.split)
  then have "user_map (((\<lambda>c. snd (aging env c)) ^^ k) c') (us_mac info) = None \<longleftrightarrow> um_agtimes env \<le> int k" for k
    using aging_iter [OF c'(2) assms(4) u, of k env] u assms(7) by (cases "k = 0") simp_all
  with c'(1) show ?thesis
    by blast
qed

theorem station_lifecycle_witness:
  "\<exists>a c'. um_user_update sample_env umc_init ((um_user_init True)\<lparr>us_mac := [0, 1, 2, 3, 4, 5]\<rparr>) (l2user_update sample_env) = (Some a, c')
    \<and> user_map (((\<lambda>c. snd (aging sample_env c)) ^^ 1) c') [0, 1, 2, 3, 4, 5] \<noteq> None
    \<and> user_map (((\<lambda>c. snd (aging sample_env c)) ^^ 2) c') [0, 1, 2, 3, 4, 5] = None"
proof -
  let ?info = "(um_user_init True)\<lparr>us_mac := [0, 1, 2, 3, 4, 5]\<rparr>"
  have e: "env_malloc sample_env umc_init \<noteq> None" "um_agtimes sample_env = 2" "us_local ?info"
    by (simp_all add: sample_env_def um_agtimes_def um_user_init_def)
  obtain a c' where "um_user_update sample_env umc_init ?info (l2user_update sample_env) = (Some a, c')"
    and k: "\<forall>k. user_map (((\<lambda>c. snd (aging sample_env c)) ^^ k) c') (us_mac ?info) = None \<longleftrightarrow> um_agtimes sample_env \<le> int k"
    using station_lifecycle [OF um_inv_init sample_env_fresh e(1), of ?info] e(2,3) sample_user_mac(2) by auto
  then show ?thesis
    using e(2) k [rule_format, of 1] k [rule_format, of 2] by (intro exI [of _ a] exI [of _ c']) simp
qed

end
